(* ===== verification/Prelude.thy ===== *)
theory Prelude
  imports Main "HOL-Library.Word"
begin

text \<open>
  Shared vocabulary of the development: the machine integers of the C++ sources, the
  collections of facts that component proofs rewrite with, the sum-type error monad that
  stands for exceptions and early returns, and lemmas on byte buffers.  A \<open>uint8_t *\<close>
  pointer into an array or vector is modelled as a pair of arguments: the whole buffer as a list
  and the offset of the pointed-to byte.
\<close>

unbundle bit_operations_syntax

section \<open>Machine integers\<close>

type_synonym u8 = "8 word"
type_synonym u16 = "16 word"
type_synonym u32 = "32 word"
type_synonym u64 = "64 word"

text \<open>Facts that describe buffer lengths, buffer frames and round trips.\<close>

named_theorems length_facts
named_theorems frame_facts
named_theorems roundtrip_facts

section \<open>Errors as values\<close>

text \<open>
  A computation that may throw is a value of \<open>'e + 'a\<close>.  \<open>ebind\<close> runs the continuation on
  a result and passes an error on, as an exception leaves every enclosing statement.
\<close>

fun ebind :: "'e + 'a \<Rightarrow> ('a \<Rightarrow> 'e + 'b) \<Rightarrow> 'e + 'b" where
  "ebind (Inl e) f = Inl e"
| "ebind (Inr x) f = f x"

fun is_ok :: "'e + 'a \<Rightarrow> bool" where
  "is_ok (Inl e) = False"
| "is_ok (Inr x) = True"

lemma ebind_Inr_iff [simp]:
  "ebind m f = Inr y \<longleftrightarrow> (\<exists>x. m = Inr x \<and> f x = Inr y)"
  by (cases m) auto

lemma ebind_Inl_iff:
  "ebind m f = Inl e \<longleftrightarrow> m = Inl e \<or> (\<exists>x. m = Inr x \<and> f x = Inl e)"
  by (cases m) auto

text \<open>
  \<open>never E m\<close>: the computation \<open>m\<close> does not end in an error of the class \<open>E\<close>.  Proofs that
  no run of a parser reads outside its buffer use it with the class of out-of-bounds errors.
\<close>

definition never :: "('e \<Rightarrow> bool) \<Rightarrow> 'e + 'a \<Rightarrow> bool" where
  "never E m \<longleftrightarrow> (case m of Inl e \<Rightarrow> \<not> E e | Inr _ \<Rightarrow> True)"

lemma never_Inr [simp, intro]: "never E (Inr x)"
  by (simp add: never_def)

lemma never_Inl [simp]: "never E (Inl e) \<longleftrightarrow> \<not> E e"
  by (simp add: never_def)

lemma never_ebind [intro]:
  assumes "never E m" and "\<And>x. m = Inr x \<Longrightarrow> never E (f x)"
  shows "never E (ebind m f)"
  using assms by (cases m) auto

lemma never_if [intro]:
  assumes "b \<Longrightarrow> never E x" and "\<not> b \<Longrightarrow> never E y"
  shows "never E (if b then x else y)"
  using assms by auto

section \<open>Lists and buffers\<close>

text \<open>
  \<open>chunk d off n\<close> is the run of \<open>n\<close> bytes at offset \<open>off\<close>; \<open>blit d off xs\<close> is
  \<open>memcpy(&d[off], xs, xs.size())\<close>.
\<close>

definition chunk :: "'a list \<Rightarrow> nat \<Rightarrow> nat \<Rightarrow> 'a list" where
  "chunk d off n = take n (drop off d)"

definition blit :: "'a list \<Rightarrow> nat \<Rightarrow> 'a list \<Rightarrow> 'a list" where
  "blit d off xs = take off d @ xs @ drop (off + length xs) d"

lemma length_chunk [simp]: "length (chunk d off n) = min n (length d - off)"
  by (simp add: chunk_def min_def)

lemma nth_chunk [simp]: "i < n \<Longrightarrow> off + i < length d \<Longrightarrow> chunk d off n ! i = d ! (off + i)"
  by (simp add: chunk_def)

lemma length_blit [simp]: "off + length xs \<le> length d \<Longrightarrow> length (blit d off xs) = length d"
  by (simp add: blit_def)

lemma nth_blit:
  assumes "off + length xs \<le> length d"
  shows "blit d off xs ! i = (if off \<le> i \<and> i < off + length xs then xs ! (i - off) else d ! i)"
proof -
  have lt: "off \<le> length d" using assms by simp
  consider "i < off" | "off \<le> i" "i < off + length xs" | "off + length xs \<le> i" by linarith
  then show ?thesis
  proof cases
    case 1
    then show ?thesis using lt by (simp add: blit_def nth_append)
  next
    case 2
    then have "i - off < length xs" by linarith
    then show ?thesis using 2 lt by (simp add: blit_def nth_append)
  next
    case 3
    then obtain k where k: "i = off + length xs + k" using le_Suc_ex by blast
    show ?thesis
    proof (cases "i < length d")
      case True
      then show ?thesis using k lt assms by (simp add: blit_def nth_append add.assoc)
    next
      case False
      have "drop (off + length xs) d ! k = d ! i"
        using k assms by simp
      then show ?thesis using k lt by (simp add: blit_def nth_append)
    qed
  qed
qed

lemma blit_append:
  "length p = off \<Longrightarrow> length z = length xs \<Longrightarrow> blit (p @ z @ rest) off xs = p @ xs @ rest"
  by (simp add: blit_def)

lemma chunk_blit_same [simp]:
  assumes "off + length xs \<le> length d"
  shows "chunk (blit d off xs) off (length xs) = xs"
  using assms by (intro nth_equalityI) (auto simp: nth_blit)

lemma chunk_update:
  "chunk (d[j := v]) a n = (if a \<le> j then (chunk d a n)[j - a := v] else chunk d a n)"
  by (simp add: chunk_def drop_update_swap take_update_swap)

lemma chunk_update_other:
  "j < a \<or> a + n \<le> j \<Longrightarrow> chunk (d[j := v]) a n = chunk d a n"
  by (auto simp: chunk_update list_update_beyond)

lemma chunk_whole [simp]: "length xs \<le> n \<Longrightarrow> chunk xs 0 n = xs"
  by (simp add: chunk_def)

lemma blit_whole [simp]: "length ys = length xs \<Longrightarrow> blit xs 0 ys = ys"
  by (simp add: blit_def)

lemma chunk_blit_other:
  assumes "off + length xs \<le> length d" and "o2 + n \<le> off \<or> off + length xs \<le> o2"
    and "o2 + n \<le> length d"
  shows "chunk (blit d off xs) o2 n = chunk d o2 n"
  using assms by (intro nth_equalityI) (auto simp: nth_blit)

lemma chunk_blit_len [simp]:
  "off + n \<le> length d \<Longrightarrow> length xs = n \<Longrightarrow> chunk (blit d off xs) off n = xs"
  using chunk_blit_same by blast

lemma blit_chunk_self [simp]: "off + n \<le> length d \<Longrightarrow> blit d off (chunk d off n) = d"
  by (intro nth_equalityI) (auto simp: nth_blit)

lemma blit_chunk_back:
  "off + length xs \<le> length d \<Longrightarrow> length ys = length xs \<Longrightarrow>
    blit (blit d off xs) off ys = blit d off ys"
  by (intro nth_equalityI) (simp_all add: nth_blit)

lemma blit_chunk_id:
  assumes "off + n \<le> length d" and "chunk d off n = xs" and "length xs = n"
  shows "blit d off xs = d"
proof (rule nth_equalityI)
  show "length (blit d off xs) = length d" using assms by simp
  fix i assume "i < length (blit d off xs)"
  show "blit d off xs ! i = d ! i"
    using assms by (auto simp: nth_blit)
qed

text \<open>A loop \<open>for (i = 0; i < n; i++)\<close> whose body updates the buffer is a \<open>fold\<close> over \<open>[0..<n]\<close>.\<close>

lemma fold_upt_Suc [simp]: "fold f [0..<Suc n] s = f n (fold f [0..<n] s)"
  by simp

lemma fold_upt_invariant:
  assumes "P 0 s" and "\<And>i t. i < n \<Longrightarrow> P i t \<Longrightarrow> P (Suc i) (f i t)"
  shows "P n (fold f [0..<n] s)"
  using assms by (induction n) auto

lemma upt_numeral_unfold:
  "[0..<numeral k] = [0..<pred_numeral k] @ [pred_numeral k]"
  by (simp add: numeral_eq_Suc)

section \<open>Bytes and words\<close>

lemma bit_ucast_u8: "bit (ucast (w :: 'a::len word) :: u8) k \<longleftrightarrow> k < 8 \<and> bit w k"
  by (auto simp: bit_ucast_iff dest: bit_imp_le_length)

lemma unat_word_of_nat_small:
  "n < 2 ^ LENGTH('a) \<Longrightarrow> unat (word_of_nat n :: 'a::len word) = n"
  by (simp add: unsigned_of_nat take_bit_nat_eq_self)

lemma ucast_drop_bit_word_of_nat:
  assumes "n < 2 ^ LENGTH('a)"
  shows "(ucast (drop_bit k (word_of_nat n :: 'a::len word)) :: 'b::len word) = word_of_nat (n div 2 ^ k)"
proof -
  have "unat (drop_bit k (word_of_nat n :: 'a word)) = n div 2 ^ k"
    by (simp only: unat_drop_bit_eq unat_word_of_nat_small [OF assms]) (rule drop_bit_eq_div)
  then show ?thesis by (metis of_nat_unat)
qed

lemma unat_ucast_small:
  fixes w :: "'a::len word"
  assumes "unat w < 2 ^ LENGTH('b)"
  shows "unat (ucast w :: 'b::len word) = unat w"
  using unat_word_of_nat_small [OF assms] by (metis of_nat_unat)

lemma word_xor_cancel [simp]:
  fixes a b :: "'a::len word"
  shows "(a XOR b) XOR b = a" and "b XOR (b XOR a) = a" and "b XOR (a XOR b) = a"
  by (simp_all add: xor.assoc xor.left_commute)

end
