(* ===== verification/Search.thy ===== *)
theory Search
  imports Prelude
begin

text \<open>
  \<open>bruteForceEsn\<close> of src/siemens/bruteforce.cpp: the threaded sweep of the 32-bit ESN space.  The
  workers share the atomics \<open>found\<close> and \<open>result\<close>; a schedule picks the worker that runs next.  A
  turn runs one iteration of the worker's loop, or the second of the two stores that publish a
  match.  A relaxed load may return an old value, so a worker that looks at \<open>found\<close> after
  another one set it may still read false (\<open>stale\<close>).  Candidates are nat: \<open>uint64_t\<close> does
  not wrap for fewer than 2^28 threads.  The match predicate is the argument \<open>matches\<close>; the
  progress callback is \<open>progress\<close>, which says for which percentages it throws.
\<close>

section \<open>The code\<close>

definition ESN_COUNT :: nat where "ESN_COUNT = 0x100000000"
definition PROGRESS_INTERVAL :: nat where "PROGRESS_INTERVAL = 0x40000"

datatype worker_pc = Loop | Publish | Done

record worker =
  worker_pc :: worker_pc
  firstCandidate :: nat
  ticks :: nat

record search_config =
  threadCount :: nat
  batchSize :: nat
  matches :: "u32 \<Rightarrow> u32 option"
  progress :: "(nat \<Rightarrow> bool) option"

record search_state =
  found :: bool
  found_value :: u32
  progressError :: bool
  reportedPercent :: nat
  workers :: "worker list"

definition search_init :: "search_config \<Rightarrow> search_state" where
  "search_init cfg = \<lparr>found = False, found_value = 0, progressError = False, reportedPercent = 0,
     workers = map (\<lambda>thread. \<lparr>worker_pc = Loop, firstCandidate = thread * batchSize cfg, ticks = 0\<rparr>)
       [0..<threadCount cfg]\<rparr>"

definition set_worker :: "nat \<Rightarrow> worker \<Rightarrow> search_state \<Rightarrow> search_state" where
  "set_worker thread w s = s\<lparr>workers := (workers s)[thread := w]\<rparr>"

text \<open>The body of the loop: the periodic check, the progress report, the candidate.\<close>

definition loop_body :: "search_config \<Rightarrow> nat \<Rightarrow> bool \<Rightarrow> worker \<Rightarrow> search_state \<Rightarrow> search_state" where
  "loop_body cfg thread stale w s =
     (let tick = ticks w + 1;
          check = (tick \<ge> PROGRESS_INTERVAL div batchSize cfg);
          w = w\<lparr>ticks := if check then 0 else tick\<rparr>;
          percent = firstCandidate w * 100 div ESN_COUNT;
          report = (check \<and> progress cfg \<noteq> None \<and> thread = 0 \<and> percent > reportedPercent s)
      in if check \<and> found s \<and> \<not> stale then set_worker thread (w\<lparr>worker_pc := Done\<rparr>) s
         else let s = (if report then s\<lparr>reportedPercent := percent\<rparr> else s)
         in if report \<and> the (progress cfg) percent
            then (set_worker thread (w\<lparr>worker_pc := Done\<rparr>) s)\<lparr>progressError := True, found := True\<rparr>
            else (case matches cfg (word_of_nat (firstCandidate w)) of
                Some match \<Rightarrow> (set_worker thread (w\<lparr>worker_pc := Publish\<rparr>) s)\<lparr>found_value := match\<rparr>
              | None \<Rightarrow> set_worker thread
                  (w\<lparr>firstCandidate := firstCandidate w + threadCount cfg * batchSize cfg\<rparr>) s))"

definition worker_turn :: "search_config \<Rightarrow> nat \<Rightarrow> bool \<Rightarrow> search_state \<Rightarrow> search_state" where
  "worker_turn cfg thread stale s =
     (let w = workers s ! thread
      in case worker_pc w of
           Done \<Rightarrow> s
         | Publish \<Rightarrow> (set_worker thread (w\<lparr>worker_pc := Done\<rparr>) s)\<lparr>found := True\<rparr>
         | Loop \<Rightarrow> if firstCandidate w < ESN_COUNT then loop_body cfg thread stale w s
                   else set_worker thread (w\<lparr>worker_pc := Done\<rparr>) s)"

inductive search_step :: "search_config \<Rightarrow> search_state \<Rightarrow> search_state \<Rightarrow> bool" for cfg where
  turn: "thread < length (workers s) \<Longrightarrow> worker_pc (workers s ! thread) \<noteq> Done \<Longrightarrow>
    search_step cfg s (worker_turn cfg thread stale s)"

inductive search_reach :: "search_config \<Rightarrow> nat \<Rightarrow> search_state \<Rightarrow> bool" for cfg where
  start: "search_reach cfg 0 (search_init cfg)"
| step: "search_reach cfg n s \<Longrightarrow> search_step cfg s s' \<Longrightarrow> search_reach cfg (Suc n) s'"

inductive_cases search_stepE: "search_step cfg s s'"

definition all_done :: "search_state \<Rightarrow> bool" where
  "all_done s \<longleftrightarrow> list_all (\<lambda>w. worker_pc w = Done) (workers s)"

text \<open>
  What the function returns once every worker has been joined; Inl is an exception of the
  callback, at 0 percent before the workers start, in the loop, or at 100 percent.
\<close>

definition search_end :: "search_config \<Rightarrow> search_state \<Rightarrow> unit + bool \<times> u32" where
  "search_end cfg s =
     (if progressError s then Inl ()
      else if progress cfg \<noteq> None \<and> reportedPercent s < 100 \<and> the (progress cfg) 100 then Inl ()
      else if \<not> found s then Inr (False, 0) else Inr (True, found_value s))"

definition effectiveThreads :: "nat \<Rightarrow> nat \<Rightarrow> nat" where
  "effectiveThreads hardware requested = (if requested = 0 then max 1 hardware else requested)"

inductive bruteForceEsn ::
  "nat \<Rightarrow> nat \<Rightarrow> nat \<Rightarrow> (nat \<Rightarrow> bool) option \<Rightarrow> (u32 \<Rightarrow> u32 option) \<Rightarrow> unit + bool \<times> u32 \<Rightarrow> bool"
  for hardware requested batch callback matcher where
  first_report: "callback = Some throws \<Longrightarrow> throws 0 \<Longrightarrow>
    bruteForceEsn hardware requested batch callback matcher (Inl ())"
| joined: "\<not> (\<exists>throws. callback = Some throws \<and> throws 0) \<Longrightarrow>
    cfg = \<lparr>threadCount = effectiveThreads hardware requested, batchSize = batch,
           matches = matcher, progress = callback\<rparr> \<Longrightarrow>
    search_reach cfg n s \<Longrightarrow> all_done s \<Longrightarrow>
    bruteForceEsn hardware requested batch callback matcher (search_end cfg s)"

section \<open>The invariant\<close>

text \<open>
  The candidates of a thread are the multiples \<open>(k * T + t) * B\<close>.  \<open>thread_match\<close>: the value is the
  first match of one thread.
\<close>

definition candidate :: "search_config \<Rightarrow> nat \<Rightarrow> nat \<Rightarrow> nat" where
  "candidate cfg thread k = (k * threadCount cfg + thread) * batchSize cfg"

definition no_match_before :: "search_config \<Rightarrow> nat \<Rightarrow> nat \<Rightarrow> bool" where
  "no_match_before cfg thread k \<longleftrightarrow> (\<forall>j < k. matches cfg (word_of_nat (candidate cfg thread j)) = None)"

definition thread_match :: "search_config \<Rightarrow> u32 \<Rightarrow> bool" where
  "thread_match cfg v \<longleftrightarrow> (\<exists>thread k. thread < threadCount cfg \<and> candidate cfg thread k < ESN_COUNT \<and>
     no_match_before cfg thread k \<and> matches cfg (word_of_nat (candidate cfg thread k)) = Some v)"

definition worker_ok :: "search_config \<Rightarrow> search_state \<Rightarrow> nat \<Rightarrow> worker \<Rightarrow> bool" where
  "worker_ok cfg s thread w \<longleftrightarrow>
     (\<exists>k. firstCandidate w = candidate cfg thread k \<and> no_match_before cfg thread k) \<and>
     (worker_pc w = Publish \<longrightarrow> thread_match cfg (found_value s)) \<and>
     (worker_pc w = Done \<longrightarrow> found s \<or> ESN_COUNT \<le> firstCandidate w)"

definition search_inv :: "search_config \<Rightarrow> search_state \<Rightarrow> bool" where
  "search_inv cfg s \<longleftrightarrow> length (workers s) = threadCount cfg \<and>
     (\<forall>thread < threadCount cfg. worker_ok cfg s thread (workers s ! thread)) \<and>
     (found s \<and> \<not> progressError s \<longrightarrow> thread_match cfg (found_value s))"

lemma candidate_Suc: "candidate cfg thread (Suc k) = candidate cfg thread k + threadCount cfg * batchSize cfg"
  by (simp add: candidate_def algebra_simps)

lemma no_match_before_Suc:
  "no_match_before cfg thread (Suc k) \<longleftrightarrow>
    no_match_before cfg thread k \<and> matches cfg (word_of_nat (candidate cfg thread k)) = None"
  by (auto simp: no_match_before_def less_Suc_eq)

lemma search_init_inv: "search_inv cfg (search_init cfg)"
  by (auto simp: search_inv_def search_init_def worker_ok_def no_match_before_def candidate_def
      intro!: exI [of _ 0])

text \<open>
  Replacing one worker: the other ones stay as they were as long as \<open>found\<close> is not reset and the
  published value stays a match.
\<close>

lemma set_worker_inv:
  assumes inv: "search_inv cfg s" and t: "thread < threadCount cfg"
    and s': "workers s' = (workers s)[thread := w]"
    and mono: "found s \<Longrightarrow> found s'"
    and val: "found_value s' = found_value s \<or> thread_match cfg (found_value s')"
    and ok: "worker_ok cfg s' thread w"
    and glob: "found s' \<and> \<not> progressError s' \<longrightarrow> thread_match cfg (found_value s')"
  shows "search_inv cfg s'"
proof -
  have "worker_ok cfg s' u ((workers s)[thread := w] ! u)" if "u < threadCount cfg" for u
  proof (cases "u = thread")
    case True
    then show ?thesis using inv t ok by (simp add: search_inv_def)
  next
    case False
    then have "worker_ok cfg s u (workers s ! u)" using inv that by (simp add: search_inv_def)
    then show ?thesis using False mono val by (auto simp: worker_ok_def)
  qed
  then show ?thesis using inv s' glob by (simp add: search_inv_def)
qed

lemma loop_body_inv:
  assumes inv: "search_inv cfg s" and t: "thread < threadCount cfg"
    and w: "w = workers s ! thread" "worker_pc w = Loop" "firstCandidate w < ESN_COUNT"
  shows "search_inv cfg (loop_body cfg thread stale w s)"
proof -
  have "worker_ok cfg s thread w" using inv t w(1) by (simp add: search_inv_def)
  then obtain k where k: "firstCandidate w = candidate cfg thread k" "no_match_before cfg thread k"
    by (auto simp: worker_ok_def)
  have tm: "thread_match cfg v" if "matches cfg (word_of_nat (firstCandidate w)) = Some v" for v
    using that k t w(3) by (auto simp: thread_match_def)
  have next_k: "\<exists>j. firstCandidate w + threadCount cfg * batchSize cfg = candidate cfg thread j
      \<and> no_match_before cfg thread j" if "matches cfg (word_of_nat (firstCandidate w)) = None"
    using that k by (intro exI [of _ "Suc k"]) (simp add: candidate_Suc no_match_before_Suc)
  have glob: "found s \<and> \<not> progressError s \<longrightarrow> thread_match cfg (found_value s)"
    using inv by (simp add: search_inv_def)
  define w' where "w' = w\<lparr>ticks := if ticks w + 1 \<ge> PROGRESS_INTERVAL div batchSize cfg then 0 else ticks w + 1\<rparr>"
  define s1 where "s1 r = (if r then s\<lparr>reportedPercent := firstCandidate w' * 100 div ESN_COUNT\<rparr> else s)" for r
  have w': "firstCandidate w' = firstCandidate w" "worker_pc w' = Loop" using w(2) by (simp_all add: w'_def)
  have s1: "workers (s1 r) = workers s" "found (s1 r) = found s" "found_value (s1 r) = found_value s"
    "progressError (s1 r) = progressError s" for r by (simp_all add: s1_def)
  have stop: "search_inv cfg (set_worker thread (w'\<lparr>worker_pc := Done\<rparr>) s)" if "found s"
    by (rule set_worker_inv [OF inv t]) (use that glob k w' in \<open>auto simp: set_worker_def worker_ok_def\<close>)
  have throw: "search_inv cfg ((set_worker thread (w'\<lparr>worker_pc := Done\<rparr>) (s1 r))
      \<lparr>progressError := True, found := True\<rparr>)" for r
    by (rule set_worker_inv [OF inv t]) (use s1 k w' in \<open>auto simp: set_worker_def worker_ok_def\<close>)
  have hit: "search_inv cfg ((set_worker thread (w'\<lparr>worker_pc := Publish\<rparr>) (s1 r))\<lparr>found_value := v\<rparr>)"
    if "matches cfg (word_of_nat (firstCandidate w)) = Some v" for r v
    by (rule set_worker_inv [OF inv t]) (use s1 k w' tm [OF that] in \<open>auto simp: set_worker_def worker_ok_def\<close>)
  have miss: "search_inv cfg (set_worker thread
      (w'\<lparr>firstCandidate := firstCandidate w' + threadCount cfg * batchSize cfg\<rparr>) (s1 r))"
    if "matches cfg (word_of_nat (firstCandidate w)) = None" for r
    by (rule set_worker_inv [OF inv t])
      (use s1 w' next_k [OF that] glob in \<open>auto simp: set_worker_def worker_ok_def\<close>)
  show ?thesis
    unfolding loop_body_def Let_def w'_def [symmetric] s1_def [symmetric]
    using stop throw hit miss w'(1) by (auto split: option.split)
qed

lemma search_step_inv:
  assumes "search_inv cfg s" and "search_step cfg s s'"
  shows "search_inv cfg s'"
  using assms(2)
proof (rule search_stepE)
  fix thread stale
  assume s': "s' = worker_turn cfg thread stale s" and t: "thread < length (workers s)"
    and pc: "worker_pc (workers s ! thread) \<noteq> Done"
  have t': "thread < threadCount cfg" using t assms(1) by (simp add: search_inv_def)
  have ok: "worker_ok cfg s thread (workers s ! thread)" using t' assms(1) by (simp add: search_inv_def)
  have glob: "found s \<and> \<not> progressError s \<longrightarrow> thread_match cfg (found_value s)"
    using assms(1) by (simp add: search_inv_def)
  show ?thesis
  proof (cases "worker_pc (workers s ! thread)")
    case Loop
    then show ?thesis
      using ok glob unfolding s' worker_turn_def Let_def
      by (auto intro!: loop_body_inv [OF assms(1) t'] set_worker_inv [OF assms(1) t']
          simp: set_worker_def worker_ok_def)
  next
    case Publish
    then show ?thesis
      using ok unfolding s' worker_turn_def Let_def
      by (auto intro!: set_worker_inv [OF assms(1) t'] simp: set_worker_def worker_ok_def)
  next
    case Done
    then show ?thesis using pc by simp
  qed
qed

lemma search_reach_inv: "search_reach cfg n s \<Longrightarrow> search_inv cfg s"
  by (induction rule: search_reach.induct) (auto intro: search_init_inv search_step_inv)

lemma search_reach_length: "search_reach cfg n s \<Longrightarrow> length (workers s) = threadCount cfg"
  by (drule search_reach_inv) (simp add: search_inv_def)

section \<open>What a joined search says\<close>

lemma joined_found:
  assumes "search_reach cfg n s" and "found s" and "\<not> progressError s"
  shows "thread_match cfg (found_value s)"
  using search_reach_inv [OF assms(1)] assms(2,3) by (simp add: search_inv_def)

lemma thread_match_multiple:
  assumes "thread_match cfg v"
  shows "\<exists>n < ESN_COUNT. batchSize cfg dvd n \<and> matches cfg (word_of_nat n) = Some v"
  using assms by (auto simp: thread_match_def candidate_def)

lemma joined_not_found:
  assumes reach: "search_reach cfg n s" and fin: "all_done s" and nf: "\<not> found s"
    and T: "0 < threadCount cfg" and m: "m < ESN_COUNT" "batchSize cfg dvd m"
  shows "matches cfg (word_of_nat m) = None"
proof -
  obtain q where q: "m = q * batchSize cfg" using m(2) by (metis dvd_def mult.commute)
  define t where "t = q mod threadCount cfg"
  have t: "t < threadCount cfg" using T by (simp add: t_def)
  have "worker_ok cfg s t (workers s ! t)" and "length (workers s) = threadCount cfg"
    using search_reach_inv [OF reach] t by (simp_all add: search_inv_def)
  moreover from this have "worker_pc (workers s ! t) = Done"
    using fin t by (simp add: all_done_def list_all_length)
  ultimately obtain k where k: "ESN_COUNT \<le> candidate cfg t k" "no_match_before cfg t k"
    using nf by (auto simp: worker_ok_def)
  have own: "m = candidate cfg t (q div threadCount cfg)" by (simp add: candidate_def q t_def)
  have "q div threadCount cfg < k"
  proof (rule ccontr)
    assume "\<not> ?thesis"
    then have "candidate cfg t k \<le> m" unfolding own candidate_def by (intro mult_right_mono add_right_mono) auto
    then show False using k(1) m(1) by simp
  qed
  then show ?thesis using k(2) own by (simp add: no_match_before_def)
qed

lemma effectiveThreads_pos: "0 < effectiveThreads hardware requested"
  by (simp add: effectiveThreads_def less_max_iff_disj)

inductive_cases bruteForceEsn_InrE: "bruteForceEsn hardware requested batch callback matcher (Inr r)"

lemma bruteForceEsn_end:
  assumes "bruteForceEsn hardware requested batch callback matcher (Inr (ok, v))"
  obtains (hit) n where "ok" "n < ESN_COUNT" "batch dvd n" "matcher (word_of_nat n) = Some v"
  | (miss) "\<not> ok" "v = 0" "\<And>n. n < ESN_COUNT \<Longrightarrow> batch dvd n \<Longrightarrow> matcher (word_of_nat n) = None"
proof -
  let ?cfg = "\<lparr>threadCount = effectiveThreads hardware requested, batchSize = batch,
      matches = matcher, progress = callback\<rparr>"
  obtain n s where r: "Inr (ok, v) = search_end ?cfg s" and reach: "search_reach ?cfg n s" and fin: "all_done s"
    by (rule bruteForceEsn_InrE [OF assms])
  show thesis
  proof (cases "found s")
    case True
    then have "ok" and v: "v = found_value s" and "\<not> progressError s"
      using r by (auto simp: search_end_def split: if_splits)
    then show thesis
      using thread_match_multiple [OF joined_found [OF reach True]] hit by auto
  next
    case False
    then have "\<not> ok" and "v = 0" using r by (auto simp: search_end_def split: if_splits)
    then show thesis
      using joined_not_found [OF reach fin False] miss by (simp add: effectiveThreads_pos)
  qed
qed

section \<open>The search ends\<close>

definition worker_left :: "worker \<Rightarrow> nat" where
  "worker_left w = (case worker_pc w of Loop \<Rightarrow> 2 + (ESN_COUNT - firstCandidate w) | Publish \<Rightarrow> 1 | Done \<Rightarrow> 0)"

definition turns_left :: "search_state \<Rightarrow> nat" where
  "turns_left s = sum_list (map worker_left (workers s))"

lemma worker_turn_left:
  assumes B: "0 < threadCount cfg * batchSize cfg" and pc: "worker_pc (workers s ! thread) \<noteq> Done"
  obtains w' where "workers (worker_turn cfg thread stale s) = (workers s)[thread := w']"
    "worker_left w' < worker_left (workers s ! thread)"
proof -
  let ?w = "workers s ! thread"
  have less: "\<exists>w'. workers (worker_turn cfg thread stale s) = (workers s)[thread := w'] \<and>
      worker_left w' < worker_left ?w"
  proof (cases "worker_pc ?w")
    case Loop
    show ?thesis
    proof (cases "firstCandidate ?w < ESN_COUNT")
      case True
      have "\<exists>w'. workers (loop_body cfg thread stale ?w s) = (workers s)[thread := w'] \<and>
          (worker_pc w' \<noteq> Loop \<or> worker_pc w' = Loop \<and>
            firstCandidate w' = firstCandidate ?w + threadCount cfg * batchSize cfg)"
        using Loop by (auto simp: loop_body_def Let_def set_worker_def split: option.split)
      then obtain w' where w': "workers (loop_body cfg thread stale ?w s) = (workers s)[thread := w']"
        and "worker_pc w' \<noteq> Loop \<or> worker_pc w' = Loop \<and>
            firstCandidate w' = firstCandidate ?w + threadCount cfg * batchSize cfg" by blast
      then have "worker_left w' < worker_left ?w"
        using True B Loop
        by (auto simp: worker_left_def intro!: diff_less_mono2 split: worker_pc.splits)
      then show ?thesis using w' True Loop by (auto simp: worker_turn_def)
    next
      case False
      then show ?thesis using Loop by (auto simp: worker_turn_def worker_left_def set_worker_def)
    qed
  next
    case Publish
    then show ?thesis by (auto simp: worker_turn_def worker_left_def set_worker_def)
  qed (use pc in simp)
  then show thesis using that by blast
qed

lemma sum_list_update_less:
  fixes f :: "'a \<Rightarrow> nat"
  assumes "i < length xs" and "f y < f (xs ! i)"
  shows "sum_list (map f (xs[i := y])) < sum_list (map f xs)"
  using assms by (induction xs arbitrary: i) (auto split: nat.splits)

lemma turns_left_step:
  assumes B: "0 < threadCount cfg * batchSize cfg" and st: "search_step cfg s s'"
  shows "turns_left s' < turns_left s"
  using st
proof (rule search_stepE)
  fix thread stale
  assume "s' = worker_turn cfg thread stale s" "thread < length (workers s)"
    "worker_pc (workers s ! thread) \<noteq> Done"
  then show ?thesis
    using worker_turn_left [OF B] sum_list_update_less unfolding turns_left_def by metis
qed

lemma turns_left_init: "turns_left (search_init cfg) \<le> threadCount cfg * (2 + ESN_COUNT)"
proof -
  have "turns_left (search_init cfg) =
      (\<Sum>thread\<leftarrow>[0..<threadCount cfg]. 2 + (ESN_COUNT - thread * batchSize cfg))"
    by (simp add: turns_left_def search_init_def worker_left_def comp_def)
  also have "\<dots> \<le> (\<Sum>thread\<leftarrow>[0..<threadCount cfg]. 2 + ESN_COUNT)"
    by (rule sum_list_mono) simp
  finally show ?thesis by (simp add: sum_list_triv)
qed

lemma search_reach_bound:
  assumes B: "0 < threadCount cfg * batchSize cfg" and "search_reach cfg n s"
  shows "n + turns_left s \<le> threadCount cfg * (2 + ESN_COUNT)"
  using assms(2)
proof (induction rule: search_reach.induct)
  case start
  then show ?case using turns_left_init by simp
next
  case (step n s s')
  then show ?case using turns_left_step [OF B step(2)] by linarith
qed

lemma search_step_exists:
  assumes "\<not> all_done s"
  shows "\<exists>s'. search_step cfg s s'"
  using assms unfolding all_done_def list_all_length by (auto intro: search_step.intros)

lemma search_completes:
  assumes B: "0 < threadCount cfg * batchSize cfg" and "search_reach cfg n s"
  shows "\<exists>n' s'. search_reach cfg n' s' \<and> all_done s'"
  using assms(2)
proof (induction "turns_left s" arbitrary: n s rule: less_induct)
  case less
  show ?case
  proof (cases "all_done s")
    case True
    then show ?thesis using less.prems by blast
  next
    case False
    then obtain s' where "search_step cfg s s'" using search_step_exists by blast
    then show ?thesis
      using less.hyps [OF turns_left_step [OF B]] search_reach.step [OF less.prems] by blast
  qed
qed

section \<open>Exceptions of the callback\<close>

definition error_inv :: "search_config \<Rightarrow> search_state \<Rightarrow> bool" where
  "error_inv cfg s \<longleftrightarrow> (progressError s \<longrightarrow> (\<exists>throws percent. progress cfg = Some throws \<and> percent < 100 \<and> throws percent))"

lemma percent_below: "c < ESN_COUNT \<Longrightarrow> c * 100 div ESN_COUNT < 100"
  by (simp add: ESN_COUNT_def less_mult_imp_div_less)

lemma worker_turn_error_inv:
  assumes "error_inv cfg s"
  shows "error_inv cfg (worker_turn cfg thread stale s)"
proof (cases "worker_pc (workers s ! thread) = Loop \<and> firstCandidate (workers s ! thread) < ESN_COUNT")
  case True
  then show ?thesis
    using assms percent_below [of "firstCandidate (workers s ! thread)"]
    by (auto simp: worker_turn_def loop_body_def Let_def error_inv_def set_worker_def split: option.split)
next
  case False
  then show ?thesis
    using assms by (auto simp: worker_turn_def error_inv_def set_worker_def Let_def split: worker_pc.split)
qed

lemma search_init_error_inv: "error_inv cfg (search_init cfg)"
  by (simp add: error_inv_def search_init_def)

lemma search_reach_error_inv: "search_reach cfg n s \<Longrightarrow> error_inv cfg s"
  by (induction rule: search_reach.induct)
    (auto elim!: search_stepE intro: worker_turn_error_inv search_init_error_inv)

section \<open>The contract the recovery methods use\<close>

text \<open>
  \<open>lane_match B P\<close> is a matcher that tries \<open>B\<close> consecutive values and returns the first one that
  satisfies \<open>P\<close>: every batch matcher of the program has this form.
\<close>

definition lane_match :: "nat \<Rightarrow> (u32 \<Rightarrow> bool) \<Rightarrow> u32 \<Rightarrow> u32 option" where
  "lane_match batch P first = List.find P (map (\<lambda>lane. first + word_of_nat lane) [0..<batch])"

lemma lane_match_Some: "lane_match batch P first = Some v \<Longrightarrow> P v"
  by (auto simp: lane_match_def find_Some_iff)

lemma lane_match_None:
  "lane_match batch P first = None \<longleftrightarrow> (\<forall>lane < batch. \<not> P (first + word_of_nat lane))"
  by (auto simp: lane_match_def find_None_iff)

text \<open>Every 32-bit value is a lane of the batch that starts at the multiple of \<open>batch\<close> below it.\<close>

lemma lane_of_value:
  fixes esn :: u32
  assumes "0 < batch"
  obtains n lane where "n < ESN_COUNT" "batch dvd n" "lane < batch" "esn = word_of_nat n + word_of_nat lane"
    "n + lane = unat esn"
proof
  let ?n = "batch * (unat esn div batch)" and ?lane = "unat esn mod batch"
  have whole: "?n + ?lane = unat esn" by simp
  have "unat esn < ESN_COUNT" using unsigned_less [of esn] by (simp add: ESN_COUNT_def)
  then show "?n < ESN_COUNT" using whole by linarith
  show "esn = word_of_nat ?n + word_of_nat ?lane"
    by (simp only: of_nat_add [symmetric] whole) simp
qed (use assms in simp_all)

locale esn_sweep =
  fixes sweep :: "nat \<Rightarrow> (u32 \<Rightarrow> u32 option) \<Rightarrow> unit + bool \<times> u32 \<Rightarrow> bool"
  assumes sweep_hit: "sweep batch m (Inr (True, v)) \<Longrightarrow>
      \<exists>n < ESN_COUNT. batch dvd n \<and> m (word_of_nat n) = Some v"
    and sweep_miss: "sweep batch m (Inr (False, v)) \<Longrightarrow>
      v = 0 \<and> (\<forall>n < ESN_COUNT. batch dvd n \<longrightarrow> m (word_of_nat n) = None)"
begin

lemma lanes_hit: "sweep batch (lane_match batch P) (Inr (True, v)) \<Longrightarrow> P v"
  using sweep_hit lane_match_Some by blast

lemma lanes_miss:
  assumes "0 < batch" and "sweep batch (lane_match batch P) (Inr (False, v))"
  shows "v = 0" and "\<not> P esn"
proof -
  show "v = 0" using sweep_miss [OF assms(2)] by blast
  obtain n lane where "n < ESN_COUNT" "batch dvd n" "lane < batch" "esn = word_of_nat n + word_of_nat lane"
    by (rule lane_of_value [OF assms(1)])
  then show "\<not> P esn" using sweep_miss [OF assms(2)] by (auto simp: lane_match_None)
qed

lemma lanes_found_iff:
  assumes "0 < batch" and "sweep batch (lane_match batch P) (Inr (ok, v))"
  shows "ok \<longleftrightarrow> (\<exists>esn. P esn)"
proof (cases ok)
  case True
  then show ?thesis using lanes_hit [of batch P v] assms(2) by auto
next
  case False
  then show ?thesis using lanes_miss(2) [OF assms(1), of P v] assms(2) by simp
qed

end

lemma bruteForceEsn_hit:
  assumes "bruteForceEsn hardware requested batch callback matcher (Inr (True, v))"
  shows "\<exists>n < ESN_COUNT. batch dvd n \<and> matcher (word_of_nat n) = Some v"
  by (rule bruteForceEsn_end [OF assms]) auto

lemma bruteForceEsn_miss:
  assumes "bruteForceEsn hardware requested batch callback matcher (Inr (False, v))"
  shows "v = 0 \<and> (\<forall>n < ESN_COUNT. batch dvd n \<longrightarrow> matcher (word_of_nat n) = None)"
  by (rule bruteForceEsn_end [OF assms]) auto

lemma bruteForceEsn_lanes_contract:
  "esn_sweep (\<lambda>batch m r. bruteForceEsn hardware requested batch callback m r)"
proof (unfold_locales, goal_cases)
  case (1 batch m v)
  then show ?case using bruteForceEsn_hit by simp
next
  case (2 batch m v)
  then show ?case using bruteForceEsn_miss by simp
qed

interpretation brute: esn_sweep "\<lambda>batch m r. bruteForceEsn hardware requested batch callback m r"
  for hardware requested callback
  by (rule bruteForceEsn_lanes_contract)

section \<open>One thread\<close>

text \<open>A single thread visits the multiples of the batch size in order and stops at the first match.\<close>

lemma bruteForceEsn_single:
  assumes run: "bruteForceEsn hardware requested batch callback matcher (Inr (True, v))"
    and one: "effectiveThreads hardware requested = 1"
  shows "\<exists>n < ESN_COUNT. batch dvd n \<and> matcher (word_of_nat n) = Some v \<and>
    (\<forall>j < n. batch dvd j \<longrightarrow> matcher (word_of_nat j) = None)"
proof -
  let ?cfg = "\<lparr>threadCount = 1, batchSize = batch, matches = matcher, progress = callback\<rparr>"
  obtain n s where r: "Inr (True, v) = search_end ?cfg s" and reach: "search_reach ?cfg n s"
    by (rule bruteForceEsn_InrE [OF run]) (use one in simp)
  then have "found s" "\<not> progressError s" "v = found_value s"
    by (auto simp: search_end_def split: if_splits)
  then obtain k where k: "k * batch < ESN_COUNT" "matcher (word_of_nat (k * batch)) = Some v"
      and before: "\<forall>j < k. matcher (word_of_nat (j * batch)) = None"
    using joined_found [OF reach] by (auto simp: thread_match_def no_match_before_def candidate_def)
  have "matcher (word_of_nat j) = None" if "j < k * batch" "batch dvd j" for j
  proof -
    obtain q where q: "j = q * batch" using \<open>batch dvd j\<close> by (metis dvd_def mult.commute)
    then have "q < k" using \<open>j < k * batch\<close> by simp
    then show ?thesis using before q by simp
  qed
  then show ?thesis using k by (intro exI [of _ "k * batch"]) auto
qed

lemma lane_match_first:
  assumes "lane_match batch P first = Some v"
  obtains lane where "lane < batch" "v = first + word_of_nat lane" "\<forall>j < lane. \<not> P (first + word_of_nat j)"
  using assms by (auto simp: lane_match_def find_Some_iff)

lemma bruteForceEsn_single_least:
  assumes run: "bruteForceEsn hardware requested batch callback (lane_match batch P) (Inr (True, v))"
    and one: "effectiveThreads hardware requested = 1" and B: "0 < batch" and P: "P esn"
  shows "v \<le> esn"
proof -
  obtain n where n: "n < ESN_COUNT" "batch dvd n" and m: "lane_match batch P (word_of_nat n) = Some v"
    and before: "\<And>j. j < n \<Longrightarrow> batch dvd j \<Longrightarrow> lane_match batch P (word_of_nat j) = None"
    using bruteForceEsn_single [OF run one] by blast
  obtain lane where lane: "lane < batch" "v = word_of_nat n + word_of_nat lane"
    and lanes: "\<forall>j < lane. \<not> P (word_of_nat n + word_of_nat j)"
    by (rule lane_match_first [OF m])
  obtain n' lane' where e: "n' < ESN_COUNT" "batch dvd n'" "lane' < batch"
    "esn = word_of_nat n' + word_of_nat lane'" "n' + lane' = unat esn"
    by (rule lane_of_value [OF B])
  have "n \<le> n'"
    using before [of n'] e P by (auto simp: lane_match_None not_le [symmetric])
  moreover have "\<not> (n = n' \<and> lane' < lane)" using lanes e(4) P by auto
  ultimately have le: "n + lane \<le> n' + lane'"
  proof (cases "n = n'")
    case False
    with \<open>n \<le> n'\<close> have "n + batch \<le> n'"
      using n(2) e(2) by (metis add.commute dvd_diff_nat dvd_imp_le le_diff_conv2 le_neq_implies_less zero_less_diff)
    then show ?thesis using lane(1) by simp
  qed simp
  have "unat v = n + lane"
  proof -
    have "unat esn < 2 ^ 32" using unsigned_less [of esn] by simp
    then have "n + lane < 2 ^ 32" using le e(5) by simp
    then show ?thesis unfolding lane(2) of_nat_add [symmetric]
      by (intro unat_word_of_nat_small) simp
  qed
  then show ?thesis using le e(5) by (simp add: word_le_nat_alt)
qed

section \<open>Every call returns\<close>

lemma bruteForceEsn_returns:
  assumes "0 < batch"
  shows "\<exists>r. bruteForceEsn hardware requested batch callback matcher r"
proof (cases "\<exists>throws. callback = Some throws \<and> throws 0")
  case True
  then show ?thesis by (blast intro: bruteForceEsn.first_report)
next
  case False
  let ?cfg = "\<lparr>threadCount = effectiveThreads hardware requested, batchSize = batch,
      matches = matcher, progress = callback\<rparr>"
  have "0 < threadCount ?cfg * batchSize ?cfg" using assms effectiveThreads_pos by simp
  then obtain n s where "search_reach ?cfg n s" "all_done s"
    using search_completes search_reach.start by blast
  then show ?thesis using bruteForceEsn.joined [OF False] by blast
qed

lemma bruteForceEsn_throws:
  assumes "bruteForceEsn hardware requested batch callback matcher (Inl ())"
  shows "\<exists>throws percent. callback = Some throws \<and> percent \<le> 100 \<and> throws percent"
  using assms
proof (cases rule: bruteForceEsn.cases)
  case (joined cfg n s)
  show ?thesis
  proof (cases "progressError s")
    case True
    then show ?thesis
      using search_reach_error_inv [OF joined(4)] joined(3) less_imp_le
      unfolding error_inv_def by fastforce
  next
    case False
    then have "progress cfg \<noteq> None \<and> the (progress cfg) 100"
      using joined(1) by (simp add: search_end_def split: if_splits)
    then show ?thesis using joined(3) by auto
  qed
qed auto

text \<open>The sequential scan that a single thread amounts to.\<close>

definition candidate_count :: "nat \<Rightarrow> nat" where
  "candidate_count batch = (ESN_COUNT + batch - 1) div batch"

definition sequential_sweep :: "nat \<Rightarrow> (u32 \<Rightarrow> u32 option) \<Rightarrow> unit + bool \<times> u32" where
  "sequential_sweep batch matcher =
     (case List.find (\<lambda>k. matcher (word_of_nat (k * batch)) \<noteq> None) [0..<candidate_count batch] of
        Some k \<Rightarrow> Inr (True, the (matcher (word_of_nat (k * batch))))
      | None \<Rightarrow> Inr (False, 0))"

lemma batch_index: "0 < batch \<Longrightarrow> k < candidate_count batch \<longleftrightarrow> k * batch < ESN_COUNT"
  by (simp add: candidate_count_def less_eq_div_iff_mult_less_eq Suc_le_eq [symmetric] del: Suc_le_eq) arith

lemma bruteForceEsn_sequential:
  assumes run: "bruteForceEsn hardware requested batch callback matcher (Inr r)"
    and one: "effectiveThreads hardware requested = 1" and B: "0 < batch"
  shows "sequential_sweep batch matcher = Inr r"
proof -
  obtain ok v where r: "r = (ok, v)" by (cases r)
  show ?thesis
  proof (cases ok)
    case True
    then have "bruteForceEsn hardware requested batch callback matcher (Inr (True, v))" using run r by simp
    then obtain n where n: "n < ESN_COUNT" "batch dvd n" "matcher (word_of_nat n) = Some v"
      "\<forall>j < n. batch dvd j \<longrightarrow> matcher (word_of_nat j) = None"
      using bruteForceEsn_single [OF _ one] by blast
    obtain q where q: "n = q * batch" using n(2) by (metis dvd_def mult.commute)
    have "List.find (\<lambda>k. matcher (word_of_nat (k * batch)) \<noteq> None) [0..<candidate_count batch] = Some q"
      unfolding find_Some_iff using n B q batch_index [OF B, of q]
      by (intro exI [of _ q]) (simp del: of_nat_mult)
    then show ?thesis using n(3) True by (simp add: sequential_sweep_def r q)
  next
    case False
    then have "v = 0" and none: "\<And>n. n < ESN_COUNT \<Longrightarrow> batch dvd n \<Longrightarrow> matcher (word_of_nat n) = None"
      using bruteForceEsn_miss [of hardware requested batch callback matcher v] run r by auto
    have "List.find (\<lambda>k. matcher (word_of_nat (k * batch)) \<noteq> None) [0..<candidate_count batch] = None"
      unfolding find_None_iff using none B by (auto simp: batch_index simp del: of_nat_mult)
    then show ?thesis using False \<open>v = 0\<close> by (simp add: sequential_sweep_def r)
  qed
qed

lemma sequential_sweep_runs:
  assumes "0 < batch" and "effectiveThreads hardware requested = 1"
  shows "bruteForceEsn hardware requested batch None matcher (sequential_sweep batch matcher)"
proof -
  obtain a where a: "bruteForceEsn hardware requested batch None matcher a"
    using bruteForceEsn_returns [OF assms(1)] by blast
  then obtain r where r: "a = Inr r" using bruteForceEsn_throws by (cases a) force+
  then show ?thesis using a bruteForceEsn_sequential [OF _ assms(2,1)] by simp
qed

section \<open>Properties\<close>

text \<open>
  A run of two turns, for the witnesses: one thread, a matcher that accepts the first candidate.
\<close>

lemma sample_search:
  "bruteForceEsn 4 1 8 None (lane_match 8 (\<lambda>esn. esn = 5)) (Inr (True, 5))"
proof -
  let ?cfg = "\<lparr>threadCount = effectiveThreads 4 1, batchSize = 8,
      matches = lane_match 8 (\<lambda>esn. esn = (5 :: u32)), progress = None\<rparr>"
  let ?s1 = "worker_turn ?cfg 0 False (search_init ?cfg)"
  let ?s2 = "worker_turn ?cfg 0 False ?s1"
  have T: "effectiveThreads 4 (Suc 0) = Suc 0" by (simp add: effectiveThreads_def)
  have m: "lane_match 8 (\<lambda>esn. esn = (5 :: u32)) 0 = Some 5"
    by (simp add: lane_match_def upt_rec)
  have init: "search_init ?cfg = \<lparr>found = False, found_value = 0, progressError = False, reportedPercent = 0,
      workers = [\<lparr>worker_pc = Loop, firstCandidate = 0, ticks = 0\<rparr>]\<rparr>"
    by (simp add: search_init_def T)
  have s1: "?s1 = \<lparr>found = False, found_value = 5, progressError = False, reportedPercent = 0,
      workers = [\<lparr>worker_pc = Publish, firstCandidate = 0, ticks = 1\<rparr>]\<rparr>"
    unfolding init by (simp add: worker_turn_def loop_body_def ESN_COUNT_def PROGRESS_INTERVAL_def m
        set_worker_def Let_def)
  have s2: "?s2 = \<lparr>found = True, found_value = 5, progressError = False, reportedPercent = 0,
      workers = [\<lparr>worker_pc = Done, firstCandidate = 0, ticks = 1\<rparr>]\<rparr>"
    unfolding s1 by (simp add: worker_turn_def set_worker_def)
  have st1: "search_step ?cfg (search_init ?cfg) ?s1" by (rule search_step.turn; unfold init; simp)
  have st2: "search_step ?cfg ?s1 ?s2" by (rule search_step.turn; unfold s1; simp)
  have "search_reach ?cfg (Suc (Suc 0)) ?s2"
    by (rule search_reach.step [OF search_reach.step [OF search_reach.start st1] st2])
  moreover have "all_done ?s2" unfolding s2 by (simp add: all_done_def)
  moreover have "search_end ?cfg ?s2 = Inr (True, 5)" unfolding s2 by (simp add: search_end_def)
  ultimately show ?thesis using bruteForceEsn.joined [of None ?cfg 4 1 8 _ "Suc (Suc 0)" ?s2] by simp
qed

text \<open>C6. The ESN sweep is sound and complete under every interleaving of its threads and every
  outdated read of the stop flag.  When the joined search reports success, the value it returns is
  what the matcher returned for a multiple of the batch size below 2^32; when it reports failure,
  it returns zero and the matcher rejects every such multiple.
\<close>

theorem search_answer:
  assumes "bruteForceEsn hardware requested batch callback matcher (Inr (ok, v))"
  shows "(if ok then \<exists>n < ESN_COUNT. batch dvd n \<and> matcher (word_of_nat n) = Some v
    else v = 0 \<and> (\<forall>n < ESN_COUNT. batch dvd n \<longrightarrow> matcher (word_of_nat n) = None))"
  using assms brute.sweep_hit brute.sweep_miss by (cases ok) auto

theorem search_answer_witness:
  "\<exists>n < ESN_COUNT. 8 dvd n \<and> lane_match 8 (\<lambda>esn. esn = 5) (word_of_nat n) = Some (5 :: u32)"
  using search_answer [OF sample_search] by simp

text \<open>A batch matcher that tries its lanes in order turns the sweep into a decision over the whole
  32-bit space: the search succeeds exactly when some ESN satisfies the predicate of the lanes, and
  then it returns one that does.
\<close>

theorem search_decides:
  assumes "0 < batch"
    and "bruteForceEsn hardware requested batch callback (lane_match batch P) (Inr (ok, v))"
  shows "(ok \<longleftrightarrow> (\<exists>esn. P esn)) \<and> (ok \<longrightarrow> P v)"
  using brute.lanes_found_iff [OF assms] brute.lanes_hit assms(2) by (cases ok) auto

theorem search_decides_witness:
  "bruteForceEsn 4 1 8 None (lane_match 8 (\<lambda>esn. esn = 5)) (Inr (True, 5)) \<and>
    (\<exists>esn :: u32. esn = 5) \<and> (5 :: u32) = 5"
  using sample_search search_decides [OF _ sample_search] by simp

text \<open>With a single thread the search is the sequential scan of the multiples of the batch size,
  whatever the callback is as long as it does not throw; with a batch matcher it returns the least
  ESN that satisfies the predicate.
\<close>

theorem search_single_thread:
  assumes "bruteForceEsn hardware requested batch callback (lane_match batch P) (Inr (ok, v))"
    and "effectiveThreads hardware requested = 1" and "0 < batch"
  shows "sequential_sweep batch (lane_match batch P) = Inr (ok, v) \<and> (ok \<longrightarrow> P v \<and> (\<forall>esn. P esn \<longrightarrow> v \<le> esn))"
  using bruteForceEsn_sequential [OF assms] bruteForceEsn_single_least [OF _ assms(2,3)] brute.lanes_hit assms(1)
  by (cases ok) auto

theorem search_single_thread_witness:
  "sequential_sweep 8 (lane_match 8 (\<lambda>esn. esn = 5)) = Inr (True, 5)"
  using search_single_thread [OF sample_search] by (simp add: effectiveThreads_def)

text \<open>C13. The search ends under every schedule: \<open>T\<close> threads take at most \<open>T * (2^32 + 2)\<close> turns, a
  state in which some worker is not done always has a next turn, so that every call returns.
\<close>

theorem search_terminates:
  assumes "0 < batch" and "cfg = \<lparr>threadCount = effectiveThreads hardware requested, batchSize = batch,
      matches = matcher, progress = callback\<rparr>"
  shows "(search_reach cfg n s \<longrightarrow> n \<le> threadCount cfg * (ESN_COUNT + 2) \<and>
      (all_done s \<or> (\<exists>s'. search_step cfg s s'))) \<and>
    (\<exists>r. bruteForceEsn hardware requested batch callback matcher r)"
proof -
  have pos: "0 < threadCount cfg * batchSize cfg" using assms effectiveThreads_pos by simp
  have "n \<le> threadCount cfg * (ESN_COUNT + 2)" if "search_reach cfg n s"
    using search_reach_bound [OF pos that] by (simp add: add.commute)
  then show ?thesis using search_step_exists bruteForceEsn_returns [OF assms(1)] by blast
qed

theorem search_terminates_witness:
  "\<exists>r. bruteForceEsn 4 0 8 None (lane_match 8 (\<lambda>esn. esn = 7)) r"
  using search_terminates [OF _ refl, of 8] by simp

text \<open>An exception leaves the search only when the progress callback throws it, for a percentage
  of at most 100; a search without a callback never throws.
\<close>

theorem search_exception:
  assumes "bruteForceEsn hardware requested batch callback matcher (Inl ())"
  shows "\<exists>throws percent. callback = Some throws \<and> percent \<le> 100 \<and> throws percent"
  by (rule bruteForceEsn_throws [OF assms])

theorem search_exception_witness: "\<exists>throws percent. Some (\<lambda>p :: nat. p = 0) = Some throws \<and> percent \<le> 100 \<and> throws percent"
  by (rule search_exception [of 4 1 8 _ "\<lambda>esn. None"]) (rule bruteForceEsn.first_report [OF refl], simp)

end
