(* ===== verification/Binary.thy ===== *)
theory Binary
  imports Prelude
begin

text \<open>
  The byte-order helpers of src/utils/binary.h.  The templates \<open>readUnsignedLE<T>\<close> and
  \<open>writeUnsignedLE<T>\<close> are generic in the word type here as they are in C++; \<open>sizeofT\<close> is
  \<open>sizeof(T)\<close>.  The byte loops are folds over the index.  The lemmas show that reading back a
  written value returns it, that a write changes only its own bytes, and that a read depends only
  on its own bytes, for both byte orders and every width; the locale \<open>byte_codec\<close> is the
  interface the other components use.
\<close>

section \<open>Definitions\<close>

definition isErasedData :: "u8 list \<Rightarrow> nat \<Rightarrow> nat \<Rightarrow> bool" where
  "isErasedData data off sz \<longleftrightarrow> sz \<noteq> 0 \<and> list_all (\<lambda>v. v = 0xFF) (chunk data off sz)"

definition sizeofT :: "'a::len itself \<Rightarrow> nat" where
  "sizeofT t = LENGTH('a) div 8"

definition readUnsignedLE :: "u8 list \<Rightarrow> nat \<Rightarrow> 'a::len word" where
  "readUnsignedLE data off =
     fold (\<lambda>index value. value OR push_bit (index * 8) (ucast (data ! (off + index))))
       [0..<sizeofT TYPE('a)] 0"

definition readUnsignedBE :: "u8 list \<Rightarrow> nat \<Rightarrow> 'a::len word" where
  "readUnsignedBE data off =
     fold (\<lambda>index value. value OR
         push_bit ((sizeofT TYPE('a) - index - 1) * 8) (ucast (data ! (off + index))))
       [0..<sizeofT TYPE('a)] 0"

definition writeUnsignedLE :: "u8 list \<Rightarrow> nat \<Rightarrow> 'a::len word \<Rightarrow> u8 list" where
  "writeUnsignedLE data off value =
     fold (\<lambda>index d. d[off + index := ucast (drop_bit (index * 8) value)])
       [0..<sizeofT TYPE('a)] data"

definition writeUnsignedBE :: "u8 list \<Rightarrow> nat \<Rightarrow> 'a::len word \<Rightarrow> u8 list" where
  "writeUnsignedBE data off value =
     fold (\<lambda>index d. d[off + index :=
         ucast (drop_bit ((sizeofT TYPE('a) - index - 1) * 8) value)])
       [0..<sizeofT TYPE('a)] data"

definition readUInt8 :: "u8 list \<Rightarrow> nat \<Rightarrow> u8" where
  "readUInt8 data off = data ! off"

definition readInt8 :: "u8 list \<Rightarrow> nat \<Rightarrow> int" where
  "readInt8 data off = sint (readUInt8 data off)"

definition readUInt16LE :: "u8 list \<Rightarrow> nat \<Rightarrow> u16" where
  "readUInt16LE data off = readUnsignedLE data off"

definition readUInt16BE :: "u8 list \<Rightarrow> nat \<Rightarrow> u16" where
  "readUInt16BE data off = readUnsignedBE data off"

definition readInt16LE :: "u8 list \<Rightarrow> nat \<Rightarrow> int" where
  "readInt16LE data off = sint (readUInt16LE data off)"

definition readInt16BE :: "u8 list \<Rightarrow> nat \<Rightarrow> int" where
  "readInt16BE data off = sint (readUInt16BE data off)"

definition readUInt32LE :: "u8 list \<Rightarrow> nat \<Rightarrow> u32" where
  "readUInt32LE data off = readUnsignedLE data off"

definition readUInt32BE :: "u8 list \<Rightarrow> nat \<Rightarrow> u32" where
  "readUInt32BE data off = readUnsignedBE data off"

definition readInt32LE :: "u8 list \<Rightarrow> nat \<Rightarrow> int" where
  "readInt32LE data off = sint (readUInt32LE data off)"

definition readInt32BE :: "u8 list \<Rightarrow> nat \<Rightarrow> int" where
  "readInt32BE data off = sint (readUInt32BE data off)"

definition readUInt64LE :: "u8 list \<Rightarrow> nat \<Rightarrow> u64" where
  "readUInt64LE data off = readUnsignedLE data off"

definition readUInt64BE :: "u8 list \<Rightarrow> nat \<Rightarrow> u64" where
  "readUInt64BE data off = readUnsignedBE data off"

definition readInt64LE :: "u8 list \<Rightarrow> nat \<Rightarrow> int" where
  "readInt64LE data off = sint (readUInt64LE data off)"

definition readInt64BE :: "u8 list \<Rightarrow> nat \<Rightarrow> int" where
  "readInt64BE data off = sint (readUInt64BE data off)"

definition writeUInt8 :: "u8 list \<Rightarrow> nat \<Rightarrow> u8 \<Rightarrow> u8 list" where
  "writeUInt8 data off value = data[off := value]"

definition writeInt8 :: "u8 list \<Rightarrow> nat \<Rightarrow> int \<Rightarrow> u8 list" where
  "writeInt8 data off value = writeUInt8 data off (word_of_int value)"

definition writeUInt16LE :: "u8 list \<Rightarrow> nat \<Rightarrow> u16 \<Rightarrow> u8 list" where
  "writeUInt16LE data off value = writeUnsignedLE data off value"

definition writeUInt16BE :: "u8 list \<Rightarrow> nat \<Rightarrow> u16 \<Rightarrow> u8 list" where
  "writeUInt16BE data off value = writeUnsignedBE data off value"

definition writeInt16LE :: "u8 list \<Rightarrow> nat \<Rightarrow> int \<Rightarrow> u8 list" where
  "writeInt16LE data off value = writeUInt16LE data off (word_of_int value)"

definition writeInt16BE :: "u8 list \<Rightarrow> nat \<Rightarrow> int \<Rightarrow> u8 list" where
  "writeInt16BE data off value = writeUInt16BE data off (word_of_int value)"

definition writeUInt32LE :: "u8 list \<Rightarrow> nat \<Rightarrow> u32 \<Rightarrow> u8 list" where
  "writeUInt32LE data off value = writeUnsignedLE data off value"

definition writeUInt32BE :: "u8 list \<Rightarrow> nat \<Rightarrow> u32 \<Rightarrow> u8 list" where
  "writeUInt32BE data off value = writeUnsignedBE data off value"

definition writeInt32LE :: "u8 list \<Rightarrow> nat \<Rightarrow> int \<Rightarrow> u8 list" where
  "writeInt32LE data off value = writeUInt32LE data off (word_of_int value)"

definition writeInt32BE :: "u8 list \<Rightarrow> nat \<Rightarrow> int \<Rightarrow> u8 list" where
  "writeInt32BE data off value = writeUInt32BE data off (word_of_int value)"

definition writeUInt64LE :: "u8 list \<Rightarrow> nat \<Rightarrow> u64 \<Rightarrow> u8 list" where
  "writeUInt64LE data off value = writeUnsignedLE data off value"

definition writeUInt64BE :: "u8 list \<Rightarrow> nat \<Rightarrow> u64 \<Rightarrow> u8 list" where
  "writeUInt64BE data off value = writeUnsignedBE data off value"

definition writeInt64LE :: "u8 list \<Rightarrow> nat \<Rightarrow> int \<Rightarrow> u8 list" where
  "writeInt64LE data off value = writeUInt64LE data off (word_of_int value)"

definition writeInt64BE :: "u8 list \<Rightarrow> nat \<Rightarrow> int \<Rightarrow> u8 list" where
  "writeInt64BE data off value = writeUInt64BE data off (word_of_int value)"

text \<open>
  \<open>float\<close> and \<open>double\<close> are known here only by their object representation, which is all that
  \<open>std::bit_cast\<close> moves: the constructors are the casts from the integer of the same width.
\<close>

datatype float32 = Float32 (float_bits: u32)

datatype float64 = Float64 (double_bits: u64)

definition readFloatLE :: "u8 list \<Rightarrow> nat \<Rightarrow> float32" where
  "readFloatLE data off = Float32 (readUInt32LE data off)"

definition readFloatBE :: "u8 list \<Rightarrow> nat \<Rightarrow> float32" where
  "readFloatBE data off = Float32 (readUInt32BE data off)"

definition readDoubleLE :: "u8 list \<Rightarrow> nat \<Rightarrow> float64" where
  "readDoubleLE data off = Float64 (readUInt64LE data off)"

definition readDoubleBE :: "u8 list \<Rightarrow> nat \<Rightarrow> float64" where
  "readDoubleBE data off = Float64 (readUInt64BE data off)"

definition writeFloatLE :: "u8 list \<Rightarrow> nat \<Rightarrow> float32 \<Rightarrow> u8 list" where
  "writeFloatLE data off value = writeUInt32LE data off (float_bits value)"

definition writeFloatBE :: "u8 list \<Rightarrow> nat \<Rightarrow> float32 \<Rightarrow> u8 list" where
  "writeFloatBE data off value = writeUInt32BE data off (float_bits value)"

definition writeDoubleLE :: "u8 list \<Rightarrow> nat \<Rightarrow> float64 \<Rightarrow> u8 list" where
  "writeDoubleLE data off value = writeUInt64LE data off (double_bits value)"

definition writeDoubleBE :: "u8 list \<Rightarrow> nat \<Rightarrow> float64 \<Rightarrow> u8 list" where
  "writeDoubleBE data off value = writeUInt64BE data off (double_bits value)"

section \<open>The byte loops\<close>

text \<open>
  Both byte orders are the same loop with a different position function \<open>p\<close>: byte \<open>i\<close> of
  memory holds bits \<open>8 * p i\<close> and up.
\<close>

lemma bit_push_byte:
  fixes b :: u8
  shows "bit (push_bit (m * 8) (ucast b) :: 'a::len word) k \<longleftrightarrow>
    k < LENGTH('a) \<and> m = k div 8 \<and> bit b (k mod 8)"
proof (cases "m = k div 8")
  case True
  then have "m * 8 \<le> k" and "k - m * 8 = k mod 8"
    by (auto simp: minus_mult_div_eq_mod [symmetric])
  then show ?thesis
    using True by (auto simp: bit_push_bit_iff bit_ucast_iff)
next
  case False
  have "\<not> (m * 8 \<le> k \<and> k - m * 8 < 8)" using False by auto
  then show ?thesis
    using False by (auto simp: bit_push_bit_iff bit_ucast_iff dest: bit_imp_le_length)
qed

lemma bit_read_loop:
  "bit (fold (\<lambda>i v. v OR push_bit (p i * 8) (ucast (d ! (off + i) :: u8))) [0..<n] (0 :: 'a::len word)) k
   \<longleftrightarrow> (\<exists>i<n. p i = k div 8 \<and> k < LENGTH('a) \<and> bit (d ! (off + i)) (k mod 8))"
  by (induction n) (auto simp: bit_or_iff bit_push_byte less_Suc_eq)

lemma length_write_loop:
  "length (fold (\<lambda>i d. d[off + i := f i]) [0..<n] d) = length d"
  by (induction n) auto

lemma nth_write_loop:
  assumes "off + n \<le> length d"
  shows "fold (\<lambda>i d. d[off + i := f i]) [0..<n] d ! j =
    (if off \<le> j \<and> j < off + n then f (j - off) else d ! j)"
  using assms
proof (induction n)
  case 0
  then show ?case by auto
next
  case (Suc n)
  then show ?case
    by (cases "j = off + n") (auto simp: length_write_loop)
qed

lemma write_loop_frame:
  "j < off \<or> off + n \<le> j \<Longrightarrow> fold (\<lambda>i d. d[off + i := f i]) [0..<n] d ! j = d ! j"
  by (induction n) auto

lemma bit_drop_byte:
  fixes v :: "'a::len word"
  shows "bit (ucast (drop_bit (m * 8) v) :: u8) (k mod 8) \<longleftrightarrow> bit v (m * 8 + k mod 8)"
  by (auto simp: bit_ucast_iff bit_drop_bit_eq dest: bit_imp_le_length)

section \<open>Both byte orders\<close>

lemma bit_readUnsignedLE:
  "bit (readUnsignedLE d off :: 'a::len word) k \<longleftrightarrow>
    k < LENGTH('a) \<and> k div 8 < sizeofT TYPE('a) \<and> bit (d ! (off + k div 8)) (k mod 8)"
  unfolding readUnsignedLE_def by (auto simp: bit_read_loop)

lemma bit_readUnsignedBE:
  "bit (readUnsignedBE d off :: 'a::len word) k \<longleftrightarrow>
    k < LENGTH('a) \<and> k div 8 < sizeofT TYPE('a) \<and>
    bit (d ! (off + (sizeofT TYPE('a) - k div 8 - 1))) (k mod 8)"
proof -
  have "(\<exists>i < sizeofT TYPE('a). sizeofT TYPE('a) - i - 1 = k div 8 \<and> P i) \<longleftrightarrow>
      k div 8 < sizeofT TYPE('a) \<and> P (sizeofT TYPE('a) - k div 8 - 1)" for P
  proof
    assume "\<exists>i < sizeofT TYPE('a). sizeofT TYPE('a) - i - 1 = k div 8 \<and> P i"
    then obtain i where i: "i < sizeofT TYPE('a)" "sizeofT TYPE('a) - i - 1 = k div 8" "P i"
      by blast
    then have "i = sizeofT TYPE('a) - k div 8 - 1" by linarith
    with i show "k div 8 < sizeofT TYPE('a) \<and> P (sizeofT TYPE('a) - k div 8 - 1)" by simp
  next
    assume "k div 8 < sizeofT TYPE('a) \<and> P (sizeofT TYPE('a) - k div 8 - 1)"
    then show "\<exists>i < sizeofT TYPE('a). sizeofT TYPE('a) - i - 1 = k div 8 \<and> P i"
      by (intro exI [of _ "sizeofT TYPE('a) - k div 8 - 1"]) auto
  qed
  then show ?thesis
    unfolding readUnsignedBE_def by (simp only: bit_read_loop) blast
qed

lemma length_writeUnsignedLE [simp, length_facts]: "length (writeUnsignedLE d off v) = length d"
  by (simp add: writeUnsignedLE_def length_write_loop)

lemma length_writeUnsignedBE [simp, length_facts]: "length (writeUnsignedBE d off v) = length d"
  by (simp add: writeUnsignedBE_def length_write_loop)

lemma writeUnsignedLE_frame [frame_facts]:
  fixes v :: "'a::len word"
  shows "j < off \<or> off + sizeofT TYPE('a) \<le> j \<Longrightarrow> writeUnsignedLE d off v ! j = d ! j"
  by (simp add: writeUnsignedLE_def write_loop_frame)

lemma writeUnsignedBE_frame [frame_facts]:
  fixes v :: "'a::len word"
  shows "j < off \<or> off + sizeofT TYPE('a) \<le> j \<Longrightarrow> writeUnsignedBE d off v ! j = d ! j"
  by (simp add: writeUnsignedBE_def write_loop_frame)

lemma nth_writeUnsignedLE:
  fixes v :: "'a::len word"
  assumes "off + sizeofT TYPE('a) \<le> length d" and "i < sizeofT TYPE('a)"
  shows "writeUnsignedLE d off v ! (off + i) = ucast (drop_bit (i * 8) v)"
  using assms by (simp add: writeUnsignedLE_def nth_write_loop)

lemma nth_writeUnsignedBE:
  fixes v :: "'a::len word"
  assumes "off + sizeofT TYPE('a) \<le> length d" and "i < sizeofT TYPE('a)"
  shows "writeUnsignedBE d off v ! (off + i) =
    ucast (drop_bit ((sizeofT TYPE('a) - i - 1) * 8) v)"
  using assms by (simp add: writeUnsignedBE_def nth_write_loop)

text \<open>
  A word type of a whole number of bytes: 16, 32 and 64 bits are the instances of the code.
\<close>

definition whole_bytes :: "'a::len itself \<Rightarrow> bool" where
  "whole_bytes t \<longleftrightarrow> LENGTH('a) = 8 * sizeofT t"

lemma whole_bytes_instances [simp]:
  "whole_bytes TYPE(8)" "whole_bytes TYPE(16)" "whole_bytes TYPE(32)" "whole_bytes TYPE(64)"
  by (simp_all add: whole_bytes_def sizeofT_def)

lemma sizeofT_instances [simp]:
  "sizeofT TYPE(8) = 1" "sizeofT TYPE(16) = 2" "sizeofT TYPE(32) = 4" "sizeofT TYPE(64) = 8"
  by (simp_all add: sizeofT_def)

lemma whole_bytes_div:
  assumes "whole_bytes TYPE('a::len)" and "k < LENGTH('a)"
  shows "k div 8 < sizeofT TYPE('a)"
  using assms by (auto simp: whole_bytes_def)

lemma read_write_UnsignedLE:
  fixes v :: "'a::len word"
  assumes wb: "whole_bytes TYPE('a)" and len: "off + sizeofT TYPE('a) \<le> length d"
  shows "readUnsignedLE (writeUnsignedLE d off v) off = v"
proof (rule bit_word_eqI)
  fix k assume k: "k < LENGTH('a)"
  have i: "k div 8 < sizeofT TYPE('a)" using whole_bytes_div [OF wb k] .
  have "k div 8 * 8 + k mod 8 = k" by simp
  then show "bit (readUnsignedLE (writeUnsignedLE d off v) off :: 'a word) k = bit v k"
    using k i nth_writeUnsignedLE [OF len i, of v] by (simp add: bit_readUnsignedLE bit_drop_byte)
qed

lemma read_write_UnsignedBE:
  fixes v :: "'a::len word"
  assumes wb: "whole_bytes TYPE('a)" and len: "off + sizeofT TYPE('a) \<le> length d"
  shows "readUnsignedBE (writeUnsignedBE d off v) off = v"
proof (rule bit_word_eqI)
  fix k assume k: "k < LENGTH('a)"
  let ?n = "sizeofT TYPE('a)"
  have i: "k div 8 < ?n" using whole_bytes_div [OF wb k] .
  then have j: "?n - k div 8 - 1 < ?n" and p: "?n - (?n - k div 8 - 1) - 1 = k div 8" by simp_all
  have byte: "writeUnsignedBE d off v ! (off + (?n - k div 8 - 1)) = ucast (drop_bit (k div 8 * 8) v)"
    using nth_writeUnsignedBE [OF len j, of v] by (simp only: p)
  have "bit (readUnsignedBE (writeUnsignedBE d off v) off :: 'a word) k =
      bit (ucast (drop_bit (k div 8 * 8) v) :: u8) (k mod 8)"
    using k i by (simp only: bit_readUnsignedBE byte simp_thms)
  then show "bit (readUnsignedBE (writeUnsignedBE d off v) off :: 'a word) k = bit v k"
    by (simp add: bit_drop_byte)
qed

lemma write_read_UnsignedLE:
  fixes off :: nat
  assumes wb: "whole_bytes TYPE('a::len)" and len: "off + sizeofT TYPE('a) \<le> length d"
  shows "writeUnsignedLE d off (readUnsignedLE d off :: 'a word) = d"
proof (rule nth_equalityI)
  show "length (writeUnsignedLE d off (readUnsignedLE d off :: 'a word)) = length d" by simp
  fix j assume "j < length (writeUnsignedLE d off (readUnsignedLE d off :: 'a word))"
  show "writeUnsignedLE d off (readUnsignedLE d off :: 'a word) ! j = d ! j"
  proof (cases "off \<le> j \<and> j < off + sizeofT TYPE('a)")
    case False
    then show ?thesis by (auto intro: writeUnsignedLE_frame)
  next
    case True
    then obtain i where j: "j = off + i" and i: "i < sizeofT TYPE('a)"
      by (auto simp: le_iff_add)
    have "ucast (drop_bit (i * 8) (readUnsignedLE d off :: 'a word)) = d ! (off + i)"
    proof (rule bit_word_eqI)
      fix k assume k: "k < LENGTH(8)"
      then have "(i * 8 + k) div 8 = i" and "(i * 8 + k) mod 8 = k" by simp_all
      moreover have "i * 8 + k < LENGTH('a)" using wb i k by (simp add: whole_bytes_def)
      ultimately show "bit (ucast (drop_bit (i * 8) (readUnsignedLE d off :: 'a word)) :: u8) k
          = bit (d ! (off + i)) k"
        using k i by (simp add: bit_ucast_iff bit_drop_bit_eq bit_readUnsignedLE)
    qed
    then show ?thesis using nth_writeUnsignedLE [OF len i] j by simp
  qed
qed

lemma nth_byte_readUnsignedBE:
  assumes wb: "whole_bytes TYPE('a::len)" and i: "i < sizeofT TYPE('a)"
  shows "ucast (drop_bit ((sizeofT TYPE('a) - i - 1) * 8) (readUnsignedBE d off :: 'a word)) = d ! (off + i)"
proof (rule bit_word_eqI)
  let ?m = "sizeofT TYPE('a) - i - 1"
  fix k assume k: "k < LENGTH(8)"
  have m: "?m < sizeofT TYPE('a)" and inv: "sizeofT TYPE('a) - ?m - 1 = i" using i by linarith+
  have dm: "(?m * 8 + k) div 8 = ?m" "(?m * 8 + k) mod 8 = k" using k by simp_all
  have "?m * 8 + k < LENGTH('a)" using wb m k by (simp add: whole_bytes_def)
  then have "bit (readUnsignedBE d off :: 'a word) (?m * 8 + k) = bit (d ! (off + i)) k"
    using m by (simp only: bit_readUnsignedBE dm inv simp_thms)
  then show "bit (ucast (drop_bit (?m * 8) (readUnsignedBE d off :: 'a word)) :: u8) k = bit (d ! (off + i)) k"
    using k by (simp add: bit_ucast_iff bit_drop_bit_eq)
qed

lemma write_read_UnsignedBE:
  fixes off :: nat
  assumes wb: "whole_bytes TYPE('a::len)" and len: "off + sizeofT TYPE('a) \<le> length d"
  shows "writeUnsignedBE d off (readUnsignedBE d off :: 'a word) = d"
proof (rule nth_equalityI)
  show "length (writeUnsignedBE d off (readUnsignedBE d off :: 'a word)) = length d" by simp
  fix j assume "j < length (writeUnsignedBE d off (readUnsignedBE d off :: 'a word))"
  show "writeUnsignedBE d off (readUnsignedBE d off :: 'a word) ! j = d ! j"
  proof (cases "off \<le> j \<and> j < off + sizeofT TYPE('a)")
    case False
    then show ?thesis by (auto intro: writeUnsignedBE_frame)
  next
    case True
    then obtain i where j: "j = off + i" and i: "i < sizeofT TYPE('a)"
      by (auto simp: le_iff_add)
    show ?thesis
      using nth_writeUnsignedBE [OF len i] nth_byte_readUnsignedBE [OF wb i] j by simp
  qed
qed

lemma readUnsignedLE_cong:
  assumes "\<And>i. i < sizeofT TYPE('a) \<Longrightarrow> d ! (off + i) = d' ! (off' + i)"
  shows "(readUnsignedLE d off :: 'a::len word) = readUnsignedLE d' off'"
  by (rule bit_word_eqI) (auto simp: bit_readUnsignedLE assms)

lemma readUnsignedBE_cong:
  assumes "\<And>i. i < sizeofT TYPE('a) \<Longrightarrow> d ! (off + i) = d' ! (off' + i)"
  shows "(readUnsignedBE d off :: 'a::len word) = readUnsignedBE d' off'"
proof (rule bit_word_eqI)
  fix k
  have "k div 8 < sizeofT TYPE('a) \<Longrightarrow>
      d ! (off + (sizeofT TYPE('a) - k div 8 - 1)) = d' ! (off' + (sizeofT TYPE('a) - k div 8 - 1))"
    by (rule assms) linarith
  then show "bit (readUnsignedBE d off :: 'a word) k = bit (readUnsignedBE d' off' :: 'a word) k"
    unfolding bit_readUnsignedBE by metis
qed

text \<open>Big-endian reading is little-endian reading of the reversed bytes.\<close>

lemma readUnsignedBE_rev:
  assumes "off + sizeofT TYPE('a::len) \<le> length d"
  shows "(readUnsignedBE d off :: 'a word) = readUnsignedLE (rev (chunk d off (sizeofT TYPE('a)))) 0"
  using assms by (intro bit_word_eqI)
    (auto simp: bit_readUnsignedLE bit_readUnsignedBE rev_nth min_absorb1)

section \<open>The interface: a fixed-width codec on a buffer\<close>

text \<open>
  What a client of the readers and writers relies on: writing then reading returns the value,
  writing back what was read changes nothing, a write keeps the length and every byte outside its
  \<open>n\<close> bytes, and a read looks at its own \<open>n\<close> bytes only.
\<close>

locale byte_codec =
  fixes rd :: "u8 list \<Rightarrow> nat \<Rightarrow> 'v"
    and wr :: "u8 list \<Rightarrow> nat \<Rightarrow> 'v \<Rightarrow> u8 list"
    and n :: nat
  assumes rd_wr: "off + n \<le> length d \<Longrightarrow> rd (wr d off v) off = v"
    and wr_rd: "off + n \<le> length d \<Longrightarrow> wr d off (rd d off) = d"
    and wr_length: "length (wr d off v) = length d"
    and wr_frame: "j < off \<or> off + n \<le> j \<Longrightarrow> wr d off v ! j = d ! j"
    and rd_cong: "(\<And>i. i < n \<Longrightarrow> d ! (off + i) = d' ! (off' + i)) \<Longrightarrow> rd d off = rd d' off'"
begin

lemma rd_wr_disjoint:
  assumes "o2 + n \<le> off \<or> off + n \<le> o2"
  shows "rd (wr d off v) o2 = rd d o2"
  using assms by (intro rd_cong wr_frame) auto

lemma wr_same: "off + n \<le> length d \<Longrightarrow> rd d off = v \<Longrightarrow> wr d off v = d"
  using wr_rd by auto

lemma wr_inject: "off + n \<le> length d \<Longrightarrow> wr d off v = wr d off v' \<longleftrightarrow> v = v'"
  using rd_wr by metis

lemma rd_chunk: "off + n \<le> length d \<Longrightarrow> rd (chunk d off n) 0 = rd d off"
  by (intro rd_cong) auto

lemma rd_append: "off + n \<le> length d \<Longrightarrow> rd (d @ e) off = rd d off"
  by (intro rd_cong) (auto simp: nth_append)

lemma rd_blit_other:
  assumes "o2 + length xs \<le> length d" and "off + n \<le> o2 \<or> o2 + length xs \<le> off"
  shows "rd (blit d o2 xs) off = rd d off"
  using assms by (intro rd_cong) (auto simp: nth_blit)

text \<open>A cast of the value that can be undone gives a codec again.\<close>

lemma cast_codec:
  assumes "\<And>v. f (g v) = v" and "\<And>v. g (f v) = v"
  shows "byte_codec (\<lambda>d off. f (rd d off)) (\<lambda>d off v. wr d off (g v)) n"
proof
  show "f (rd d off) = f (rd d' off')" if "\<And>i. i < n \<Longrightarrow> d ! (off + i) = d' ! (off' + i)" for d d' off off'
    using rd_cong [of d off d' off'] that by simp
qed (simp_all add: assms rd_wr wr_rd wr_length wr_frame)

end

interpretation u16le: byte_codec readUInt16LE writeUInt16LE 2
  by unfold_locales
    (auto simp: readUInt16LE_def writeUInt16LE_def read_write_UnsignedLE write_read_UnsignedLE
      writeUnsignedLE_frame intro: readUnsignedLE_cong)

interpretation u32le: byte_codec readUInt32LE writeUInt32LE 4
  by unfold_locales
    (auto simp: readUInt32LE_def writeUInt32LE_def read_write_UnsignedLE write_read_UnsignedLE
      writeUnsignedLE_frame intro: readUnsignedLE_cong)

interpretation u64le: byte_codec readUInt64LE writeUInt64LE 8
  by unfold_locales
    (auto simp: readUInt64LE_def writeUInt64LE_def read_write_UnsignedLE write_read_UnsignedLE
      writeUnsignedLE_frame intro: readUnsignedLE_cong)

interpretation u16be: byte_codec readUInt16BE writeUInt16BE 2
  by unfold_locales
    (auto simp: readUInt16BE_def writeUInt16BE_def read_write_UnsignedBE write_read_UnsignedBE
      writeUnsignedBE_frame intro: readUnsignedBE_cong)

interpretation u32be: byte_codec readUInt32BE writeUInt32BE 4
  by unfold_locales
    (auto simp: readUInt32BE_def writeUInt32BE_def read_write_UnsignedBE write_read_UnsignedBE
      writeUnsignedBE_frame intro: readUnsignedBE_cong)

interpretation u64be: byte_codec readUInt64BE writeUInt64BE 8
  by unfold_locales
    (auto simp: readUInt64BE_def writeUInt64BE_def read_write_UnsignedBE write_read_UnsignedBE
      writeUnsignedBE_frame intro: readUnsignedBE_cong)

interpretation f32le: byte_codec readFloatLE writeFloatLE 4
  unfolding readFloatLE_def [abs_def] writeFloatLE_def [abs_def] by (rule u32le.cast_codec) simp_all

interpretation f32be: byte_codec readFloatBE writeFloatBE 4
  unfolding readFloatBE_def [abs_def] writeFloatBE_def [abs_def] by (rule u32be.cast_codec) simp_all

interpretation f64le: byte_codec readDoubleLE writeDoubleLE 8
  unfolding readDoubleLE_def [abs_def] writeDoubleLE_def [abs_def] by (rule u64le.cast_codec) simp_all

interpretation f64be: byte_codec readDoubleBE writeDoubleBE 8
  unfolding readDoubleBE_def [abs_def] writeDoubleBE_def [abs_def] by (rule u64be.cast_codec) simp_all

declare u32le.wr_length [simp, length_facts] u32le.rd_wr [roundtrip_facts]
  u32le.rd_wr_disjoint [frame_facts] u32le.wr_frame [frame_facts]

text \<open>The 4-byte readers and writers spelled out, for components that reason byte by byte.\<close>

lemma nth_writeUInt32LE:
  "off + 4 \<le> length d \<Longrightarrow> i < 4 \<Longrightarrow>
    writeUInt32LE d off v ! (off + i) = ucast (drop_bit (i * 8) v)"
  using nth_writeUnsignedLE [of off d i v] by (simp add: writeUInt32LE_def)

lemma readUInt32LE_bytes:
  "readUInt32LE d off = ucast (d ! off) OR push_bit 8 (ucast (d ! (off + 1)))
     OR push_bit 16 (ucast (d ! (off + 2))) OR push_bit 24 (ucast (d ! (off + 3)))"
  by (simp add: readUInt32LE_def readUnsignedLE_def eval_nat_numeral or.assoc)

text \<open>The bytes of a 32-bit word in memory order: a write is a copy of them.\<close>

definition le_bytes :: "u32 \<Rightarrow> u8 list" where
  "le_bytes v = map (\<lambda>i. ucast (drop_bit (8 * i) v)) [0..<4]"

lemma length_le_bytes [simp]: "length (le_bytes v) = 4"
  by (simp add: le_bytes_def)

lemma writeUInt32LE_blit:
  assumes "off + 4 \<le> length d"
  shows "writeUInt32LE d off v = blit d off (le_bytes v)"
proof (rule nth_equalityI)
  show "length (writeUInt32LE d off v) = length (blit d off (le_bytes v))"
    using assms by (simp add: u32le.wr_length)
  fix j assume "j < length (writeUInt32LE d off v)"
  show "writeUInt32LE d off v ! j = blit d off (le_bytes v) ! j"
  proof (cases "off \<le> j \<and> j < off + 4")
    case True
    then obtain i where "j = off + i" "i < 4" by (auto simp: le_iff_add)
    then show ?thesis
      using assms nth_writeUInt32LE [of off d i v]
      by (simp add: nth_blit le_bytes_def mult.commute)
  next
    case False
    then have "writeUInt32LE d off v ! j = d ! j" by (intro u32le.wr_frame) auto
    then show ?thesis using assms False by (auto simp: nth_blit)
  qed
qed

lemma readUInt32LE_le_bytes [simp]: "readUInt32LE (le_bytes v) 0 = v"
proof -
  have "writeUInt32LE [0, 0, 0, 0] 0 v = le_bytes v"
    by (simp add: writeUInt32LE_blit blit_def)
  then show ?thesis using u32le.rd_wr [of 0 "[0, 0, 0, 0]" v] by simp
qed

lemma le_bytes_readUInt32LE: "off + 4 \<le> length d \<Longrightarrow> le_bytes (readUInt32LE d off) = chunk d off 4"
  using u32le.wr_rd [of off d] chunk_blit_same [of off "le_bytes (readUInt32LE d off)" d]
  by (simp add: writeUInt32LE_blit)

lemma le_bytes_inject: "le_bytes v = le_bytes w \<longleftrightarrow> v = w"
  by (metis readUInt32LE_le_bytes)

section \<open>Properties\<close>

text \<open>Every integer width of the header, signed and unsigned, in either byte order, survives a
  write followed by a read at the same place of a buffer that holds it, and so do floating-point
  values, as bits; signed values survive over the whole range of their type.\<close>

theorem binary_write_read:
  assumes "off + 8 \<le> length d"
    and "- (2 ^ 15) \<le> i16" "i16 < 2 ^ 15" and "- (2 ^ 31) \<le> i32" "i32 < 2 ^ 31"
    and "- (2 ^ 63) \<le> i64" "i64 < 2 ^ 63"
  shows "readUInt16LE (writeUInt16LE d off a) off = a \<and> readUInt16BE (writeUInt16BE d off a) off = a
    \<and> readUInt32LE (writeUInt32LE d off b) off = b \<and> readUInt32BE (writeUInt32BE d off b) off = b
    \<and> readUInt64LE (writeUInt64LE d off c) off = c \<and> readUInt64BE (writeUInt64BE d off c) off = c
    \<and> readInt16LE (writeInt16LE d off i16) off = i16 \<and> readInt16BE (writeInt16BE d off i16) off = i16
    \<and> readInt32LE (writeInt32LE d off i32) off = i32 \<and> readInt32BE (writeInt32BE d off i32) off = i32
    \<and> readInt64LE (writeInt64LE d off i64) off = i64 \<and> readInt64BE (writeInt64BE d off i64) off = i64
    \<and> readFloatLE (writeFloatLE d off f) off = f \<and> readFloatBE (writeFloatBE d off f) off = f
    \<and> readDoubleLE (writeDoubleLE d off x) off = x \<and> readDoubleBE (writeDoubleBE d off x) off = x"
proof -
  have s16: "sint (word_of_int i16 :: u16) = i16" and s32: "sint (word_of_int i32 :: u32) = i32"
    and s64: "sint (word_of_int i64 :: u64) = i64"
    using assms by (simp_all add: signed_of_int signed_take_bit_int_eq_self)
  show ?thesis
    using assms(1)
    by (simp add: u16le.rd_wr u16be.rd_wr u32le.rd_wr u32be.rd_wr u64le.rd_wr u64be.rd_wr
        f32le.rd_wr f32be.rd_wr f64le.rd_wr f64be.rd_wr
        readInt16LE_def writeInt16LE_def readInt16BE_def writeInt16BE_def readInt32LE_def
        writeInt32LE_def readInt32BE_def writeInt32BE_def readInt64LE_def writeInt64LE_def
        readInt64BE_def writeInt64BE_def s16 s32 s64)
qed

theorem binary_write_read_witness:
  "readInt16LE (writeInt16LE (replicate 12 0) 3 (- 5)) 3 = - 5
   \<and> readUInt64BE (writeUInt64BE (replicate 12 0) 3 0x1122334455667788) 3 = 0x1122334455667788"
  using binary_write_read [of 3 "replicate 12 0" "- 5" 7 9 1 2 "0x1122334455667788"] by simp

end
