(* ===== verification/Eeprom.thy ===== *)
theory Eeprom
  imports Binary
begin

text \<open>
  src/siemens/eeprom.cpp: the EEPROM block store inside a fullflash image.  A \<open>size_t\<close> offset
  is a nat: every offset the code forms is below the size of a vector plus a few partition sizes,
  and every subtraction it makes is guarded or exact, so nothing wraps at 64 bits.  Ids and entry
  words stay \<open>u32\<close>.  Indexing \<open>m_data\<close> outside the vector is undefined in C++; here it is the
  error \<open>OutOfBounds\<close>, which the theorems show no run can end in.  The exceptions of the class
  \<open>EepromError\<close> are the other constructors, one per \<open>throw\<close>.
\<close>

section \<open>The code\<close>

definition PARTITION_STEP :: nat where "PARTITION_STEP = 0x10000"
definition X65_PARTITION_SIZE :: nat where "X65_PARTITION_SIZE = 0x20000"
definition X85_PARTITION_SIZE :: nat where "X85_PARTITION_SIZE = 0x40000"
definition X65_HEADER_SIZE :: nat where "X65_HEADER_SIZE = 16"
definition X85_HEADER_SIZE :: nat where "X85_HEADER_SIZE = 32"
definition X65_ENTRY_SIZE :: nat where "X65_ENTRY_SIZE = 16"
definition X85_ENTRY_SIZE :: nat where "X85_ENTRY_SIZE = 32"
definition X85_DATA_CHUNK_SIZE :: nat where "X85_DATA_CHUNK_SIZE = 0x10"
definition X85_EELITE_MAX_LINEAR_SIZE :: nat where "X85_EELITE_MAX_LINEAR_SIZE = 0x10"
definition X85_EEFULL_MAX_LINEAR_SIZE :: nat where "X85_EEFULL_MAX_LINEAR_SIZE = 0x200"
definition EEFULL_ID_OFFSET :: u32 where "EEFULL_ID_OFFSET = 5000"
definition ENTRY_STATE_MASK :: u32 where "ENTRY_STATE_MASK = 0xAAAAAAAA"

lemmas eeprom_consts = PARTITION_STEP_def X65_PARTITION_SIZE_def X85_PARTITION_SIZE_def
  X65_HEADER_SIZE_def X85_HEADER_SIZE_def X65_ENTRY_SIZE_def X85_ENTRY_SIZE_def
  X85_DATA_CHUNK_SIZE_def X85_EELITE_MAX_LINEAR_SIZE_def X85_EEFULL_MAX_LINEAR_SIZE_def
  EEFULL_ID_OFFSET_def

datatype Layout = UNKNOWN_LAYOUT | X65 | X85

datatype BlockLayout = LINEAR | STRIDED

datatype PartitionType = UNKNOWN_PARTITION | EELITE | EEFULL

text \<open>\<open>EntryState\<close> is an enum with a fixed underlying type, so any 32-bit value can be cast to it.\<close>

type_synonym EntryState = u32

definition FREE :: EntryState where "FREE = 0xAAAAAAAA"
definition WRITING :: EntryState where "WRITING = 0xAAAAAAA8"
definition VALID :: EntryState where "VALID = 0xAAAAAA80"
definition OBSOLETE :: EntryState where "OBSOLETE = 0xAAAAAA00"

lemmas entry_states = FREE_def WRITING_def VALID_def OBSOLETE_def

record block =
  m_offset :: nat
  m_size :: nat
  m_layout :: BlockLayout

record eeprom =
  m_data :: "u8 list"
  eeprom_layout :: Layout
  m_blocks :: "u32 \<Rightarrow> block option"

datatype eeprom_error =
    InvalidPartitionHeader nat
  | MetadataExceedsBlock nat
  | PartitionExceedsFullflash nat
  | UnknownEntryState nat
  | BlockIdOutOfRange nat
  | ZeroBlockSize nat
  | DataOffsetOutOfRange nat
  | BlockDataOutOfRange nat
  | NoFreeEntry nat
  | PartitionStartUnderflow nat
  | InlineDataOutOfRange nat
  | BlockNotFound u32
  | BlockSizeMismatch u32 nat nat
  | OutOfBounds nat

text \<open>Reads of \<open>m_data[offset]\<close>, of a run of bytes at it, and of an integer at it.\<close>

definition fetch :: "u8 list \<Rightarrow> nat \<Rightarrow> eeprom_error + u8" where
  "fetch data offset =
     (if offset < length data then Inr (data ! offset) else Inl (OutOfBounds offset))"

definition fetch_bytes :: "u8 list \<Rightarrow> nat \<Rightarrow> nat \<Rightarrow> eeprom_error + u8 list" where
  "fetch_bytes data offset n =
     (if offset + n \<le> length data then Inr (chunk data offset n) else Inl (OutOfBounds offset))"

definition fetch16 :: "u8 list \<Rightarrow> nat \<Rightarrow> eeprom_error + u16" where
  "fetch16 data offset =
     (if offset + 2 \<le> length data then Inr (readUInt16LE data offset) else Inl (OutOfBounds offset))"

definition fetch32 :: "u8 list \<Rightarrow> nat \<Rightarrow> eeprom_error + u32" where
  "fetch32 data offset =
     (if offset + 4 \<le> length data then Inr (readUInt32LE data offset) else Inl (OutOfBounds offset))"

definition alignDataOffset :: "nat \<Rightarrow> nat \<Rightarrow> nat" where
  "alignDataOffset offset chunkSize =
     (if offset AND chunkSize = 0 then offset
      else let stride = chunkSize * 2 in offset + stride - (offset AND (stride - 1)))"

definition isEntryStateValid :: "EntryState \<Rightarrow> bool" where
  "isEntryStateValid state \<longleftrightarrow>
     (if state = FREE then True else if state = WRITING then True
      else if state = VALID then True else if state = OBSOLETE then True else False)"

text \<open>The eight bytes that the two \<open>memcmp\<close> calls compare with.\<close>

definition EELITE_MAGIC :: "u8 list" where
  "EELITE_MAGIC = [0x45, 0x45, 0x4C, 0x49, 0x54, 0x45, 0, 0]"

definition EEFULL_MAGIC :: "u8 list" where
  "EEFULL_MAGIC = [0x45, 0x45, 0x46, 0x55, 0x4C, 0x4C, 0, 0]"

fun check_header_tail :: "u8 list \<Rightarrow> nat \<Rightarrow> nat list \<Rightarrow> eeprom_error + unit" where
  "check_header_tail data offset [] = Inr ()"
| "check_header_tail data offset (index # rest) =
     ebind (fetch data (offset + index)) (\<lambda>v.
       if v \<noteq> 0xFF then Inl (InvalidPartitionHeader offset)
       else check_header_tail data offset rest)"

definition readPartitionType :: "u8 list \<Rightarrow> Layout \<Rightarrow> nat \<Rightarrow> eeprom_error + PartitionType" where
  "readPartitionType data layout blockOffset =
     (let headerSize = (if layout = X65 then X65_HEADER_SIZE else X85_HEADER_SIZE);
          offset = (if layout = X65 then blockOffset else blockOffset + PARTITION_STEP - headerSize)
      in if offset + headerSize > length data then Inr UNKNOWN_PARTITION
         else ebind (fetch_bytes data offset 8) (\<lambda>magic.
           let type = (if magic = EELITE_MAGIC then EELITE
                       else if magic = EEFULL_MAGIC then EEFULL else UNKNOWN_PARTITION)
           in if type = UNKNOWN_PARTITION then Inr UNKNOWN_PARTITION
              else ebind (fetch data (offset + 10)) (\<lambda>b10.
                   ebind (fetch data (offset + 11)) (\<lambda>b11.
                   ebind (fetch data (offset + 12)) (\<lambda>b12.
                     if b10 \<noteq> 0 \<or> b11 \<noteq> 0 \<or> b12 \<noteq> 0xF0 then Inl (InvalidPartitionHeader offset)
                     else ebind (check_header_tail data offset [13..<headerSize]) (\<lambda>_.
                       Inr type))))))"

definition getBlockByteOffset :: "block \<Rightarrow> nat \<Rightarrow> nat" where
  "getBlockByteOffset blk index =
     (if m_layout blk = LINEAR then m_offset blk + index
      else let chunkOffset = m_offset blk AND (X85_DATA_CHUNK_SIZE - 1)
           in m_offset blk + index
              + ((chunkOffset + index) div X85_DATA_CHUNK_SIZE) * X85_DATA_CHUNK_SIZE)"

definition getEefullMetadataSize :: "u8 list \<Rightarrow> block \<Rightarrow> nat \<Rightarrow> eeprom_error + nat" where
  "getEefullMetadataSize data blk entryOffset =
     ebind (fetch data (getBlockByteOffset blk 0)) (\<lambda>version.
       let metadataSize = (if version AND 0x80 \<noteq> 0 \<and> version \<noteq> 0xFF then 6 else 1)
       in if m_size blk < metadataSize then Inl (MetadataExceedsBlock entryOffset)
          else Inr metadataSize)"

definition maxId :: "PartitionType \<Rightarrow> u32" where
  "maxId type = (if type = EELITE then EEFULL_ID_OFFSET - 1 else 0xFFFFFFFF - EEFULL_ID_OFFSET)"

text \<open>What one turn of an entry loop does: return, continue, or store a block.\<close>

datatype entry_step = Stop | Skip | Store u32 block

definition entryX65 :: "u8 list \<Rightarrow> PartitionType \<Rightarrow> nat \<Rightarrow> nat \<Rightarrow> eeprom_error + entry_step" where
  "entryX65 data type partitionOffset index =
     (let entryOffset = partitionOffset + X65_PARTITION_SIZE - X65_ENTRY_SIZE * index
      in ebind (fetch32 data entryOffset) (\<lambda>word.
         let state = word AND ENTRY_STATE_MASK
         in if \<not> isEntryStateValid state then Inl (UnknownEntryState entryOffset)
            else if state = FREE then Inr Stop
            else if state \<noteq> VALID then Inr Skip
            else ebind (fetch32 data (entryOffset + 4)) (\<lambda>bid.
              if bid > maxId type then Inl (BlockIdOutOfRange entryOffset)
              else ebind (fetch32 data (entryOffset + 8)) (\<lambda>storedSize.
                if storedSize = 0 then Inl (ZeroBlockSize entryOffset)
                else let bid' = (if type = EEFULL then bid + EEFULL_ID_OFFSET else bid)
                in ebind (fetch32 data (entryOffset + 12)) (\<lambda>relativeOffset.
                  if unat relativeOffset \<ge> X65_PARTITION_SIZE then Inl (DataOffsetOutOfRange entryOffset)
                  else if unat storedSize > X65_PARTITION_SIZE - unat relativeOffset
                    then Inl (BlockDataOutOfRange entryOffset)
                  else let blk = \<lparr>m_offset = partitionOffset + unat relativeOffset,
                                  m_size = unat storedSize, m_layout = LINEAR\<rparr>
                  in if type = EEFULL then
                       ebind (getEefullMetadataSize data blk entryOffset) (\<lambda>metadataSize.
                         Inr (Store bid' (blk\<lparr>m_offset := m_offset blk + 1,
                                             m_size := m_size blk - metadataSize\<rparr>)))
                     else Inr (Store bid' (blk\<lparr>m_size := m_size blk - 1\<rparr>)))))))"

definition try_emplace :: "(u32 \<Rightarrow> block option) \<Rightarrow> u32 \<Rightarrow> block \<Rightarrow> u32 \<Rightarrow> block option" where
  "try_emplace m bid blk = (if m bid = None then m(bid \<mapsto> blk) else m)"

definition insert_or_assign :: "(u32 \<Rightarrow> block option) \<Rightarrow> u32 \<Rightarrow> block \<Rightarrow> u32 \<Rightarrow> block option" where
  "insert_or_assign m bid blk = m(bid \<mapsto> blk)"

fun entriesX65 :: "u8 list \<Rightarrow> PartitionType \<Rightarrow> nat \<Rightarrow> nat list \<Rightarrow> (u32 \<Rightarrow> block option)
    \<Rightarrow> eeprom_error + (u32 \<Rightarrow> block option)" where
  "entriesX65 data type partitionOffset [] blocks = Inl (NoFreeEntry partitionOffset)"
| "entriesX65 data type partitionOffset (index # rest) blocks =
     ebind (entryX65 data type partitionOffset index) (\<lambda>step.
       case step of
         Stop \<Rightarrow> Inr blocks
       | Skip \<Rightarrow> entriesX65 data type partitionOffset rest blocks
       | Store bid blk \<Rightarrow> entriesX65 data type partitionOffset rest (try_emplace blocks bid blk))"

definition parsePartitionX65 :: "PartitionType \<Rightarrow> nat \<Rightarrow> eeprom \<Rightarrow> eeprom_error + eeprom" where
  "parsePartitionX65 type partitionOffset e =
     (if partitionOffset + X65_PARTITION_SIZE > length (m_data e)
      then Inl (PartitionExceedsFullflash partitionOffset)
      else let entryCount = (X65_PARTITION_SIZE - X65_HEADER_SIZE) div X65_ENTRY_SIZE
           in ebind (entriesX65 (m_data e) type partitionOffset [1..<entryCount + 1] (m_blocks e))
                (\<lambda>blocks. Inr (e\<lparr>m_blocks := blocks\<rparr>)))"

text \<open>The block location that an X85 entry describes: inline and strided, or linear.\<close>

definition locateX85 ::
  "u8 list \<Rightarrow> PartitionType \<Rightarrow> nat \<Rightarrow> nat \<Rightarrow> u32 \<Rightarrow> eeprom_error + block" where
  "locateX85 data type partitionOffset entryOffset storedSize =
     (let inlineMaxSize = (if type = EEFULL then X85_EEFULL_MAX_LINEAR_SIZE
                           else X85_EELITE_MAX_LINEAR_SIZE)
      in if unat storedSize \<le> inlineMaxSize then
           let reservedSize = X85_DATA_CHUNK_SIZE + unat storedSize
                 + unat ((ucast storedSize :: u64) AND NOT (word_of_nat X85_DATA_CHUNK_SIZE - 1))
           in if entryOffset < partitionOffset + reservedSize then Inl (InlineDataOutOfRange entryOffset)
              else let storedOffset = entryOffset - reservedSize
                   in Inr \<lparr>m_offset = alignDataOffset storedOffset X85_DATA_CHUNK_SIZE,
                           m_size = unat storedSize, m_layout = STRIDED\<rparr>
         else ebind (fetch32 data (entryOffset + 12)) (\<lambda>relativeOffset.
           if unat relativeOffset \<ge> X85_PARTITION_SIZE then Inl (DataOffsetOutOfRange entryOffset)
           else if unat storedSize > X85_PARTITION_SIZE - unat relativeOffset
             then Inl (BlockDataOutOfRange entryOffset)
           else Inr \<lparr>m_offset = partitionOffset + unat relativeOffset,
                     m_size = unat storedSize, m_layout = LINEAR\<rparr>))"

definition fetch_field :: "u8 list \<Rightarrow> PartitionType \<Rightarrow> nat \<Rightarrow> eeprom_error + u32" where
  "fetch_field data type offset =
     (if type = EELITE then ebind (fetch16 data offset) (\<lambda>v. Inr (ucast v)) else fetch32 data offset)"

definition entryX85 :: "u8 list \<Rightarrow> PartitionType \<Rightarrow> nat \<Rightarrow> nat \<Rightarrow> eeprom_error + entry_step" where
  "entryX85 data type partitionOffset index =
     (let entryOffset = partitionOffset + X85_PARTITION_SIZE - X85_HEADER_SIZE - X85_ENTRY_SIZE * index
      in ebind (fetch32 data entryOffset) (\<lambda>word.
         let state = word AND ENTRY_STATE_MASK
         in if \<not> isEntryStateValid state then Inr Skip
            else if state \<noteq> VALID then Inr Skip
            else ebind (fetch_field data type (entryOffset + 8)) (\<lambda>storedSize.
              if storedSize = 0 then Inl (ZeroBlockSize entryOffset)
              else ebind (locateX85 data type partitionOffset entryOffset storedSize) (\<lambda>blk.
                ebind (fetch_field data type (entryOffset + 4)) (\<lambda>bid.
                  if bid > maxId type then Inl (BlockIdOutOfRange entryOffset)
                  else let bid' = (if type = EEFULL then bid + EEFULL_ID_OFFSET else bid)
                  in if type = EEFULL then
                       ebind (getEefullMetadataSize data blk entryOffset) (\<lambda>metadataSize.
                         Inr (Store bid' (blk\<lparr>m_offset := getBlockByteOffset blk 1,
                                             m_size := m_size blk - metadataSize\<rparr>)))
                     else Inr (Store bid' blk))))))"

fun entriesX85 :: "u8 list \<Rightarrow> PartitionType \<Rightarrow> nat \<Rightarrow> nat list \<Rightarrow> (u32 \<Rightarrow> block option)
    \<Rightarrow> eeprom_error + (u32 \<Rightarrow> block option)" where
  "entriesX85 data type partitionOffset [] blocks = Inr blocks"
| "entriesX85 data type partitionOffset (index # rest) blocks =
     ebind (entryX85 data type partitionOffset index) (\<lambda>step.
       case step of
         Stop \<Rightarrow> Inr blocks
       | Skip \<Rightarrow> entriesX85 data type partitionOffset rest blocks
       | Store bid blk \<Rightarrow> entriesX85 data type partitionOffset rest (insert_or_assign blocks bid blk))"

definition parsePartitionX85 :: "PartitionType \<Rightarrow> nat \<Rightarrow> eeprom \<Rightarrow> eeprom_error + eeprom" where
  "parsePartitionX85 type blockOffset e =
     (if blockOffset < X85_PARTITION_SIZE - PARTITION_STEP
      then Inl (PartitionStartUnderflow blockOffset)
      else let partitionOffset = blockOffset - (X85_PARTITION_SIZE - PARTITION_STEP);
               entryCount = (X85_PARTITION_SIZE - X85_HEADER_SIZE) div X85_ENTRY_SIZE
           in ebind (entriesX85 (m_data e) type partitionOffset [1..<entryCount + 1] (m_blocks e))
                (\<lambda>blocks. Inr (e\<lparr>m_blocks := blocks\<rparr>)))"

text \<open>The two halves of the loop body of \<open>parsePartitions\<close>, and the loop.\<close>

definition scanX65 :: "nat \<Rightarrow> eeprom \<Rightarrow> eeprom_error + eeprom" where
  "scanX65 offset e =
     (if eeprom_layout e = UNKNOWN_LAYOUT \<or> eeprom_layout e = X65 then
        ebind (readPartitionType (m_data e) X65 offset) (\<lambda>type.
          if type \<noteq> UNKNOWN_PARTITION
          then ebind (parsePartitionX65 type offset e) (\<lambda>e'. Inr (e'\<lparr>eeprom_layout := X65\<rparr>))
          else Inr e)
      else Inr e)"

definition scanX85 :: "nat \<Rightarrow> eeprom \<Rightarrow> eeprom_error + eeprom" where
  "scanX85 offset e =
     (if eeprom_layout e = UNKNOWN_LAYOUT \<or> eeprom_layout e = X85 then
        ebind (readPartitionType (m_data e) X85 offset) (\<lambda>type.
          if type \<noteq> UNKNOWN_PARTITION
          then ebind (parsePartitionX85 type offset e) (\<lambda>e'. Inr (e'\<lparr>eeprom_layout := X85\<rparr>))
          else Inr e)
      else Inr e)"

fun scan_loop :: "nat list \<Rightarrow> eeprom \<Rightarrow> eeprom_error + eeprom" where
  "scan_loop [] e = Inr e"
| "scan_loop (offset # rest) e =
     ebind (scanX65 offset e) (\<lambda>e'. ebind (scanX85 offset e') (scan_loop rest))"

definition parsePartitions :: "u8 list \<Rightarrow> eeprom_error + eeprom" where
  "parsePartitions data =
     scan_loop (map (\<lambda>k. k * PARTITION_STEP) [0..<(length data + PARTITION_STEP - 1) div PARTITION_STEP])
       \<lparr>m_data = data, eeprom_layout = UNKNOWN_LAYOUT, m_blocks = Map.empty\<rparr>"

definition getBlockMetadata :: "eeprom \<Rightarrow> u32 \<Rightarrow> eeprom_error + block" where
  "getBlockMetadata e bid =
     (case m_blocks e bid of None \<Rightarrow> Inl (BlockNotFound bid) | Some blk \<Rightarrow> Inr blk)"

definition hasBlock :: "eeprom \<Rightarrow> u32 \<Rightarrow> bool" where
  "hasBlock e bid \<longleftrightarrow> m_blocks e bid \<noteq> None"

definition getBlockSize :: "eeprom \<Rightarrow> u32 \<Rightarrow> eeprom_error + nat" where
  "getBlockSize e bid = ebind (getBlockMetadata e bid) (\<lambda>blk. Inr (m_size blk))"

fun read_bytes :: "u8 list \<Rightarrow> block \<Rightarrow> nat list \<Rightarrow> u8 list \<Rightarrow> eeprom_error + u8 list" where
  "read_bytes data blk [] value = Inr value"
| "read_bytes data blk (index # rest) value =
     ebind (fetch data (getBlockByteOffset blk index)) (\<lambda>v. read_bytes data blk rest (value @ [v]))"

definition readBlock :: "eeprom \<Rightarrow> u32 \<Rightarrow> eeprom_error + u8 list" where
  "readBlock e bid =
     ebind (getBlockMetadata e bid) (\<lambda>blk. read_bytes (m_data e) blk [0..<m_size blk] [])"

fun write_bytes :: "block \<Rightarrow> u8 list \<Rightarrow> nat list \<Rightarrow> u8 list \<Rightarrow> bool \<Rightarrow> eeprom_error + u8 list \<times> bool" where
  "write_bytes blk value [] data changed = Inr (data, changed)"
| "write_bytes blk value (index # rest) data changed =
     ebind (fetch data (getBlockByteOffset blk index)) (\<lambda>destination.
       if destination \<noteq> value ! index
       then write_bytes blk value rest (data[getBlockByteOffset blk index := value ! index]) True
       else write_bytes blk value rest data changed)"

definition writeBlock :: "eeprom \<Rightarrow> u32 \<Rightarrow> u8 list \<Rightarrow> eeprom_error + eeprom \<times> bool" where
  "writeBlock e bid value =
     ebind (getBlockMetadata e bid) (\<lambda>blk.
       if m_size blk \<noteq> length value then Inl (BlockSizeMismatch bid (length value) (m_size blk))
       else ebind (write_bytes blk value [0..<length value] (m_data e) False) (\<lambda>(data, changed).
         Inr (e\<lparr>m_data := data\<rparr>, changed)))"

section \<open>Block geometry\<close>

lemma nat_and_15: "(n :: nat) AND 15 = n mod 16"
proof -
  have "(15 :: nat) = mask 4" by (simp add: mask_eq_exp_minus_1)
  then show ?thesis by (simp only: take_bit_eq_mask [symmetric]) (simp add: take_bit_eq_mod)
qed

lemma nat_and_31: "(n :: nat) AND 31 = n mod 32"
proof -
  have "(31 :: nat) = mask 5" by (simp add: mask_eq_exp_minus_1)
  then show ?thesis by (simp only: take_bit_eq_mask [symmetric]) (simp add: take_bit_eq_mod)
qed

lemma nat_and_16: "(n :: nat) AND 16 = 0 \<longleftrightarrow> n mod 32 < 16"
proof -
  have b: "n AND 16 = 0 \<longleftrightarrow> \<not> bit n 4"
  proof -
    have bits: "bit (n AND 16) k \<longleftrightarrow> k = 4 \<and> bit n 4" for k
      using bit_exp_iff [of 4 k, where ?'a = nat] by (auto simp: bit_and_iff)
    show ?thesis
    proof
      assume "n AND 16 = 0"
      then show "\<not> bit n 4" using bits [of 4] by simp
    next
      assume "\<not> bit n 4"
      then show "n AND 16 = 0" by (intro bit_eqI) (simp add: bits)
    qed
  qed
  have "bit n 4 \<longleftrightarrow> odd (n div 16)" by (simp add: bit_iff_odd)
  moreover have "n mod 32 = 16 * (n div 16 mod 2) + n mod 16"
    using mod_mult2_eq [of n 16 2] by simp
  ultimately show ?thesis using b by (auto simp: odd_iff_mod_2_eq_one even_iff_mod_2_eq_zero)
qed
lemma push_drop: "n - n mod 16 = push_bit 4 (drop_bit 4 (n :: nat))"
  by (simp add: push_bit_eq_mult drop_bit_eq_div minus_mod_eq_div_mult)

lemma clear_low_nibble:
  "unat ((ucast (w :: u32) :: u64) AND NOT (word_of_nat 16 - 1)) = unat w - unat w mod 16"
proof -
  have m: "(word_of_nat 16 - 1 :: u64) = mask 4" by (simp add: mask_eq_exp_minus_1)
  show ?thesis
    unfolding push_drop m
  proof (rule bit_eqI)
    fix k
    show "bit (unat ((ucast w :: u64) AND NOT (mask 4))) k \<longleftrightarrow> bit (push_bit 4 (drop_bit 4 (unat w))) k"
      by (auto simp: bit_unsigned_iff bit_and_iff bit_not_iff bit_mask_iff bit_push_bit_iff bit_drop_bit_eq
          dest: bit_imp_le_length)
  qed
qed

lemma byte_offset_linear:
  "m_layout blk = LINEAR \<Longrightarrow> getBlockByteOffset blk i = m_offset blk + i"
  by (simp add: getBlockByteOffset_def)

lemma byte_offset_strided:
  "m_layout blk = STRIDED \<Longrightarrow>
    getBlockByteOffset blk i = m_offset blk + i + (m_offset blk mod 16 + i) div 16 * 16"
  by (simp add: getBlockByteOffset_def X85_DATA_CHUNK_SIZE_def nat_and_15)

lemma byte_offset_less:
  assumes "i < j"
  shows "getBlockByteOffset blk i < getBlockByteOffset blk j"
proof (cases "m_layout blk")
  case LINEAR
  then show ?thesis using assms by (simp add: byte_offset_linear)
next
  case STRIDED
  have "(m_offset blk mod 16 + i) div 16 \<le> (m_offset blk mod 16 + j) div 16"
    using assms by (intro div_le_mono) simp
  then show ?thesis using assms STRIDED by (simp add: byte_offset_strided)
qed

lemma byte_offset_inject [simp]:
  "getBlockByteOffset blk i = getBlockByteOffset blk j \<longleftrightarrow> i = j"
  using byte_offset_less [of i j blk] byte_offset_less [of j i blk] by (cases i j rule: linorder_cases) auto

lemma byte_offset_le: "i \<le> j \<Longrightarrow> getBlockByteOffset blk i \<le> getBlockByteOffset blk j"
  using byte_offset_less [of i j blk] by (cases "i = j") auto

text \<open>Advancing a block by one byte, as the code does to drop the leading EEFULL version byte.\<close>

lemma byte_offset_shift:
  "getBlockByteOffset (blk\<lparr>m_offset := getBlockByteOffset blk 1, m_size := n\<rparr>) i
    = getBlockByteOffset blk (Suc i)"
proof (cases "m_layout blk")
  case LINEAR
  then show ?thesis by (simp add: byte_offset_linear)
next
  case STRIDED
  define a where "a = m_offset blk div 16"
  define c where "c = m_offset blk mod 16"
  have off: "m_offset blk = 16 * a + c" and c: "c < 16" by (simp_all add: a_def c_def)
  define q where "q = (c + 1) div 16"
  define r where "r = (c + 1) mod 16"
  have cr: "c + 1 = 16 * q + r" by (simp add: q_def r_def)
  have one: "getBlockByteOffset blk 1 = 16 * (a + 2 * q) + r"
  proof -
    have "getBlockByteOffset blk 1 = m_offset blk + 1 + (c + 1) div 16 * 16"
      using byte_offset_strided [OF STRIDED, of 1] by (simp only: c_def)
    also have "\<dots> = 16 * a + (c + 1) + q * 16" by (simp only: off q_def add.assoc)
    also have "\<dots> = 16 * (a + 2 * q) + r" by (simp only: cr) simp
    finally show ?thesis .
  qed
  have sum: "c + Suc i = (r + i) + q * 16" using cr by simp
  have "(c + Suc i) div 16 = q + (r + i) div 16"
    unfolding sum by (rule div_mult_self1) simp
  then have old: "getBlockByteOffset blk (Suc i) = m_offset blk + Suc i + (q + (r + i) div 16) * 16"
    using byte_offset_strided [OF STRIDED, of "Suc i"] by (simp only: c_def)
  have "(16 * (a + 2 * q) + r) mod 16 = r"
    by (simp only: add.commute [of _ r] mod_mult_self2) (simp add: r_def)
  moreover have "m_offset (blk\<lparr>m_offset := p, m_size := n\<rparr>) = p"
      and "m_layout (blk\<lparr>m_offset := p, m_size := n\<rparr>) = STRIDED" for p
    using STRIDED by simp_all
  ultimately have "getBlockByteOffset (blk\<lparr>m_offset := getBlockByteOffset blk 1, m_size := n\<rparr>) i
      = 16 * (a + 2 * q) + r + i + (r + i) div 16 * 16"
    by (simp only: byte_offset_strided one)
  then show ?thesis unfolding old off using cr by simp
qed

definition block_within :: "block \<Rightarrow> nat \<Rightarrow> nat \<Rightarrow> bool" where
  "block_within blk lo hi \<longleftrightarrow>
     (\<forall>i < m_size blk. lo \<le> getBlockByteOffset blk i \<and> getBlockByteOffset blk i < hi)"

lemma block_within_last:
  assumes "lo \<le> m_offset blk" and "m_offset blk mod 32 < 16 \<or> m_layout blk = LINEAR"
    and "0 < m_size blk" and "getBlockByteOffset blk (m_size blk - 1) < hi"
  shows "block_within blk lo hi"
  unfolding block_within_def
proof (intro allI impI conjI)
  fix i assume i: "i < m_size blk"
  show "lo \<le> getBlockByteOffset blk i"
    using assms(1) by (simp add: getBlockByteOffset_def Let_def)
  have "getBlockByteOffset blk i \<le> getBlockByteOffset blk (m_size blk - 1)"
    using i by (intro byte_offset_le) simp
  then show "getBlockByteOffset blk i < hi" using assms(4) by simp
qed

text \<open>
  The inline data of an X85 entry at \<open>E\<close>: the lower halves of the 32-byte rows just before it.
  The last byte lands below \<open>E - 16\<close> whatever the size is.
\<close>

lemma align_16:
  "alignDataOffset n 16 = (if n mod 32 < 16 then n else n + 32 - n mod 32)"
  by (simp add: alignDataOffset_def nat_and_16 nat_and_31)

lemma inline_last:
  assumes E: "E mod 32 = 0" and s: "0 < s" and room: "16 + s + (s - s mod 16) \<le> E"
    and a: "a = alignDataOffset (E - (16 + s + (s - s mod 16))) 16"
  shows "E - (16 + s + (s - s mod 16)) \<le> a"
    and "a + (s - 1) + (a mod 16 + (s - 1)) div 16 * 16 < E"
    and "a mod 32 < 16"
proof -
  define q where "q = s div 16"
  define r where "r = s mod 16"
  have s_qr: "s = 16 * q + r" and r: "r < 16" by (simp_all add: q_def r_def)
  have sz: "16 + s + (s - s mod 16) = 16 + 32 * q + r" by (simp add: s_qr r)
  define F where "F = E div 32"
  have EF: "E = 32 * F" using E by (simp add: F_def mod_eq_0_iff_dvd)
  have "16 + 32 * q + r \<le> 32 * F" using room sz EF by simp
  then have qF: "q < F" by simp
  then obtain d where d: "F = q + 1 + d" using less_natE by (metis Suc_eq_plus1 add.commute add.left_commute less_iff_Suc_add)
  have n: "E - (16 + s + (s - s mod 16)) = 32 * d + (16 - r)"
    using sz EF d r by simp
  have mod_n: "(32 * d + (16 - r)) mod 32 = 16 - r"
    by (simp only: add.commute [of "32 * d"] mod_mult_self2) simp
  show "E - (16 + s + (s - s mod 16)) \<le> a"
    unfolding a align_16 n mod_n by auto
  show "a mod 32 < 16"
    using a unfolding align_16 n mod_n by (cases "16 - r < 16") (simp_all only: mod_n if_True if_False, simp)
  show "a + (s - 1) + (a mod 16 + (s - 1)) div 16 * 16 < E"
  proof (cases "r = 0")
    case True
    then have a': "a = 32 * d + 32" unfolding a align_16 n mod_n by simp
    have q1: "0 < q" using s s_qr True by simp
    then obtain p where p: "q = Suc p" by (cases q) auto
    have sp: "s - 1 = 15 + 16 * p" using s_qr True p by simp
    have "a mod 16 = 0" using a' by (simp add: mod_eq_0_iff_dvd)
    then have "(a mod 16 + (s - 1)) div 16 = p" unfolding sp by simp
    then show ?thesis using a' s_qr True p EF d by simp
  next
    case False
    then have a': "a = 32 * d + (16 - r)" unfolding a align_16 n mod_n by simp
    have "a mod 16 = 16 - r"
    proof -
      have "a = (16 - r) + 16 * (2 * d)" using a' by simp
      then show ?thesis using False r by (simp only: mod_mult_self2) simp
    qed
    then have "a mod 16 + (s - 1) = 15 + 16 * q" using s_qr False r by simp
    then have "(a mod 16 + (s - 1)) div 16 = q" by simp
    then show ?thesis using a' s_qr EF d r False by simp
  qed
qed


section \<open>Entries\<close>

fun is_oob :: "eeprom_error \<Rightarrow> bool" where
  "is_oob (OutOfBounds offset) = True"
| "is_oob _ = False"

text \<open>
  A reader is safe when it stays inside the vector; the readers below are, at the offsets the code
  forms.  \<open>never_fetch\<close> collects the bounds facts, so that the checks on a whole entry are one
  \<open>auto\<close> over the error monad.
\<close>

named_theorems never_fetch

lemma never_fetch_byte [never_fetch]: "offset < length data \<Longrightarrow> never is_oob (fetch data offset)"
  by (simp add: fetch_def)

lemma never_fetch_bytes [never_fetch]:
  "offset + n \<le> length data \<Longrightarrow> never is_oob (fetch_bytes data offset n)"
  by (simp add: fetch_bytes_def)

lemma never_fetch32 [never_fetch]: "offset + 4 \<le> length data \<Longrightarrow> never is_oob (fetch32 data offset)"
  by (simp add: fetch32_def)

lemma never_fetch_field [never_fetch]:
  "offset + 4 \<le> length data \<Longrightarrow> never is_oob (fetch_field data type offset)"
  by (auto simp: fetch_field_def fetch16_def fetch32_def)

lemma never_header_tail [never_fetch]:
  "\<forall>i \<in> set is. offset + i < length data \<Longrightarrow> never is_oob (check_header_tail data offset is)"
  by (induction "is") (auto intro!: never_ebind never_fetch)

lemma never_readPartitionType [never_fetch]: "never is_oob (readPartitionType data layout blockOffset)"
  unfolding readPartitionType_def Let_def
  by (auto intro!: never_ebind never_if never_fetch simp: eeprom_consts)

lemma readPartitionType_fits:
  assumes "readPartitionType data X85 blockOffset = Inr type" and "type \<noteq> UNKNOWN_PARTITION"
  shows "blockOffset + PARTITION_STEP \<le> length data"
  using assms by (auto simp: readPartitionType_def Let_def eeprom_consts split: if_splits)

lemma readPartitionType_result:
  "readPartitionType data layout blockOffset = Inr type \<Longrightarrow> type \<noteq> UNKNOWN_PARTITION \<Longrightarrow>
    type = EELITE \<or> type = EEFULL"
  by (cases type) auto

lemma never_metadata [never_fetch]:
  "getBlockByteOffset blk 0 < length data \<Longrightarrow> never is_oob (getEefullMetadataSize data blk eo)"
  by (auto simp: getEefullMetadataSize_def Let_def intro!: never_ebind never_fetch)

lemma metadata_result:
  "getEefullMetadataSize data blk eo = Inr n \<Longrightarrow> 1 \<le> n \<and> n \<le> m_size blk"
  by (auto simp: getEefullMetadataSize_def Let_def split: if_splits)

text \<open>Ids: the EELITE and EEFULL ranges are disjoint, and adding the EEFULL offset never wraps.\<close>

definition id_class :: "PartitionType \<Rightarrow> u32 \<Rightarrow> bool" where
  "id_class type bid \<longleftrightarrow>
     (type = EELITE \<and> unat bid < 5000) \<or> (type = EEFULL \<and> 5000 \<le> unat bid)"

lemma id_class_stored:
  assumes "\<not> bid > maxId type" and "type = EELITE \<or> type = EEFULL"
  shows "id_class type (if type = EEFULL then bid + EEFULL_ID_OFFSET else bid)"
  using assms
proof (elim disjE)
  assume t: "type = EELITE"
  with assms have "unat bid \<le> 4999" by (simp add: maxId_def EEFULL_ID_OFFSET_def word_le_nat_alt not_less)
  then show ?thesis using t by (simp add: id_class_def)
next
  assume t: "type = EEFULL"
  with assms have "unat bid \<le> 4294962295"
    by (simp add: maxId_def EEFULL_ID_OFFSET_def word_le_nat_alt not_less)
  then have "unat (bid + 5000) = unat bid + 5000" by (simp add: unat_word_ariths)
  then show ?thesis using t by (simp add: id_class_def EEFULL_ID_OFFSET_def)
qed

lemma id_class_eefull: "\<not> maxId EEFULL < bid \<Longrightarrow> id_class EEFULL (bid + EEFULL_ID_OFFSET)"
  using id_class_stored [where bid = bid and type = EEFULL] by simp

lemma id_class_eelite: "\<not> maxId EELITE < bid \<Longrightarrow> id_class EELITE bid"
  using id_class_stored [where bid = bid and type = EELITE] by simp

lemma shift_within:
  assumes "block_within blk lo hi" and "1 \<le> n"
  shows "block_within (blk\<lparr>m_offset := getBlockByteOffset blk 1, m_size := m_size blk - n\<rparr>) lo hi"
  using assms unfolding block_within_def byte_offset_shift by auto

lemmas shift_within_Suc = shift_within [unfolded One_nat_def]

lemma byte_offset_size [simp]: "getBlockByteOffset (blk\<lparr>m_size := n\<rparr>) i = getBlockByteOffset blk i"
  by (simp add: getBlockByteOffset_def)

lemma shrink_within:
  "block_within blk lo hi \<Longrightarrow> n \<le> m_size blk \<Longrightarrow> block_within (blk\<lparr>m_size := n\<rparr>) lo hi"
  by (simp add: block_within_def)

lemma linear_within:
  assumes "r < sz" and "n \<le> sz - r"
  shows "block_within \<lparr>m_offset = po + r, m_size = n, m_layout = LINEAR\<rparr> po (po + sz)"
  using assms by (auto simp: block_within_def byte_offset_linear)

lemma linear_trim_within:
  assumes "r < sz" and "n \<le> sz - r" and "1 \<le> k" and "k \<le> n"
  shows "block_within \<lparr>m_offset = Suc (po + r), m_size = n - k, m_layout = LINEAR\<rparr> po (po + sz)"
  using assms by (auto simp: block_within_def byte_offset_linear)

text \<open>The X65 entry table: entry \<open>index\<close> of a partition that fits lies inside the partition.\<close>

lemma entryX65_bounds:
  assumes "po + X65_PARTITION_SIZE \<le> length data" and "1 \<le> index" and "index \<le> 8191"
  shows "po \<le> po + X65_PARTITION_SIZE - X65_ENTRY_SIZE * index"
    and "po + X65_PARTITION_SIZE - X65_ENTRY_SIZE * index + 16 \<le> length data"
  using assms by (auto simp: eeprom_consts)

lemma entryX65_safe:
  assumes "po + X65_PARTITION_SIZE \<le> length data" and "1 \<le> index" and "index \<le> 8191"
  shows "never is_oob (entryX65 data type po index)"
  using entryX65_bounds [OF assms] assms(1) unfolding entryX65_def Let_def
  by (auto intro!: never_ebind never_if never_fetch simp: byte_offset_linear)

lemma entryX65_stores:
  assumes "entryX65 data type po index = Inr (Store bid blk)" and "type = EELITE \<or> type = EEFULL"
  shows "block_within blk po (po + X65_PARTITION_SIZE) \<and> id_class type bid"
  using assms unfolding entryX65_def Let_def
  by (auto simp: not_le not_less intro!: linear_within linear_trim_within id_class_eefull id_class_eelite
      dest: metadata_result split: if_splits)


text \<open>The X85 entry table.\<close>

lemma entryX85_bounds:
  assumes "po mod 32 = 0" and "po + X85_PARTITION_SIZE \<le> length data" and "1 \<le> index" and "index \<le> 8191"
    and eo: "eo = po + X85_PARTITION_SIZE - X85_HEADER_SIZE - X85_ENTRY_SIZE * index"
  shows "po \<le> eo" and "eo + 32 \<le> po + X85_PARTITION_SIZE" and "eo + 32 \<le> length data"
    and "eo mod 32 = 0"
proof -
  have eo': "eo = po + 32 * (8191 - index)" using assms(3,4) eo by (simp add: eeprom_consts algebra_simps)
  show "po \<le> eo" "eo + 32 \<le> po + X85_PARTITION_SIZE" "eo + 32 \<le> length data"
    using assms(2-4) by (auto simp: eo' eeprom_consts)
  show "eo mod 32 = 0" unfolding eo' using assms(1) by (metis mod_mult_self2)
qed

lemma locateX85_safe [never_fetch]:
  "eo + 16 \<le> length data \<Longrightarrow> never is_oob (locateX85 data type po eo storedSize)"
  unfolding locateX85_def Let_def by (auto intro!: never_ebind never_if never_fetch)

lemma locateX85_within:
  assumes loc: "locateX85 data type po eo storedSize = Inr blk"
    and eo: "po \<le> eo" "eo \<le> po + X85_PARTITION_SIZE" "eo mod 32 = 0" and nz: "storedSize \<noteq> 0"
  shows "block_within blk po (if m_layout blk = STRIDED then eo else po + X85_PARTITION_SIZE)"
    and "m_size blk = unat storedSize"
proof -
  let ?s = "unat storedSize"
  let ?room = "16 + ?s + (?s - ?s mod 16)"
  have s: "0 < ?s" using nz by (simp add: unat_gt_0)
  have room: "X85_DATA_CHUNK_SIZE + ?s
      + unat ((ucast storedSize :: u64) AND NOT (word_of_nat X85_DATA_CHUNK_SIZE - 1)) = ?room"
    unfolding X85_DATA_CHUNK_SIZE_def clear_low_nibble ..
  show "m_size blk = ?s"
    using loc by (auto simp: locateX85_def Let_def split: if_splits)
  show "block_within blk po (if m_layout blk = STRIDED then eo else po + X85_PARTITION_SIZE)"
  proof (cases "?s \<le> (if type = EEFULL then X85_EEFULL_MAX_LINEAR_SIZE else X85_EELITE_MAX_LINEAR_SIZE)")
    case True
    then have fits: "po + ?room \<le> eo"
      and blk: "blk = \<lparr>m_offset = alignDataOffset (eo - ?room) 16, m_size = ?s, m_layout = STRIDED\<rparr>"
      using loc unfolding locateX85_def Let_def room
      by (auto simp: X85_DATA_CHUNK_SIZE_def not_less split: if_splits)
    have "?room \<le> eo" using fits by simp
    note last = inline_last [OF eo(3) s this refl]
    have "block_within blk po eo"
    proof (rule block_within_last)
      show "po \<le> m_offset blk" using fits last(1) by (simp add: blk)
      show "m_offset blk mod 32 < 16 \<or> m_layout blk = LINEAR" using last(3) by (simp add: blk)
      show "0 < m_size blk" using s by (simp add: blk)
      show "getBlockByteOffset blk (m_size blk - 1) < eo"
        using last(2) by (subst byte_offset_strided) (simp_all only: blk block.select_convs)
    qed
    then show ?thesis by (simp add: blk)
  next
    case False
    then show ?thesis
      using loc unfolding locateX85_def Let_def
      by (auto simp: not_le not_less intro!: linear_within split: if_splits)
  qed
qed

lemma within_first: "block_within blk lo hi \<Longrightarrow> 0 < m_size blk \<Longrightarrow> getBlockByteOffset blk 0 < hi"
  by (simp add: block_within_def)

lemma within_mono: "block_within blk lo hi \<Longrightarrow> hi \<le> hi' \<Longrightarrow> block_within blk lo hi'"
  by (force simp: block_within_def)

lemma locateX85_partition:
  assumes "locateX85 data type po eo storedSize = Inr blk"
    and "po \<le> eo" "eo \<le> po + X85_PARTITION_SIZE" "eo mod 32 = 0" and "storedSize \<noteq> 0"
  shows "block_within blk po (po + X85_PARTITION_SIZE)"
  using locateX85_within(1) [OF assms] assms(3) by (auto intro: within_mono split: if_splits)

lemma entryX85_safe:
  assumes "po mod 32 = 0" "po + X85_PARTITION_SIZE \<le> length data" "1 \<le> index" "index \<le> 8191"
  shows "never is_oob (entryX85 data type po index)"
proof -
  define eo where "eo = po + X85_PARTITION_SIZE - X85_HEADER_SIZE - X85_ENTRY_SIZE * index"
  note b = entryX85_bounds [OF assms eo_def]
  have first: "getBlockByteOffset blk 0 < length data"
    if "locateX85 data type po eo storedSize = Inr blk" and "storedSize \<noteq> 0" for blk storedSize
  proof -
    have "block_within blk po (po + X85_PARTITION_SIZE)"
      using locateX85_partition [OF that(1) b(1) _ b(4) that(2)] b(2) by simp
    moreover have "m_size blk = unat storedSize"
      using locateX85_within(2) [OF that(1) b(1) _ b(4) that(2)] b(2) by simp
    ultimately show ?thesis
      using within_first [of blk po] assms(2) that(2) by (fastforce simp: unat_gt_0)
  qed
  show ?thesis
    unfolding entryX85_def Let_def eo_def [symmetric]
    using b by (auto intro!: never_ebind never_if never_fetch dest!: first)
qed

lemma entryX85_stores:
  assumes "entryX85 data type po index = Inr (Store bid blk)" and "type = EELITE \<or> type = EEFULL"
    and "po mod 32 = 0" "po + X85_PARTITION_SIZE \<le> length data" "1 \<le> index" "index \<le> 8191"
  shows "block_within blk po (po + X85_PARTITION_SIZE) \<and> id_class type bid"
proof -
  define eo where "eo = po + X85_PARTITION_SIZE - X85_HEADER_SIZE - X85_ENTRY_SIZE * index"
  note b = entryX85_bounds [OF assms(3-6) eo_def]
  have within: "block_within blk po (po + X85_PARTITION_SIZE)"
    if "locateX85 data t po eo storedSize = Inr blk" and "storedSize \<noteq> 0" for t blk storedSize
    using locateX85_partition [OF that(1) b(1) _ b(4) that(2)] b(2) by simp
  show ?thesis
    using assms(1,2) unfolding entryX85_def Let_def eo_def [symmetric]
    by (auto simp: not_less dest!: within dest: metadata_result
        intro!: shift_within_Suc id_class_eefull id_class_eelite split: if_splits)
qed


section \<open>Partitions\<close>

text \<open>
  \<open>block_home data layout bid blk\<close>: the block lies in a partition of the image that starts at a
  multiple of \<open>PARTITION_STEP\<close>, fits in the image, and whose header is of the class of the id.
\<close>

definition block_home :: "u8 list \<Rightarrow> Layout \<Rightarrow> u32 \<Rightarrow> block \<Rightarrow> bool" where
  "block_home data layout bid blk \<longleftrightarrow>
     (\<exists>k type header po psize.
        header = k * PARTITION_STEP \<and>
        (layout = X65 \<and> psize = X65_PARTITION_SIZE \<and> po = header
         \<or> layout = X85 \<and> psize = X85_PARTITION_SIZE \<and> po + X85_PARTITION_SIZE = header + PARTITION_STEP) \<and>
        readPartitionType data layout header = Inr type \<and>
        po + psize \<le> length data \<and> block_within blk po (po + psize) \<and> id_class type bid)"

definition blocks_home :: "u8 list \<Rightarrow> Layout \<Rightarrow> (u32 \<Rightarrow> block option) \<Rightarrow> bool" where
  "blocks_home data layout blocks \<longleftrightarrow>
     (\<forall>bid blk. blocks bid = Some blk \<longrightarrow> block_home data layout bid blk)"

lemma blocks_home_empty [simp]: "blocks_home data layout Map.empty"
  by (simp add: blocks_home_def)

lemma blocks_home_store:
  assumes "blocks_home data layout blocks" and "block_home data layout bid blk"
  shows "blocks_home data layout (try_emplace blocks bid blk)"
    and "blocks_home data layout (insert_or_assign blocks bid blk)"
  using assms by (auto simp: blocks_home_def try_emplace_def insert_or_assign_def)

lemma entriesX65_safe:
  assumes "po + X65_PARTITION_SIZE \<le> length data" and "\<forall>i \<in> set is. 1 \<le> i \<and> i \<le> 8191"
  shows "never is_oob (entriesX65 data type po is blocks)"
  using assms(2)
proof (induction "is" arbitrary: blocks)
  case Nil
  then show ?case by simp
next
  case (Cons i rest)
  then show ?case
    using entryX65_safe [OF assms(1), of i type]
    by (auto intro!: never_ebind split: entry_step.split)
qed

lemma entriesX65_home:
  assumes "po = k * PARTITION_STEP" and "readPartitionType data X65 po = Inr type"
    and "type = EELITE \<or> type = EEFULL" and "po + X65_PARTITION_SIZE \<le> length data"
  shows "entriesX65 data type po is blocks = Inr blocks' \<Longrightarrow> blocks_home data X65 blocks
    \<Longrightarrow> blocks_home data X65 blocks'"
proof (induction "is" arbitrary: blocks)
  case Nil
  then show ?case by simp
next
  case (Cons i rest)
  from Cons.prems(1) obtain step where step: "entryX65 data type po i = Inr step" by auto
  show ?case
  proof (cases step)
    case (Store bid blk)
    have "block_home data X65 bid blk"
      using entryX65_stores [OF step [unfolded Store] assms(3)] assms
      unfolding block_home_def by blast
    then show ?thesis using Cons step Store by (auto intro: blocks_home_store)
  qed (use Cons step in auto)
qed

lemma entriesX85_safe:
  assumes "po mod 32 = 0" "po + X85_PARTITION_SIZE \<le> length data" and "\<forall>i \<in> set is. 1 \<le> i \<and> i \<le> 8191"
  shows "never is_oob (entriesX85 data type po is blocks)"
  using assms(3)
proof (induction "is" arbitrary: blocks)
  case Nil
  then show ?case by simp
next
  case (Cons i rest)
  then show ?case
    using entryX85_safe [OF assms(1,2), of i type]
    by (auto intro!: never_ebind split: entry_step.split)
qed

lemma entriesX85_home:
  assumes "header = k * PARTITION_STEP" and "po + X85_PARTITION_SIZE = header + PARTITION_STEP"
    and "readPartitionType data X85 header = Inr type"
    and "type = EELITE \<or> type = EEFULL" and "po mod 32 = 0" "po + X85_PARTITION_SIZE \<le> length data"
    and "\<forall>i \<in> set is. 1 \<le> i \<and> i \<le> 8191"
  shows "entriesX85 data type po is blocks = Inr blocks' \<Longrightarrow> blocks_home data X85 blocks
    \<Longrightarrow> blocks_home data X85 blocks'"
  using assms(7)
proof (induction "is" arbitrary: blocks)
  case Nil
  then show ?case by simp
next
  case (Cons i rest)
  from Cons.prems(1) obtain step where step: "entryX85 data type po i = Inr step" by auto
  have i: "1 \<le> i" "i \<le> 8191" using Cons.prems(3) by auto
  show ?case
  proof (cases step)
    case (Store bid blk)
    have "block_home data X85 bid blk"
      using entryX85_stores [OF step [unfolded Store] assms(4-6) i] assms(1-6)
      unfolding block_home_def by blast
    then show ?thesis using Cons step Store by (auto intro: blocks_home_store)
  qed (use Cons step in auto)
qed

text \<open>The invariant of the scan.\<close>

definition scan_ok :: "u8 list \<Rightarrow> eeprom \<Rightarrow> bool" where
  "scan_ok data e \<longleftrightarrow> m_data e = data \<and> (eeprom_layout e = UNKNOWN_LAYOUT \<longrightarrow> m_blocks e = Map.empty) \<and>
     blocks_home data (eeprom_layout e) (m_blocks e)"

lemma partition_count:
  "(X65_PARTITION_SIZE - X65_HEADER_SIZE) div X65_ENTRY_SIZE = 8191"
  "(X85_PARTITION_SIZE - X85_HEADER_SIZE) div X85_ENTRY_SIZE = 8191"
  by (simp_all add: eeprom_consts)

lemma partition_indexes: "\<forall>i \<in> set [1..<8191 + 1]. 1 \<le> i \<and> i \<le> (8191 :: nat)"
  by (simp only: set_upt atLeastLessThan_iff) auto

lemma parsePartitionX65_safe: "never is_oob (parsePartitionX65 type po e)"
  unfolding parsePartitionX65_def Let_def partition_count
  by (rule never_if) (auto simp only: never_Inl is_oob.simps not_le not_less not_False_eq_True
      intro!: never_ebind entriesX65_safe partition_indexes never_Inr)

lemma x85_start:
  assumes "\<not> k * PARTITION_STEP < X85_PARTITION_SIZE - PARTITION_STEP"
  shows "(k * PARTITION_STEP - (X85_PARTITION_SIZE - PARTITION_STEP)) mod 32 = 0"
    and "k * PARTITION_STEP - (X85_PARTITION_SIZE - PARTITION_STEP) + X85_PARTITION_SIZE
      = k * PARTITION_STEP + PARTITION_STEP"
proof -
  obtain j where j: "k = j + 3" using assms by (auto simp: eeprom_consts intro: that [of "k - 3"])
  show "(k * PARTITION_STEP - (X85_PARTITION_SIZE - PARTITION_STEP)) mod 32 = 0"
    by (simp add: j eeprom_consts algebra_simps)
  show "k * PARTITION_STEP - (X85_PARTITION_SIZE - PARTITION_STEP) + X85_PARTITION_SIZE
      = k * PARTITION_STEP + PARTITION_STEP"
    by (simp add: j eeprom_consts)
qed

lemma parsePartitionX85_safe:
  assumes "k * PARTITION_STEP + PARTITION_STEP \<le> length (m_data e)"
  shows "never is_oob (parsePartitionX85 type (k * PARTITION_STEP) e)"
  unfolding parsePartitionX85_def Let_def partition_count
proof (rule never_if, simp, rule never_ebind)
  assume "\<not> k * PARTITION_STEP < X85_PARTITION_SIZE - PARTITION_STEP"
  note s = x85_start [OF this]
  show "never is_oob (entriesX85 (m_data e) type
      (k * PARTITION_STEP - (X85_PARTITION_SIZE - PARTITION_STEP)) [1..<8191 + 1] (m_blocks e))"
    by (rule entriesX85_safe [OF s(1) _ partition_indexes]) (simp only: s(2) assms)
qed simp


lemma scanX65_safe: "never is_oob (scanX65 offset e)"
  unfolding scanX65_def
  by (auto intro!: never_if never_ebind never_readPartitionType parsePartitionX65_safe)

lemma scanX85_safe: "never is_oob (scanX85 (k * PARTITION_STEP) e)"
  unfolding scanX85_def
  by (auto intro!: never_if never_ebind never_readPartitionType parsePartitionX85_safe
      dest: readPartitionType_fits)

lemma scanX65_ok:
  assumes "scan_ok data e" and run: "scanX65 (k * PARTITION_STEP) e = Inr e'"
  shows "scan_ok data e'"
proof -
  have "scan_ok data (e\<lparr>m_blocks := blocks, eeprom_layout := X65\<rparr>)"
    if lay: "eeprom_layout e = UNKNOWN_LAYOUT \<or> eeprom_layout e = X65"
      and rd: "readPartitionType (m_data e) X65 (k * PARTITION_STEP) = Inr type" "type \<noteq> UNKNOWN_PARTITION"
      and fit: "k * PARTITION_STEP + X65_PARTITION_SIZE \<le> length (m_data e)"
      and es: "entriesX65 (m_data e) type (k * PARTITION_STEP) [1..<8191 + 1] (m_blocks e) = Inr blocks"
    for type blocks
  proof -
    have "blocks_home data X65 (m_blocks e)"
      using assms(1) lay by (auto simp: scan_ok_def)
    then have "blocks_home (m_data e) X65 blocks"
      using entriesX65_home [OF refl rd(1) readPartitionType_result [OF rd] fit es] assms(1)
      by (simp add: scan_ok_def)
    then show ?thesis using assms(1) by (simp add: scan_ok_def)
  qed
  then show ?thesis
    using run assms(1) unfolding scanX65_def parsePartitionX65_def Let_def partition_count
    by (auto simp del: upt_Suc upt_rec_numeral simp: not_less split: if_splits)
qed

lemma scanX85_ok:
  assumes "scan_ok data e" and run: "scanX85 (k * PARTITION_STEP) e = Inr e'"
  shows "scan_ok data e'"
proof -
  let ?po = "k * PARTITION_STEP - (X85_PARTITION_SIZE - PARTITION_STEP)"
  have "scan_ok data (e\<lparr>m_blocks := blocks, eeprom_layout := X85\<rparr>)"
    if lay: "eeprom_layout e = UNKNOWN_LAYOUT \<or> eeprom_layout e = X85"
      and rd: "readPartitionType (m_data e) X85 (k * PARTITION_STEP) = Inr type" "type \<noteq> UNKNOWN_PARTITION"
      and low: "\<not> k * PARTITION_STEP < X85_PARTITION_SIZE - PARTITION_STEP"
      and es: "entriesX85 (m_data e) type ?po [1..<8191 + 1] (m_blocks e) = Inr blocks"
    for type blocks
  proof -
    have fit: "?po + X85_PARTITION_SIZE \<le> length (m_data e)"
      unfolding x85_start(2) [OF low] by (rule readPartitionType_fits [OF rd])
    have "blocks_home data X85 (m_blocks e)"
      using assms(1) lay by (auto simp: scan_ok_def)
    then have "blocks_home (m_data e) X85 blocks"
      using entriesX85_home [OF refl x85_start(2) [OF low] rd(1) readPartitionType_result [OF rd]
          x85_start(1) [OF low] fit partition_indexes es] assms(1)
      by (simp add: scan_ok_def)
    then show ?thesis using assms(1) by (simp add: scan_ok_def)
  qed
  then show ?thesis
    using run assms(1) unfolding scanX85_def parsePartitionX85_def Let_def partition_count
    by (auto simp del: upt_Suc upt_rec_numeral split: if_splits)
qed

lemma scan_loop_safe: "never is_oob (scan_loop (map (\<lambda>k. k * PARTITION_STEP) ks) e)"
  by (induction ks arbitrary: e) (auto intro!: never_ebind scanX65_safe scanX85_safe)

lemma scan_loop_ok:
  "scan_ok data e \<Longrightarrow> scan_loop (map (\<lambda>k. k * PARTITION_STEP) ks) e = Inr e' \<Longrightarrow> scan_ok data e'"
  by (induction ks arbitrary: e) (simp, clarsimp, blast dest: scanX65_ok scanX85_ok)

lemma parsePartitions_ok: "parsePartitions data = Inr e \<Longrightarrow> scan_ok data e"
  unfolding parsePartitions_def by (erule scan_loop_ok [rotated]) (simp add: scan_ok_def)

section \<open>The block store\<close>

text \<open>Every byte of every block is a byte of the image.\<close>

definition eeprom_wf :: "eeprom \<Rightarrow> bool" where
  "eeprom_wf e \<longleftrightarrow>
     (\<forall>bid blk. m_blocks e bid = Some blk \<longrightarrow>
        (\<forall>i < m_size blk. getBlockByteOffset blk i < length (m_data e)))"

lemma block_home_bytes: "block_home data layout bid blk \<Longrightarrow> i < m_size blk \<Longrightarrow> getBlockByteOffset blk i < length data"
  unfolding block_home_def block_within_def by (metis order_less_le_trans)

lemma parsePartitions_wf: "parsePartitions data = Inr e \<Longrightarrow> eeprom_wf e \<and> m_data e = data"
  using parsePartitions_ok [of data e] block_home_bytes [of data "eeprom_layout e"]
  by (simp add: scan_ok_def eeprom_wf_def blocks_home_def) blast

text \<open>The bytes of a block, in order.\<close>

definition block_bytes :: "u8 list \<Rightarrow> block \<Rightarrow> u8 list" where
  "block_bytes data blk = map (\<lambda>i. data ! getBlockByteOffset blk i) [0..<m_size blk]"

lemma read_bytes_ok:
  "\<forall>i \<in> set is. getBlockByteOffset blk i < length data \<Longrightarrow>
    read_bytes data blk is value = Inr (value @ map (\<lambda>i. data ! getBlockByteOffset blk i) is)"
  by (induction "is" arbitrary: "value") (auto simp: fetch_def)

lemma readBlock_bytes:
  "eeprom_wf e \<Longrightarrow> m_blocks e bid = Some blk \<Longrightarrow> readBlock e bid = Inr (block_bytes (m_data e) blk)"
  by (simp add: readBlock_def getBlockMetadata_def read_bytes_ok eeprom_wf_def block_bytes_def)

text \<open>The image after writing: the block's bytes replaced, everything else as it was.\<close>

definition written :: "block \<Rightarrow> u8 list \<Rightarrow> nat \<Rightarrow> u8 list \<Rightarrow> u8 list" where
  "written blk value n data =
     fold (\<lambda>i d. d[getBlockByteOffset blk i := value ! i]) [0..<n] data"

lemma written_Suc: "written blk value (Suc n) data = (written blk value n data)[getBlockByteOffset blk n := value ! n]"
  by (simp add: written_def)

lemma length_written [simp, length_facts]: "length (written blk value n data) = length data"
  by (induction n) (simp_all add: written_Suc, simp add: written_def)

lemma written_other:
  "(\<And>i. i < n \<Longrightarrow> getBlockByteOffset blk i \<noteq> j) \<Longrightarrow> written blk value n data ! j = data ! j"
  by (induction n) (auto simp: written_Suc, simp add: written_def)

lemma written_at:
  assumes "i < n" and "getBlockByteOffset blk i < length data"
  shows "written blk value n data ! getBlockByteOffset blk i = value ! i"
  using assms
proof (induction n)
  case (Suc n)
  then show ?case by (cases "i = n") (auto simp: written_Suc)
qed simp

lemma written_step:
  assumes "getBlockByteOffset blk k < length data"
  shows "written blk value k data ! getBlockByteOffset blk k = data ! getBlockByteOffset blk k"
    and "data ! getBlockByteOffset blk k \<noteq> value ! k \<Longrightarrow> written blk value (Suc k) data \<noteq> data"
    and "data ! getBlockByteOffset blk k = value ! k \<Longrightarrow> written blk value (Suc k) data = written blk value k data"
proof -
  show old: "written blk value k data ! getBlockByteOffset blk k = data ! getBlockByteOffset blk k"
    by (rule written_other) simp
  show "written blk value (Suc k) data \<noteq> data" if "data ! getBlockByteOffset blk k \<noteq> value ! k"
    using written_at [of k "Suc k" blk data "value"] assms that by auto
  show "written blk value (Suc k) data = written blk value k data" if "data ! getBlockByteOffset blk k = value ! k"
    using that old by (simp add: written_Suc list_update_same_conv assms)
qed

lemma write_bytes_from:
  assumes "\<forall>i < n. getBlockByteOffset blk i < length data"
  shows "k \<le> n \<Longrightarrow> changed = (written blk value k data \<noteq> data) \<Longrightarrow>
    write_bytes blk value [k..<n] (written blk value k data) changed
      = Inr (written blk value n data, written blk value n data \<noteq> data)"
proof (induction "n - k" arbitrary: k changed)
  case 0
  then show ?case by simp
next
  case (Suc m)
  then have k: "k < n" and m: "m = n - Suc k" by simp_all
  have off: "getBlockByteOffset blk k < length data" using assms k by simp
  note step = written_step [OF off, of "value"]
  have upt: "[k..<n] = k # [Suc k..<n]" using k by (rule upt_conv_Cons)
  note rest = Suc.hyps(1) [OF m Suc_leI [OF k] refl]
  show ?case
  proof (cases "data ! getBlockByteOffset blk k = value ! k")
    case True
    then show ?thesis
      using rest Suc.prems(2) off step by (simp add: upt fetch_def)
  next
    case False
    then show ?thesis
      using rest off step by (simp add: upt fetch_def written_Suc)
  qed
qed

lemma writeBlock_written:
  assumes "eeprom_wf e" and "m_blocks e bid = Some blk" and "length value = m_size blk"
  shows "writeBlock e bid value
    = Inr (e\<lparr>m_data := written blk value (m_size blk) (m_data e)\<rparr>,
           written blk value (m_size blk) (m_data e) \<noteq> m_data e)"
proof -
  have "\<forall>i < m_size blk. getBlockByteOffset blk i < length (m_data e)"
    using assms by (simp add: eeprom_wf_def)
  from write_bytes_from [OF this, of 0 False "value"]
  have "write_bytes blk value [0..<m_size blk] (m_data e) False
      = Inr (written blk value (m_size blk) (m_data e), written blk value (m_size blk) (m_data e) \<noteq> m_data e)"
    by (simp add: written_def)
  then show ?thesis using assms by (simp add: writeBlock_def getBlockMetadata_def)
qed

lemma writeBlock_error:
  "m_blocks e bid = None \<Longrightarrow> writeBlock e bid value = Inl (BlockNotFound bid)"
  "m_blocks e bid = Some blk \<Longrightarrow> length value \<noteq> m_size blk \<Longrightarrow>
    writeBlock e bid value = Inl (BlockSizeMismatch bid (length value) (m_size blk))"
  by (auto simp: writeBlock_def getBlockMetadata_def)


text \<open>
  The interface of a store of sized blocks over one image.  \<open>sz\<close> is the size of a block that
  exists, \<open>apart\<close> says that two blocks share no byte of the image, and \<open>img\<close> is the image.
  Nothing in the format keeps the data of two entries apart, so the laws say what a write does to
  other blocks only for blocks that are.
\<close>

locale block_store =
  fixes inv :: "'s \<Rightarrow> bool"
    and sz :: "'s \<Rightarrow> 'k \<Rightarrow> nat option"
    and get :: "'s \<Rightarrow> 'k \<Rightarrow> 'e + 'v list"
    and put :: "'s \<Rightarrow> 'k \<Rightarrow> 'v list \<Rightarrow> 'e + 's \<times> bool"
    and apart :: "'s \<Rightarrow> 'k \<Rightarrow> 'k \<Rightarrow> bool"
    and img :: "'s \<Rightarrow> 'v list"
  assumes put_ok: "inv s \<Longrightarrow> sz s k = Some (length v) \<Longrightarrow> \<exists>s'. put s k v = Inr (s', img s' \<noteq> img s)"
    and put_refused: "sz s k \<noteq> Some (length v) \<Longrightarrow> \<not> is_ok (put s k v)"
    and put_inv: "inv s \<Longrightarrow> put s k v = Inr (s', c) \<Longrightarrow> inv s'"
    and put_sz: "put s k v = Inr (s', c) \<Longrightarrow> sz s' = sz s"
    and put_apart: "put s k v = Inr (s', c) \<Longrightarrow> apart s' = apart s"
    and put_length: "inv s \<Longrightarrow> put s k v = Inr (s', c) \<Longrightarrow> length (img s') = length (img s)"
    and put_same: "inv s \<Longrightarrow> put s k v = Inr (s', c) \<Longrightarrow> img s' = img s \<Longrightarrow> s' = s"
    and get_put: "inv s \<Longrightarrow> put s k v = Inr (s', c) \<Longrightarrow> get s' k = Inr v"
    and get_put_apart: "inv s \<Longrightarrow> put s k v = Inr (s', c) \<Longrightarrow> apart s k k' \<Longrightarrow> get s' k' = get s k'"
    and put_get_same: "inv s \<Longrightarrow> get s k = Inr v \<Longrightarrow> put s k v = Inr (s, False)"
begin

lemma put_changed: "inv s \<Longrightarrow> put s k v = Inr (s', c) \<Longrightarrow> c \<longleftrightarrow> img s' \<noteq> img s"
  using put_ok [of s k v] put_refused [of s k v] by (cases "sz s k = Some (length v)") auto

lemma put_unchanged: "inv s \<Longrightarrow> put s k v = Inr (s', False) \<Longrightarrow> s' = s"
  using put_changed [of s k v s' False] put_same by blast

lemma put_twice:
  assumes "inv s" and "put s k v = Inr (s', c)"
  shows "put s' k v = Inr (s', False)"
  using assms by (intro put_get_same put_inv [OF assms] get_put)

end

definition blocks_apart :: "eeprom \<Rightarrow> u32 \<Rightarrow> u32 \<Rightarrow> bool" where
  "blocks_apart e k k' \<longleftrightarrow>
     (case (m_blocks e k, m_blocks e k') of
        (Some b, Some b') \<Rightarrow>
          \<forall>i < m_size b. \<forall>j < m_size b'. getBlockByteOffset b i \<noteq> getBlockByteOffset b' j
      | _ \<Rightarrow> True)"

definition block_size :: "eeprom \<Rightarrow> u32 \<Rightarrow> nat option" where
  "block_size e bid = map_option m_size (m_blocks e bid)"

lemma block_size_Some: "block_size e bid = Some n \<longleftrightarrow> (\<exists>blk. m_blocks e bid = Some blk \<and> m_size blk = n)"
  by (auto simp: block_size_def)

lemma writeBlock_Inr:
  assumes "eeprom_wf e" and "writeBlock e bid value = Inr (e', c)"
  obtains blk where "m_blocks e bid = Some blk" and "length value = m_size blk"
    and "e' = e\<lparr>m_data := written blk value (m_size blk) (m_data e)\<rparr>"
    and "c \<longleftrightarrow> m_data e' \<noteq> m_data e"
proof (cases "m_blocks e bid")
  case None
  then show ?thesis using assms(2) by (simp add: writeBlock_error)
next
  case (Some blk)
  show ?thesis
  proof (cases "length value = m_size blk")
    case True
    from writeBlock_written [OF assms(1) Some True] assms(2) that [OF Some True]
    show ?thesis by simp
  next
    case False
    then show ?thesis using assms(2) Some by (simp add: writeBlock_error)
  qed
qed

lemma writeBlock_wf:
  assumes "eeprom_wf e" and "writeBlock e bid value = Inr (e', c)"
  shows "eeprom_wf e'"
  using assms(1) by (rule_tac writeBlock_Inr [OF assms]) (simp add: eeprom_wf_def)

lemma writeBlock_blocks: "writeBlock e bid value = Inr (e', c) \<Longrightarrow> m_blocks e' = m_blocks e"
  by (auto simp: writeBlock_def split: if_splits)

lemma writeBlock_layout: "writeBlock e bid value = Inr (e', c) \<Longrightarrow> eeprom_layout e' = eeprom_layout e"
  by (auto simp: writeBlock_def split: if_splits)

lemma block_size_cong: "m_blocks e' = m_blocks e \<Longrightarrow> block_size e' = block_size e"
  by (rule ext) (simp add: block_size_def)

lemma blocks_apart_cong: "m_blocks e' = m_blocks e \<Longrightarrow> blocks_apart e' = blocks_apart e"
  by (intro ext) (simp only: blocks_apart_def)

lemma written_block:
  assumes "\<forall>i < m_size blk. getBlockByteOffset blk i < length data" and "length value = m_size blk"
  shows "block_bytes (written blk value (m_size blk) data) blk = value"
  using assms by (intro nth_equalityI) (simp_all add: block_bytes_def written_at)

lemma written_block_same:
  assumes "\<forall>i < m_size blk. getBlockByteOffset blk i < length data"
  shows "written blk (block_bytes data blk) (m_size blk) data = data"
proof (rule nth_equalityI)
  fix j
  show "written blk (block_bytes data blk) (m_size blk) data ! j = data ! j"
  proof (cases "\<exists>i < m_size blk. getBlockByteOffset blk i = j")
    case True
    then show ?thesis using assms by (auto simp: written_at) (simp add: block_bytes_def)
  next
    case False
    then show ?thesis by (intro written_other) auto
  qed
qed simp

lemma written_apart:
  assumes "\<forall>i < m_size b. \<forall>j < m_size b'. getBlockByteOffset b i \<noteq> getBlockByteOffset b' j"
  shows "block_bytes (written b value (m_size b) data) b' = block_bytes data b'"
  using assms by (auto simp: block_bytes_def intro!: written_other)

interpretation store: block_store eeprom_wf block_size readBlock writeBlock blocks_apart m_data
proof
  fix e k and v :: "u8 list"
  assume "eeprom_wf e" and "block_size e k = Some (length v)"
  then show "\<exists>e'. writeBlock e k v = Inr (e', m_data e' \<noteq> m_data e)"
    by (auto simp: block_size_Some writeBlock_written)
next
  fix e :: eeprom and k and v :: "u8 list"
  assume "block_size e k \<noteq> Some (length v)"
  then show "\<not> is_ok (writeBlock e k v)"
    by (cases "m_blocks e k") (auto simp: block_size_def writeBlock_error)
next
  fix e k v e' c
  assume wf: "eeprom_wf e" and put: "writeBlock e k v = Inr (e', c)"
  show "eeprom_wf e'" by (rule writeBlock_wf [OF wf put])
  show "length (m_data e') = length (m_data e)" using wf put by (elim writeBlock_Inr) auto
  show "e' = e" if "m_data e' = m_data e"
    using wf put that by (elim writeBlock_Inr) auto
  show "readBlock e' k = Inr v"
  proof (rule writeBlock_Inr [OF wf put])
    fix blk
    assume blk: "m_blocks e k = Some blk" "length v = m_size blk"
      and e': "e' = e\<lparr>m_data := written blk v (m_size blk) (m_data e)\<rparr>"
    have "eeprom_wf e'" using wf e' by (simp add: eeprom_wf_def)
    then have "readBlock e' k = Inr (block_bytes (m_data e') blk)"
      using blk e' by (intro readBlock_bytes) simp_all
    moreover have "block_bytes (m_data e') blk = v"
      using wf blk e' by (simp add: eeprom_wf_def written_block)
    ultimately show ?thesis by simp
  qed
next
  fix e k v e' c k'
  assume wf: "eeprom_wf e" and put: "writeBlock e k v = Inr (e', c)" and apart: "blocks_apart e k k'"
  have wf': "eeprom_wf e'" by (rule writeBlock_wf [OF wf put])
  show "readBlock e' k' = readBlock e k'"
  proof (cases "m_blocks e k'")
    case None
    then show ?thesis using writeBlock_blocks [OF put] by (simp add: readBlock_def getBlockMetadata_def)
  next
    case (Some b')
    have "block_bytes (m_data e') b' = block_bytes (m_data e) b'"
      by (rule writeBlock_Inr [OF wf put])
        (use apart Some in \<open>auto simp: blocks_apart_def intro!: written_apart\<close>)
    then show ?thesis
      using readBlock_bytes [OF wf Some] readBlock_bytes [OF wf', of k' b'] Some writeBlock_blocks [OF put]
      by simp
  qed
next
  fix e k v
  assume wf: "eeprom_wf e" and got: "readBlock e k = Inr v"
  then obtain blk where blk: "m_blocks e k = Some blk"
    by (cases "m_blocks e k") (auto simp: readBlock_def getBlockMetadata_def)
  have v: "v = block_bytes (m_data e) blk" using readBlock_bytes [OF wf blk] got by simp
  have all: "\<forall>i < m_size blk. getBlockByteOffset blk i < length (m_data e)"
    using wf blk by (simp add: eeprom_wf_def)
  have "length v = m_size blk" by (simp add: v block_bytes_def)
  from writeBlock_written [OF wf blk this]
  show "writeBlock e k v = Inr (e, False)"
    unfolding v written_block_same [OF all] by simp
qed (blast intro: block_size_cong blocks_apart_cong writeBlock_blocks)+


section \<open>A writer of store images\<close>

text \<open>
  What an image with one X65 partition holds: the header, the stored data of the items one after
  the other, erased flash, and the entry table growing down from the end of the partition.  An
  EELITE block has a spare byte after its value, an EEFULL block a version byte before it.
\<close>

definition x65_header :: "PartitionType \<Rightarrow> u8 list" where
  "x65_header type = (if type = EELITE then EELITE_MAGIC else EEFULL_MAGIC)
     @ [0xFF, 0xFF, 0, 0, 0xF0, 0xFF, 0xFF, 0xFF]"

definition x65_stored :: "PartitionType \<Rightarrow> u8 list \<Rightarrow> u8 list" where
  "x65_stored type v = (if type = EELITE then v @ [0xFF] else 0xFF # v)"

definition x65_entry :: "u32 \<Rightarrow> nat \<Rightarrow> nat \<Rightarrow> u8 list" where
  "x65_entry bid n off =
     le_bytes VALID @ le_bytes bid @ le_bytes (word_of_nat n) @ le_bytes (word_of_nat off)"

fun x65_entries :: "nat \<Rightarrow> (u32 \<times> u8 list) list \<Rightarrow> u8 list list" where
  "x65_entries off [] = []"
| "x65_entries off ((bid, v) # items) =
     x65_entry bid (length v + 1) off # x65_entries (off + length v + 1) items"

definition x65_image :: "PartitionType \<Rightarrow> (u32 \<times> u8 list) list \<Rightarrow> u8 list" where
  "x65_image type items =
     (let body = x65_header type @ concat (map (x65_stored type \<circ> snd) items);
          table = concat (rev (x65_entries 16 items))
      in body @ replicate (X65_PARTITION_SIZE - length body - length table) 0xFF @ table)"

definition x65_fits :: "PartitionType \<Rightarrow> (u32 \<times> u8 list) list \<Rightarrow> bool" where
  "x65_fits type items \<longleftrightarrow> type \<noteq> UNKNOWN_PARTITION \<and>
     16 + (\<Sum>v\<leftarrow>map snd items. length v + 1) \<le> PARTITION_STEP \<and>
     16 * length items + 32 \<le> PARTITION_STEP \<and> (\<forall>bid \<in> set (map fst items). bid \<le> maxId type)"

definition x65_pos :: "(u32 \<times> u8 list) list \<Rightarrow> nat \<Rightarrow> nat" where
  "x65_pos items k = 16 + (\<Sum>v\<leftarrow>map snd (take k items). length v + 1)"

definition x65_id :: "PartitionType \<Rightarrow> u32 \<Rightarrow> u32" where
  "x65_id type bid = (if type = EEFULL then bid + EEFULL_ID_OFFSET else bid)"

definition x65_block :: "PartitionType \<Rightarrow> (u32 \<times> u8 list) list \<Rightarrow> nat \<Rightarrow> block" where
  "x65_block type items k =
     \<lparr>m_offset = (if type = EEFULL then x65_pos items k + 1 else x65_pos items k),
      m_size = length (snd (items ! k)), m_layout = LINEAR\<rparr>"

lemma length_x65_header [simp]: "length (x65_header type) = 16"
  by (simp add: x65_header_def EELITE_MAGIC_def EEFULL_MAGIC_def)

lemma length_x65_stored [simp]: "length (x65_stored type v) = length v + 1"
  by (simp add: x65_stored_def)

lemma length_x65_entry [simp]: "length (x65_entry bid n off) = 16"
  by (simp add: x65_entry_def)

lemma length_x65_entries [simp]: "length (x65_entries off items) = length items"
  by (induction off items rule: x65_entries.induct) auto

lemma x65_entries_16: "e \<in> set (x65_entries off items) \<Longrightarrow> length e = 16"
  by (induction off items rule: x65_entries.induct) auto

lemma x65_entries_nth:
  "k < length items \<Longrightarrow> x65_entries off items ! k =
     x65_entry (fst (items ! k)) (length (snd (items ! k)) + 1)
       (off + (\<Sum>v\<leftarrow>map snd (take k items). length v + 1))"
proof (induction off items arbitrary: k rule: x65_entries.induct)
  case (2 off bid v items)
  then show ?case by (cases k) (simp_all add: add.assoc)
qed simp

lemma length_concat_uniform: "\<forall>x \<in> set xs. length x = n \<Longrightarrow> length (concat xs) = length xs * n"
  by (induction xs) auto

lemma chunk_concat_uniform:
  "\<forall>x \<in> set xs. length x = n \<Longrightarrow> k < length xs \<Longrightarrow> chunk (concat xs) (k * n) n = xs ! k"
proof (induction xs arbitrary: k)
  case (Cons x xs)
  then show ?case by (cases k) (auto simp: chunk_def)
qed simp

lemma chunk_append_right: "length xs \<le> off \<Longrightarrow> chunk (xs @ ys) off n = chunk ys (off - length xs) n"
  by (simp add: chunk_def)

lemma chunk_append_left: "off + n \<le> length xs \<Longrightarrow> chunk (xs @ ys) off n = chunk xs off n"
  by (simp add: chunk_def)

lemma length_stored_concat:
  "length (concat (map (x65_stored type \<circ> snd) items)) = (\<Sum>v\<leftarrow>map snd items. length v + 1)"
  by (induction items) auto

lemma length_x65_table: "length (concat (rev (x65_entries off items))) = length items * 16"
  using length_concat_uniform [of "rev (x65_entries off items)" 16] x65_entries_16 by auto

lemma x65_image_parts:
  assumes "x65_fits type items"
  obtains body where
    "x65_image type items = body @ replicate (X65_PARTITION_SIZE - length body - length items * 16) 0xFF
       @ concat (rev (x65_entries 16 items))"
    and "body = x65_header type @ concat (map (x65_stored type \<circ> snd) items)"
    and "length body \<le> PARTITION_STEP" and "16 * length items + 32 \<le> PARTITION_STEP"
proof (rule that)
  show "x65_image type items = (x65_header type @ concat (map (x65_stored type \<circ> snd) items))
      @ replicate (X65_PARTITION_SIZE - length (x65_header type @ concat (map (x65_stored type \<circ> snd) items))
          - length items * 16) 0xFF
      @ concat (rev (x65_entries 16 items))"
    unfolding x65_image_def Let_def length_x65_table ..
qed (use assms in \<open>auto simp: length_stored_concat x65_fits_def simp del: length_concat\<close>)

lemma x65_image_length [simp]:
  assumes "x65_fits type items"
  shows "length (x65_image type items) = X65_PARTITION_SIZE"
proof (rule x65_image_parts [OF assms])
  fix body
  assume "x65_image type items = body @ replicate (X65_PARTITION_SIZE - length body - length items * 16) 0xFF
       @ concat (rev (x65_entries 16 items))"
    and "length body \<le> PARTITION_STEP" and "16 * length items + 32 \<le> PARTITION_STEP"
  then show ?thesis
    by (simp only: length_append length_replicate length_x65_table) (simp add: eeprom_consts)
qed

lemma x65_image_entry:
  assumes fits: "x65_fits type items" and k: "k < length items"
  shows "chunk (x65_image type items) (X65_PARTITION_SIZE - 16 * Suc k) 16
    = x65_entry (fst (items ! k)) (length (snd (items ! k)) + 1) (x65_pos items k)"
proof -
  let ?t = "rev (x65_entries 16 items)"
  let ?n = "length items"
  obtain body where im: "x65_image type items = body @ concat ?t"
    by (simp add: x65_image_def Let_def)
  have tl: "length (concat ?t) = ?n * 16" by (rule length_x65_table)
  have n: "16 * ?n + 32 \<le> PARTITION_STEP" using fits by (simp add: x65_fits_def)
  have lb: "length body = X65_PARTITION_SIZE - ?n * 16"
    using x65_image_length [OF fits] tl im by simp
  have "chunk (x65_image type items) (X65_PARTITION_SIZE - 16 * Suc k) 16
      = chunk (concat ?t) ((?n - Suc k) * 16) 16"
    unfolding im using k lb n
    by (subst chunk_append_right) (auto simp: eeprom_consts diff_mult_distrib mult.commute)
  also have "\<dots> = ?t ! (?n - Suc k)"
    using x65_entries_16 k by (intro chunk_concat_uniform) auto
  also have "\<dots> = x65_entries 16 items ! k" using k by (simp add: rev_nth)
  finally show ?thesis using x65_entries_nth [OF k, of 16] by (simp add: x65_pos_def)
qed

lemma x65_image_erased:
  assumes fits: "x65_fits type items" and lo: "PARTITION_STEP \<le> i" and hi: "i < X65_PARTITION_SIZE - 16 * length items"
  shows "x65_image type items ! i = 0xFF"
proof (rule x65_image_parts [OF fits])
  fix body
  assume im: "x65_image type items = body @ replicate (X65_PARTITION_SIZE - length body - length items * 16) 0xFF
       @ concat (rev (x65_entries 16 items))"
    and lb: "length body \<le> PARTITION_STEP"
  have "i - length body < X65_PARTITION_SIZE - length body - length items * 16" and "\<not> i < length body"
    using lo hi lb by auto
  then show ?thesis unfolding im by (simp add: nth_append)
qed

lemma x65_image_stored:
  assumes fits: "x65_fits type items" and k: "k < length items"
  shows "chunk (x65_image type items) (x65_pos items k) (length (snd (items ! k)) + 1)
    = x65_stored type (snd (items ! k))"
proof -
  obtain rest where im: "x65_image type items
      = (x65_header type @ concat (map (x65_stored type \<circ> snd) items)) @ rest"
    by (simp add: x65_image_def Let_def)
  have items: "items = take k items @ items ! k # drop (Suc k) items"
    using k by (rule id_take_nth_drop)
  have split: "concat (map (x65_stored type \<circ> snd) items)
      = concat (map (x65_stored type \<circ> snd) (take k items)) @ x65_stored type (snd (items ! k))
        @ concat (map (x65_stored type \<circ> snd) (drop (Suc k) items))"
    by (subst items) simp
  have pos: "length (x65_header type @ concat (map (x65_stored type \<circ> snd) (take k items))) = x65_pos items k"
    by (simp add: x65_pos_def length_stored_concat del: length_concat)
  have "x65_image type items
      = (x65_header type @ concat (map (x65_stored type \<circ> snd) (take k items)))
        @ x65_stored type (snd (items ! k)) @ concat (map (x65_stored type \<circ> snd) (drop (Suc k) items)) @ rest"
    unfolding im split by simp
  then show ?thesis unfolding chunk_def pos [symmetric] by simp
qed


lemma readUInt32LE_mid: "length xs = off \<Longrightarrow> readUInt32LE (xs @ le_bytes v @ ys) off = v"
  using u32le.rd_cong [of "xs @ le_bytes v @ ys" off "le_bytes v" 0]
  by (simp add: nth_append)

lemma readUInt32LE_chunk:
  "off + n \<le> length d \<Longrightarrow> k + 4 \<le> n \<Longrightarrow> readUInt32LE d (off + k) = readUInt32LE (chunk d off n) k"
  by (intro u32le.rd_cong) (simp add: add.assoc)

lemma x65_entry_words:
  "readUInt32LE (x65_entry bid n off) 0 = VALID"
  "readUInt32LE (x65_entry bid n off) 4 = bid"
  "readUInt32LE (x65_entry bid n off) 8 = word_of_nat n"
  "readUInt32LE (x65_entry bid n off) 12 = word_of_nat off"
  using readUInt32LE_mid [of "[]" 0 VALID] readUInt32LE_mid [of "le_bytes VALID" 4 bid]
    readUInt32LE_mid [of "le_bytes VALID @ le_bytes bid" 8 "word_of_nat n"]
    readUInt32LE_mid [of "le_bytes VALID @ le_bytes bid @ le_bytes (word_of_nat n)" 12 "word_of_nat off" "[]"]
  by (simp_all add: x65_entry_def)

lemma entry_state_words:
  "VALID AND ENTRY_STATE_MASK = VALID" "isEntryStateValid VALID" "VALID \<noteq> FREE" "isEntryStateValid FREE"
  "(0xFFFFFFFF :: u32) AND ENTRY_STATE_MASK = FREE"
  by (simp_all add: entry_states ENTRY_STATE_MASK_def isEntryStateValid_def)

lemma readUInt32LE_erased:
  "\<forall>i < 4. d ! (off + i) = 0xFF \<Longrightarrow> readUInt32LE d off = 0xFFFFFFFF"
proof -
  assume "\<forall>i < 4. d ! (off + i) = 0xFF"
  then have "readUInt32LE d off = readUInt32LE (replicate 4 0xFF) 0"
    by (intro u32le.rd_cong) simp
  also have "\<dots> = 0xFFFFFFFF" by code_simp
  finally show ?thesis .
qed

lemma x65_pos_bound:
  assumes fits: "x65_fits type items" and k: "k < length items"
  shows "x65_pos items k + length (snd (items ! k)) + 1 \<le> PARTITION_STEP" and "16 \<le> x65_pos items k"
proof -
  have "items = take k items @ items ! k # drop (Suc k) items"
    using k by (rule id_take_nth_drop)
  then have "(\<Sum>v\<leftarrow>map snd items. length v + 1)
      = (\<Sum>v\<leftarrow>map snd (take k items). length v + 1) + (length (snd (items ! k)) + 1)
        + (\<Sum>v\<leftarrow>map snd (drop (Suc k) items). length v + 1)"
    by (metis (mono_tags, lifting) add.assoc list.simps(9) map_append sum_list.Cons sum_list_append)
  then show "x65_pos items k + length (snd (items ! k)) + 1 \<le> PARTITION_STEP"
    using fits by (simp add: x65_fits_def x65_pos_def)
  show "16 \<le> x65_pos items k" by (simp add: x65_pos_def)
qed

lemma entryX65_image:
  assumes fits: "x65_fits type items" and k: "k < length items"
  shows "entryX65 (x65_image type items) type 0 (Suc k)
    = Inr (Store (x65_id type (fst (items ! k))) (x65_block type items k))"
proof -
  define d where "d = x65_image type items"
  define eo where "eo = X65_PARTITION_SIZE - 16 * Suc k"
  define bid where "bid = fst (items ! k)"
  define n where "n = length (snd (items ! k)) + 1"
  define pos where "pos = x65_pos items k"
  have ln: "length (snd (items ! k)) = n - 1" by (simp add: n_def)
  have len: "length d = X65_PARTITION_SIZE" using fits by (simp add: d_def)
  have ks: "16 * Suc k + 16 \<le> X65_PARTITION_SIZE" using fits k by (simp add: x65_fits_def eeprom_consts)
  have eo: "0 + X65_PARTITION_SIZE - X65_ENTRY_SIZE * Suc k = eo" by (simp add: eo_def X65_ENTRY_SIZE_def)
  have eo16: "eo + 16 \<le> length d" using ks by (simp add: len eo_def)
  have entry: "chunk d eo 16 = x65_entry bid n pos"
    using x65_image_entry [OF fits k] by (simp only: d_def eo_def bid_def n_def pos_def)
  have words: "readUInt32LE d eo = VALID" "readUInt32LE d (eo + 4) = bid"
    "readUInt32LE d (eo + 8) = word_of_nat n" "readUInt32LE d (eo + 12) = word_of_nat pos"
    using readUInt32LE_chunk [OF eo16, of 0] readUInt32LE_chunk [OF eo16, of 4]
      readUInt32LE_chunk [OF eo16, of 8] readUInt32LE_chunk [OF eo16, of 12]
    by (simp_all add: entry x65_entry_words)
  have f: "fetch32 d eo = Inr VALID" "fetch32 d (eo + 4) = Inr bid"
    "fetch32 d (eo + 8) = Inr (word_of_nat n)" "fetch32 d (eo + 12) = Inr (word_of_nat pos)"
    using eo16 by (simp_all add: fetch32_def words)
  have bound: "pos + n \<le> PARTITION_STEP" "16 \<le> pos" "1 \<le> n"
    using x65_pos_bound [OF fits k] by (simp_all add: pos_def n_def)
  then have un: "unat (word_of_nat n :: u32) = n" "unat (word_of_nat pos :: u32) = pos"
    by (simp_all add: unat_word_of_nat_small eeprom_consts)
  have nz: "(word_of_nat n :: u32) \<noteq> 0" using un(1) bound(3) by (metis not_one_le_zero unat_0)
  have bid: "\<not> bid > maxId type"
    using fits k by (simp add: x65_fits_def bid_def not_less)
  have range: "\<not> X65_PARTITION_SIZE \<le> pos" "\<not> X65_PARTITION_SIZE - pos < n"
    using bound by (simp_all add: eeprom_consts)
  have stored: "chunk d pos n = x65_stored type (snd (items ! k))"
    using x65_image_stored [OF fits k] by (simp add: d_def pos_def n_def)
  show ?thesis
  proof (cases "type = EEFULL")
    case True
    have "chunk d pos n ! 0 = 0xFF" unfolding stored by (simp add: x65_stored_def True)
    moreover have "chunk d pos n ! 0 = d ! pos" using bound by (simp add: len eeprom_consts)
    ultimately have "fetch d pos = Inr 0xFF" using bound by (simp add: fetch_def len eeprom_consts)
    then have meta: "getEefullMetadataSize d \<lparr>m_offset = pos, m_size = n, m_layout = LINEAR\<rparr> eo = Inr 1"
      using bound by (simp add: getEefullMetadataSize_def byte_offset_linear)
    show ?thesis
      unfolding entryX65_def d_def [symmetric] eo
      using f nz bid range meta True
      by (simp add: bid_def [symmetric] entry_state_words un Let_def x65_id_def x65_block_def
          pos_def [symmetric] ln del: ebind_Inr_iff)
  next
    case False
    show ?thesis
      unfolding entryX65_def d_def [symmetric] eo
      using f nz bid range False
      by (simp add: bid_def [symmetric] entry_state_words un Let_def x65_id_def x65_block_def
          pos_def [symmetric] ln del: ebind_Inr_iff)
  qed
qed

lemma entryX65_image_end:
  assumes fits: "x65_fits type items"
  shows "entryX65 (x65_image type items) type 0 (Suc (length items)) = Inr Stop"
proof -
  let ?d = "x65_image type items"
  define eo where "eo = X65_PARTITION_SIZE - 16 * Suc (length items)"
  have n: "16 * length items + 32 \<le> PARTITION_STEP" using fits by (simp add: x65_fits_def)
  then have eo: "eo + 16 = X65_PARTITION_SIZE - 16 * length items" "PARTITION_STEP \<le> eo"
    by (simp_all add: eo_def eeprom_consts)
  have "fetch32 ?d eo = Inr 0xFFFFFFFF"
    unfolding fetch32_def
    using eo fits x65_image_erased [OF fits] by (subst readUInt32LE_erased) auto
  moreover have at: "0 + X65_PARTITION_SIZE - X65_ENTRY_SIZE * Suc (length items) = eo"
    by (simp add: eo_def X65_ENTRY_SIZE_def)
  ultimately show ?thesis
    unfolding entryX65_def at by (simp add: entry_state_words Let_def del: ebind_Inr_iff)
qed


text \<open>Parsing such an image stores the items in table order, the first one for an id winning.\<close>

definition x65_blocks :: "PartitionType \<Rightarrow> (u32 \<times> u8 list) list \<Rightarrow> nat list \<Rightarrow> (u32 \<Rightarrow> block option)
    \<Rightarrow> u32 \<Rightarrow> block option" where
  "x65_blocks type items ks blocks =
     fold (\<lambda>k m. try_emplace m (x65_id type (fst (items ! k))) (x65_block type items k)) ks blocks"

lemma entriesX65_image:
  assumes fits: "x65_fits type items"
  shows "j \<le> length items \<Longrightarrow>
    entriesX65 (x65_image type items) type 0 [Suc j..<8191 + 1] blocks
      = Inr (x65_blocks type items [j..<length items] blocks)"
proof (induction "length items - j" arbitrary: j blocks)
  case 0
  have "16 * length items + 32 \<le> PARTITION_STEP" using fits by (simp add: x65_fits_def)
  then have "[Suc j..<8191 + 1] = Suc j # [Suc (Suc j)..<8191 + 1]"
    using 0 by (intro upt_conv_Cons) (simp add: eeprom_consts)
  then show ?case
    using 0 entryX65_image_end [OF fits] by (simp add: x65_blocks_def)
next
  case (Suc m)
  then have j: "j < length items" by simp
  have "16 * length items + 32 \<le> PARTITION_STEP" using fits by (simp add: x65_fits_def)
  then have "[Suc j..<8191 + 1] = Suc j # [Suc (Suc j)..<8191 + 1]"
    using j by (intro upt_conv_Cons) (simp add: eeprom_consts)
  moreover have "[j..<length items] = j # [Suc j..<length items]" using j by (rule upt_conv_Cons)
  ultimately show ?case
    using Suc.hyps(1) [of "Suc j"] Suc.hyps(2) j entryX65_image [OF fits j]
    by (simp add: x65_blocks_def)
qed

lemma x65_blocks_lookup:
  assumes "\<forall>k \<in> set ks. k < length items"
  shows "x65_blocks type items ks blocks i = (case blocks i of Some b \<Rightarrow> Some b
    | None \<Rightarrow> map_of (map (\<lambda>k. (x65_id type (fst (items ! k)), x65_block type items k)) ks) i)"
  using assms
proof (induction ks arbitrary: blocks)
  case Nil
  then show ?case by (simp add: x65_blocks_def split: option.split)
next
  case (Cons k ks)
  then show ?case
    by (auto simp: x65_blocks_def try_emplace_def split: option.splits)
qed

lemma x65_image_head:
  assumes "x65_fits type items"
  shows "chunk (x65_image type items) 0 16 = x65_header type"
  by (simp add: x65_image_def Let_def chunk_def)

lemma fetch_chunk:
  "off + n \<le> length d \<Longrightarrow> i < n \<Longrightarrow> fetch d (off + i) = Inr (chunk d off n ! i)"
  by (simp add: fetch_def)

lemma readPartitionType_header:
  assumes "chunk d off 16 = x65_header type" and "off + 16 \<le> length d" and "type \<noteq> UNKNOWN_PARTITION"
  shows "readPartitionType d X65 off = Inr type"
proof -
  have magic: "fetch_bytes d off 8 = Inr (if type = EELITE then EELITE_MAGIC else EEFULL_MAGIC)"
  proof -
    have "chunk d off 8 = take 8 (chunk d off 16)" by (simp add: chunk_def)
    then show ?thesis using assms by (auto simp: fetch_bytes_def x65_header_def EELITE_MAGIC_def EEFULL_MAGIC_def)
  qed
  have b: "fetch d (off + i) = Inr (x65_header type ! i)" if "i < 16" for i
    using fetch_chunk [OF assms(2) that] by (simp add: assms(1))
  have h: "x65_header type ! 10 = 0" "x65_header type ! 11 = 0" "x65_header type ! 12 = 0xF0"
    "x65_header type ! 13 = 0xFF" "x65_header type ! 14 = 0xFF" "x65_header type ! 15 = 0xFF"
    by (simp_all add: x65_header_def EELITE_MAGIC_def EEFULL_MAGIC_def)
  have bytes: "fetch d (off + 10) = Inr 0" "fetch d (off + 11) = Inr 0" "fetch d (off + 12) = Inr 0xF0"
    "fetch d (off + 13) = Inr 0xFF" "fetch d (off + 14) = Inr 0xFF" "fetch d (off + 15) = Inr 0xFF"
    by (simp_all only: b h)
  have idx: "[13..<16] = [13, 14, 15 :: nat]" by (simp add: upt_rec)
  have type: "EELITE_MAGIC \<noteq> EEFULL_MAGIC" by (simp add: EELITE_MAGIC_def EEFULL_MAGIC_def)
  show ?thesis
    unfolding readPartitionType_def
    using assms(2,3) magic bytes type
    by (cases type) (simp_all add: Let_def X65_HEADER_SIZE_def idx del: ebind_Inr_iff)
qed

lemma readPartitionType_erased:
  assumes "d ! off = 0xFF" and "off + 16 \<le> length d"
  shows "readPartitionType d X65 off = Inr UNKNOWN_PARTITION"
proof -
  have "chunk d off 8 ! 0 = 0xFF" using assms by simp
  then have "chunk d off 8 \<noteq> EELITE_MAGIC \<and> chunk d off 8 \<noteq> EEFULL_MAGIC"
    by (auto simp: EELITE_MAGIC_def EEFULL_MAGIC_def)
  then show ?thesis
    using assms(2) by (simp add: readPartitionType_def Let_def X65_HEADER_SIZE_def fetch_bytes_def)
qed

lemma parse_x65_image:
  assumes fits: "x65_fits type items"
  shows "parsePartitions (x65_image type items) =
    Inr \<lparr>m_data = x65_image type items, eeprom_layout = X65,
         m_blocks = x65_blocks type items [0..<length items] Map.empty\<rparr>"
proof -
  let ?d = "x65_image type items"
  have len: "length ?d = 131072" using fits by (simp add: X65_PARTITION_SIZE_def)
  have offs: "map (\<lambda>k. k * PARTITION_STEP) [0..<(length ?d + PARTITION_STEP - 1) div PARTITION_STEP]
      = [0, PARTITION_STEP]"
    by (simp add: len PARTITION_STEP_def upt_rec)
  have t: "type \<noteq> UNKNOWN_PARTITION" using fits by (simp add: x65_fits_def)
  have first: "readPartitionType ?d X65 0 = Inr type"
    using x65_image_head [OF fits] t by (intro readPartitionType_header) (simp_all add: len)
  have "?d ! PARTITION_STEP = 0xFF"
    using fits by (intro x65_image_erased) (auto simp: x65_fits_def eeprom_consts)
  then have second: "readPartitionType ?d X65 PARTITION_STEP = Inr UNKNOWN_PARTITION"
    by (rule readPartitionType_erased) (simp add: len PARTITION_STEP_def)
  have entries: "entriesX65 ?d type 0 [1..<8191 + 1] Map.empty
      = Inr (x65_blocks type items [0..<length items] Map.empty)"
    using entriesX65_image [OF fits, of 0] by simp
  have size: "\<not> 0 + X65_PARTITION_SIZE > length ?d" by (simp add: len X65_PARTITION_SIZE_def)
  have part: "parsePartitionX65 type 0 \<lparr>m_data = ?d, eeprom_layout = UNKNOWN_LAYOUT, m_blocks = Map.empty\<rparr>
      = Inr \<lparr>m_data = ?d, eeprom_layout = UNKNOWN_LAYOUT,
          m_blocks = x65_blocks type items [0..<length items] Map.empty\<rparr>"
    unfolding parsePartitionX65_def Let_def partition_count
    by (simp only: eeprom.select_convs eeprom.update_convs entries ebind.simps size if_False)
  show ?thesis
    unfolding parsePartitions_def offs
    by (simp add: scanX65_def scanX85_def first second t part del: ebind_Inr_iff)
qed


lemma x65_blocks_map_of:
  "x65_blocks type items [0..<length items] Map.empty bid =
     map_of (map (\<lambda>k. (x65_id type (fst (items ! k)), x65_block type items k)) [0..<length items]) bid"
  by (subst x65_blocks_lookup) auto

lemma map_of_index:
  "map_of (map (\<lambda>k. (f (fst (items ! k)), g k)) [0..<length items]) i =
     map_option g (List.find (\<lambda>k. f (fst (items ! k)) = i) [0..<length items])"
proof -
  have "map_of (map (\<lambda>k. (f (fst (items ! k)), g k)) ks) i
      = map_option g (List.find (\<lambda>k. f (fst (items ! k)) = i) ks)" for ks
    by (induction ks) auto
  then show ?thesis .
qed

lemma map_of_find:
  "map_of (map (\<lambda>(bid, v). (f bid, v)) items) i =
     map_option (\<lambda>k. snd (items ! k)) (List.find (\<lambda>k. f (fst (items ! k)) = i) [0..<length items])"
proof -
  have "map (\<lambda>(bid, v). (f bid, v)) items = map (\<lambda>k. (f (fst (items ! k)), snd (items ! k))) [0..<length items]"
    by (intro nth_equalityI) (auto simp: case_prod_unfold)
  then show ?thesis using map_of_index [of f items "\<lambda>k. snd (items ! k)" i] by simp
qed

lemma x65_block_bytes:
  assumes fits: "x65_fits type items" and k: "k < length items"
  shows "block_bytes (x65_image type items) (x65_block type items k) = snd (items ! k)"
proof -
  let ?d = "x65_image type items" and ?v = "snd (items ! k)" and ?p = "x65_pos items k"
  have len: "length ?d = X65_PARTITION_SIZE" using fits by simp
  have bound: "?p + length ?v + 1 \<le> PARTITION_STEP" by (rule x65_pos_bound [OF fits k])
  have at: "?d ! (?p + i) = x65_stored type ?v ! i" if "i < length ?v + 1" for i
  proof -
    have "chunk ?d ?p (length ?v + 1) ! i = ?d ! (?p + i)"
      using that bound by (intro nth_chunk) (simp_all add: len eeprom_consts)
    then show ?thesis by (simp only: x65_image_stored [OF fits k])
  qed
  have off: "getBlockByteOffset (x65_block type items k) i
      = (if type = EEFULL then ?p + Suc i else ?p + i)" for i
    by (simp add: x65_block_def byte_offset_linear)
  have t: "type = EELITE \<or> type = EEFULL" using fits by (cases type) (auto simp: x65_fits_def)
  show ?thesis
  proof (rule nth_equalityI)
    show "length (block_bytes ?d (x65_block type items k)) = length ?v"
      by (simp add: block_bytes_def x65_block_def)
    fix i assume "i < length (block_bytes ?d (x65_block type items k))"
    then have i: "i < length ?v" by (simp add: block_bytes_def x65_block_def)
    have "block_bytes ?d (x65_block type items k) ! i = ?d ! (if type = EEFULL then ?p + Suc i else ?p + i)"
      using i by (simp add: block_bytes_def x65_block_def off [unfolded x65_block_def])
    also have "\<dots> = ?v ! i"
      using t i at [of i] at [of "Suc i"] by (auto simp: x65_stored_def nth_append)
    finally show "block_bytes ?d (x65_block type items k) ! i = ?v ! i" .
  qed
qed

text \<open>Duplicate ids: the last store of the table scan wins in X85, the first one in X65.\<close>

definition stored_by :: "(nat \<Rightarrow> eeprom_error + entry_step) \<Rightarrow> u32 \<Rightarrow> nat \<Rightarrow> block option" where
  "stored_by entry bid index =
     (case entry index of Inr (Store b blk) \<Rightarrow> if b = bid then Some blk else None | _ \<Rightarrow> None)"

lemma stored_by_step:
  "entry i = Inr Skip \<Longrightarrow> stored_by entry bid i = None"
  "entry i = Inr (Store b blk) \<Longrightarrow> stored_by entry bid i = (if b = bid then Some blk else None)"
  by (simp_all add: stored_by_def)

lemma entryX85_not_Stop: "entryX85 data type po index \<noteq> Inr Stop"
  by (auto simp: entryX85_def Let_def split: if_splits)

section \<open>Properties\<close>

text \<open>C2. Parsing is safe on every byte sequence: the constructor either throws one of its own
  exceptions, never reading outside the vector, or leaves the image as it is and yields blocks each
  of which lies entirely in a partition whose header was found in the image, with an id of the
  class of that header.\<close>

theorem eeprom_parse_safe:
  "case parsePartitions data of
     Inl err \<Rightarrow> \<not> is_oob err
   | Inr e \<Rightarrow> m_data e = data \<and> blocks_home data (eeprom_layout e) (m_blocks e)"
proof (cases "parsePartitions data")
  case (Inl err)
  have "never is_oob (parsePartitions data)"
    unfolding parsePartitions_def by (rule scan_loop_safe)
  then show ?thesis using Inl by simp
next
  case (Inr e)
  then show ?thesis using parsePartitions_ok [OF Inr] by (simp add: scan_ok_def)
qed

text \<open>C17. Reading and writing through a parsed store: on every branch.  A block that does not exist
  gives BlockNotFound, a value of another size BlockSizeMismatch; otherwise the read returns as
  many bytes as the size of the block and the write succeeds.  No access leaves the image.\<close>

theorem eeprom_access:
  assumes "parsePartitions data = Inr e"
  shows "case m_blocks e bid of
      None \<Rightarrow> readBlock e bid = Inl (BlockNotFound bid) \<and> getBlockSize e bid = Inl (BlockNotFound bid)
        \<and> writeBlock e bid value = Inl (BlockNotFound bid) \<and> \<not> hasBlock e bid
    | Some blk \<Rightarrow> readBlock e bid = Inr (map (\<lambda>i. data ! getBlockByteOffset blk i) [0..<m_size blk])
        \<and> getBlockSize e bid = Inr (m_size blk) \<and> hasBlock e bid
        \<and> (if length value = m_size blk then is_ok (writeBlock e bid value)
           else writeBlock e bid value = Inl (BlockSizeMismatch bid (length value) (m_size blk)))"
  using parsePartitions_wf [OF assms] readBlock_bytes [of e bid]
  by (auto simp: readBlock_def getBlockSize_def getBlockMetadata_def hasBlock_def writeBlock_error
      writeBlock_written block_bytes_def split: option.split)

text \<open>C7. A write to a block of a store keeps the length of the image and the metadata of every
  block; the value reads back; blocks that share no byte with it read as before; the returned flag
  says whether the image differs; and writing the same value again changes nothing.\<close>

theorem eeprom_write:
  assumes "eeprom_wf e" and "writeBlock e bid value = Inr (e', changed)"
  shows "eeprom_wf e' \<and> readBlock e' bid = Inr value \<and> (changed \<longleftrightarrow> m_data e' \<noteq> m_data e)
    \<and> length (m_data e') = length (m_data e) \<and> m_blocks e' = m_blocks e
    \<and> (\<forall>k. blocks_apart e bid k \<longrightarrow> readBlock e' k = readBlock e k)
    \<and> writeBlock e' bid value = Inr (e', False)"
  using store.put_inv [OF assms] store.get_put [OF assms] store.put_changed [OF assms]
    store.put_length [OF assms] writeBlock_blocks [OF assms(2)] store.get_put_apart [OF assms]
    store.put_twice [OF assms]
  by blast




text \<open>Duplicate ids in an X85 table: the last valid entry scanned for an id replaces what was
  known about it.\<close>

theorem x85_last_wins:
  assumes "entriesX85 data type po is blocks = Inr blocks'"
  shows "blocks' bid = (case List.map_filter (stored_by (entryX85 data type po) bid) is of
      [] \<Rightarrow> blocks bid | found \<Rightarrow> Some (last found))"
  using assms
proof (induction "is" arbitrary: blocks)
  case Nil
  then show ?case by (simp add: map_filter_simps)
next
  case (Cons i rest)
  from Cons.prems obtain step where step: "entryX85 data type po i = Inr step" by auto
  show ?case
  proof (cases step)
    case Stop
    then show ?thesis using step entryX85_not_Stop [of data type po i] by simp
  next
    case Skip
    then show ?thesis using Cons.IH Cons.prems step by (simp add: map_filter_simps stored_by_step)
  next
    case (Store b blk)
    have "entriesX85 data type po rest (insert_or_assign blocks b blk) = Inr blocks'"
      using Cons.prems step Store by simp
    from Cons.IH [OF this] show ?thesis
      using step Store
      by (simp add: map_filter_simps stored_by_step insert_or_assign_def split: list.split)
  qed
qed

text \<open>Duplicate ids in an X65 table: a block that is already known stays; otherwise the first
  valid entry for the id before the end of the table is taken.\<close>

theorem x65_first_wins:
  assumes "entriesX65 data type po is blocks = Inr blocks'"
  shows "blocks' bid = (case blocks bid of Some blk \<Rightarrow> Some blk
      | None \<Rightarrow> (case List.map_filter (stored_by (entryX65 data type po) bid)
            (takeWhile (\<lambda>i. entryX65 data type po i \<noteq> Inr Stop) is) of
          [] \<Rightarrow> None | blk # _ \<Rightarrow> Some blk))"
  using assms
proof (induction "is" arbitrary: blocks)
  case Nil
  then show ?case by simp
next
  case (Cons i rest)
  from Cons.prems obtain step where step: "entryX65 data type po i = Inr step" by auto
  show ?case
  proof (cases step)
    case Stop
    then show ?thesis using Cons.prems step by (simp add: map_filter_simps split: option.split)
  next
    case Skip
    then show ?thesis using Cons.IH Cons.prems step
      by (simp add: map_filter_simps stored_by_step split: option.split)
  next
    case (Store b blk)
    have "entriesX65 data type po rest (try_emplace blocks b blk) = Inr blocks'"
      using Cons.prems step Store by simp
    from Cons.IH [OF this] show ?thesis
      using step Store
      by (auto simp: map_filter_simps stored_by_step try_emplace_def split: option.splits)
  qed
qed

section \<open>Witnesses\<close>

definition sample_image :: "u8 list" where
  "sample_image = x65_image EELITE [(52, [1, 2, 3, 4]), (76, [9, 9]), (52, [5])]"

lemma sample_fits: "x65_fits EELITE [(52, [1, 2, 3, 4]), (76, [9, 9]), (52, [5])]"
  by (simp add: x65_fits_def PARTITION_STEP_def maxId_def EEFULL_ID_OFFSET_def)

lemma sample_parse:
  obtains e where "parsePartitions sample_image = Inr e" and "eeprom_wf e"
    and "m_blocks e 52 = Some \<lparr>m_offset = 16, m_size = 4, m_layout = LINEAR\<rparr>" and "m_blocks e 77 = None"
  using parse_x65_image [OF sample_fits] parsePartitions_wf [OF parse_x65_image [OF sample_fits]]
  by (auto simp: sample_image_def x65_blocks_def try_emplace_def x65_id_def x65_block_def x65_pos_def upt_rec)


theorem eeprom_access_witness:
  "\<exists>e. parsePartitions sample_image = Inr e \<and> readBlock e 77 = Inl (BlockNotFound 77)
    \<and> writeBlock e 52 [1] = Inl (BlockSizeMismatch 52 1 4)"
proof (rule sample_parse)
  fix e
  assume parse: "parsePartitions sample_image = Inr e"
    and "m_blocks e 52 = Some \<lparr>m_offset = 16, m_size = 4, m_layout = LINEAR\<rparr>" "m_blocks e 77 = None"
  then show ?thesis
    using eeprom_access [OF parse, of 52 "[1]"] eeprom_access [OF parse, of 77 "[]"] by auto
qed

theorem eeprom_write_witness:
  "\<exists>e e'. parsePartitions sample_image = Inr e \<and> writeBlock e 52 [1, 2, 7, 4] = Inr (e', m_data e' \<noteq> m_data e)
    \<and> readBlock e' 52 = Inr [1, 2, 7, 4]"
proof (rule sample_parse)
  fix e
  assume parse: "parsePartitions sample_image = Inr e" and wf: "eeprom_wf e"
    and blk: "m_blocks e 52 = Some \<lparr>m_offset = 16, m_size = 4, m_layout = LINEAR\<rparr>"
  from writeBlock_written [OF wf blk, of "[1, 2, 7, 4]"]
  obtain e' c where "writeBlock e 52 [1, 2, 7, 4] = Inr (e', c)" by auto
  then show ?thesis using eeprom_write [OF wf] parse by blast
qed


theorem x85_last_wins_witness:
  "\<exists>blocks. entriesX85 (x65_entry 52 17 0) EELITE 0 [8191]
      [52 \<mapsto> \<lparr>m_offset = 7, m_size = 7, m_layout = STRIDED\<rparr>] = Inr blocks
    \<and> blocks 52 = Some \<lparr>m_offset = 0, m_size = 17, m_layout = LINEAR\<rparr>"
proof -
  let ?d = "x65_entry 52 17 0" and ?b = "\<lparr>m_offset = 7, m_size = 7, m_layout = STRIDED\<rparr>"
  have "readUInt16LE ?d 8 = 17" "readUInt16LE ?d 4 = 52" by code_simp+
  then have e: "entryX85 ?d EELITE 0 8191 = Inr (Store 52 \<lparr>m_offset = 0, m_size = 17, m_layout = LINEAR\<rparr>)"
    by (simp add: entryX85_def locateX85_def fetch32_def fetch_field_def fetch16_def Let_def eeprom_consts
        x65_entry_words entry_state_words maxId_def del: ebind_Inr_iff)
  have run: "entriesX85 ?d EELITE 0 [8191] [52 \<mapsto> ?b] = Inr (insert_or_assign
      [52 \<mapsto> ?b] 52 \<lparr>m_offset = 0, m_size = 17, m_layout = LINEAR\<rparr>)"
    by (simp add: e del: ebind_Inr_iff)
  show ?thesis
    using run x85_last_wins [OF run, of 52] by (simp add: map_filter_simps stored_by_step e)
qed

theorem x65_first_wins_witness:
  "\<exists>blocks. entriesX65 sample_image EELITE 0 [1, 2, 3, 4] Map.empty = Inr blocks
    \<and> blocks 52 = Some \<lparr>m_offset = 16, m_size = 4, m_layout = LINEAR\<rparr>"
proof -
  let ?items = "[(52, [1, 2, 3, 4]), (76, [9, 9]), (52, [5])] :: (u32 \<times> u8 list) list"
  have e: "entryX65 sample_image EELITE 0 1 = Inr (Store 52 \<lparr>m_offset = 16, m_size = 4, m_layout = LINEAR\<rparr>)"
    "entryX65 sample_image EELITE 0 2 = Inr (Store 76 \<lparr>m_offset = 21, m_size = 2, m_layout = LINEAR\<rparr>)"
    "entryX65 sample_image EELITE 0 3 = Inr (Store 52 \<lparr>m_offset = 24, m_size = 1, m_layout = LINEAR\<rparr>)"
    "entryX65 sample_image EELITE 0 4 = Inr Stop"
    using entryX65_image [OF sample_fits, of 0] entryX65_image [OF sample_fits, of 1]
      entryX65_image [OF sample_fits, of 2] entryX65_image_end [OF sample_fits]
    by (simp_all add: sample_image_def x65_block_def x65_pos_def x65_id_def eval_nat_numeral)
  obtain blocks where run: "entriesX65 sample_image EELITE 0 [1, 2, 3, 4] Map.empty = Inr blocks"
    by (simp add: e [unfolded One_nat_def] del: ebind_Inr_iff)
  show ?thesis
    using run x65_first_wins [OF run, of 52] by (simp add: map_filter_simps stored_by_step e [unfolded One_nat_def])
qed

end
