(* ===== verification/Md4.thy ===== *)
theory Md4
  imports Binary
begin

text \<open>
  src/crypto/md4.cpp: MD4 of a message of exactly 64 bytes.  \<open>md4_compressBlock\<close> is the
  file-local \<open>compressBlock\<close>; the four state words are a tuple, the three rounds are folds over
  the loop index.  The reference at the end is RFC 1320 in its own terms (registers updated in
  place, padding of a message of any length); \<open>md4\<close> agrees with it on 64-byte messages.
\<close>

section \<open>The code\<close>

type_synonym md4_state = "u32 \<times> u32 \<times> u32 \<times> u32"

definition MD4_FIRST_SHIFTS :: "nat list" where
  "MD4_FIRST_SHIFTS = [3, 7, 11, 19]"

definition MD4_SECOND_SHIFTS :: "nat list" where
  "MD4_SECOND_SHIFTS = [3, 5, 9, 13]"

definition MD4_THIRD_SHIFTS :: "nat list" where
  "MD4_THIRD_SHIFTS = [3, 9, 11, 15]"

definition MD4_THIRD_OFFSETS :: "nat list" where
  "MD4_THIRD_OFFSETS = [0, 8, 4, 12, 2, 10, 6, 14, 1, 9, 5, 13, 3, 11, 7, 15]"

fun md4_round1 :: "u32 list \<Rightarrow> nat \<Rightarrow> md4_state \<Rightarrow> md4_state" where
  "md4_round1 words index (a, b, c, d) =
     (let value = a + ((b AND c) OR (NOT b AND d)) + words ! index
      in (d, word_rotl (MD4_FIRST_SHIFTS ! (index mod 4)) value, b, c))"

fun md4_round2 :: "u32 list \<Rightarrow> nat \<Rightarrow> md4_state \<Rightarrow> md4_state" where
  "md4_round2 words index (a, b, c, d) =
     (let offset = (index mod 4) * 4 + index div 4;
          value = a + ((b AND c) OR (b AND d) OR (c AND d)) + words ! offset + 0x5A827999
      in (d, word_rotl (MD4_SECOND_SHIFTS ! (index mod 4)) value, b, c))"

fun md4_round3 :: "u32 list \<Rightarrow> nat \<Rightarrow> md4_state \<Rightarrow> md4_state" where
  "md4_round3 words index (a, b, c, d) =
     (let value = a + (b XOR c XOR d) + words ! (MD4_THIRD_OFFSETS ! index) + 0x6ED9EBA1
      in (d, word_rotl (MD4_THIRD_SHIFTS ! (index mod 4)) value, b, c))"

fun md4_add_state :: "md4_state \<Rightarrow> md4_state \<Rightarrow> md4_state" where
  "md4_add_state (s0, s1, s2, s3) (a, b, c, d) = (s0 + a, s1 + b, s2 + c, s3 + d)"

definition md4_compressBlock :: "md4_state \<Rightarrow> u8 list \<Rightarrow> nat \<Rightarrow> md4_state" where
  "md4_compressBlock state block off =
     (let words = map (\<lambda>index. readUInt32LE block (off + index * 4)) [0..<16];
          s1 = fold (md4_round1 words) [0..<16] state;
          s2 = fold (md4_round2 words) [0..<16] s1;
          s3 = fold (md4_round3 words) [0..<16] s2
      in md4_add_state state s3)"

definition MD4_INITIAL_STATE :: md4_state where
  "MD4_INITIAL_STATE = (0x67452301, 0xEFCDAB89, 0x98BADCFE, 0x10325476)"

definition md4_padding :: "u8 list" where
  "md4_padding = writeUInt32LE (0x80 # replicate 63 0) 56 512"

fun md4_result :: "md4_state \<Rightarrow> u8 list" where
  "md4_result (s0, s1, s2, s3) =
     writeUInt32LE (writeUInt32LE (writeUInt32LE (writeUInt32LE (replicate 16 0) 0 s0) 4 s1) 8 s2) 12 s3"

definition md4 :: "u8 list \<Rightarrow> u8 list" where
  "md4 data =
     md4_result (md4_compressBlock (md4_compressBlock MD4_INITIAL_STATE data 0) md4_padding 0)"

section \<open>RFC 1320\<close>

text \<open>
  The RFC numbers the registers A, B, C, D and writes a step as \<open>[ABCD k s]\<close>,
  \<open>[DABC k s]\<close> and so on: the first letter is the register that is overwritten.  Step \<open>i\<close> of
  a round therefore overwrites register \<open>(4 - i) mod 4\<close>.
\<close>

definition rfc1320_F :: "u32 \<Rightarrow> u32 \<Rightarrow> u32 \<Rightarrow> u32" where
  "rfc1320_F x y z = (x AND y) OR (NOT x AND z)"

definition rfc1320_G :: "u32 \<Rightarrow> u32 \<Rightarrow> u32 \<Rightarrow> u32" where
  "rfc1320_G x y z = (x AND y) OR (x AND z) OR (y AND z)"

definition rfc1320_H :: "u32 \<Rightarrow> u32 \<Rightarrow> u32 \<Rightarrow> u32" where
  "rfc1320_H x y z = x XOR y XOR z"

definition rfc1320_op ::
  "(u32 \<Rightarrow> u32 \<Rightarrow> u32 \<Rightarrow> u32) \<Rightarrow> u32 \<Rightarrow> nat list \<Rightarrow> nat list \<Rightarrow> u32 list \<Rightarrow> nat \<Rightarrow> u32 list \<Rightarrow> u32 list" where
  "rfc1320_op f const ks ss X i r =
     (let p = (4 - i mod 4) mod 4
      in r[p := word_rotl (ss ! (i mod 4))
              (r ! p + f (r ! ((p + 1) mod 4)) (r ! ((p + 2) mod 4)) (r ! ((p + 3) mod 4))
                + X ! (ks ! i) + const)])"

definition rfc1320_block :: "u32 list \<Rightarrow> u32 list \<Rightarrow> u32 list" where
  "rfc1320_block X r =
     (let r1 = fold (rfc1320_op rfc1320_F 0
            [0, 1, 2, 3, 4, 5, 6, 7, 8, 9, 10, 11, 12, 13, 14, 15] [3, 7, 11, 19] X) [0..<16] r;
          r2 = fold (rfc1320_op rfc1320_G 0x5A827999
            [0, 4, 8, 12, 1, 5, 9, 13, 2, 6, 10, 14, 3, 7, 11, 15] [3, 5, 9, 13] X) [0..<16] r1;
          r3 = fold (rfc1320_op rfc1320_H 0x6ED9EBA1
            [0, 8, 4, 12, 2, 10, 6, 14, 1, 9, 5, 13, 3, 11, 7, 15] [3, 9, 11, 15] X) [0..<16] r2
      in map2 (+) r r3)"

text \<open>Padding: a one bit, zeros up to 56 modulo 64, and the bit length as 64 bits, little-endian.\<close>

definition rfc_pad :: "u8 list \<Rightarrow> u8 list" where
  "rfc_pad m = m @ [0x80] @ replicate ((119 - length m mod 64) mod 64) 0
     @ map (\<lambda>i. ucast (drop_bit (8 * i) (of_nat (8 * length m) :: u64))) [0..<8]"

definition rfc_words :: "u8 list \<Rightarrow> nat \<Rightarrow> u32 list" where
  "rfc_words m k = map (\<lambda>i. readUInt32LE m (64 * k + 4 * i)) [0..<16]"

definition rfc_digest :: "u32 list \<Rightarrow> u8 list" where
  "rfc_digest r = concat (map le_bytes r)"

definition rfc1320_md4 :: "u8 list \<Rightarrow> u8 list" where
  "rfc1320_md4 m =
     rfc_digest (fold (\<lambda>k. rfc1320_block (rfc_words (rfc_pad m) k)) [0..<length (rfc_pad m) div 64]
       [0x67452301, 0xEFCDAB89, 0x98BADCFE, 0x10325476])"

section \<open>Agreement\<close>

text \<open>
  The code renames its four variables after each step where the RFC keeps them in place: after
  \<open>i\<close> steps the code's tuple is the RFC's register list rotated by \<open>i\<close>.
\<close>

definition regs_at :: "nat \<Rightarrow> u32 list \<Rightarrow> u32 \<times> u32 \<times> u32 \<times> u32" where
  "regs_at i r = (let p = (4 - i mod 4) mod 4
     in (r ! p, r ! ((p + 1) mod 4), r ! ((p + 2) mod 4), r ! ((p + 3) mod 4)))"

definition rename_step ::
  "(u32 \<Rightarrow> u32 \<Rightarrow> u32 \<Rightarrow> u32) \<Rightarrow> u32 \<Rightarrow> u32 \<Rightarrow> nat \<Rightarrow> md4_state \<Rightarrow> md4_state" where
  "rename_step f w const s st = (case st of (a, b, c, d) \<Rightarrow>
     (d, word_rotl s (a + f b c d + w + const), b, c))"

lemma mod4_cases:
  obtains "i mod 4 = (0::nat)" | "i mod 4 = 1" | "i mod 4 = 2" | "i mod 4 = 3"
  by linarith

lemma mod4_Suc: "Suc i mod 4 = (if i mod 4 = 3 then 0 else Suc (i mod 4))"
  by (simp add: mod_Suc)

lemma rename_step_regs_at:
  assumes "length r = 4"
  shows "rename_step f (X ! (ks ! i)) const (ss ! (i mod 4)) (regs_at i r)
    = regs_at (Suc i) (rfc1320_op f const ks ss X i r)"
  by (rule mod4_cases [of i])
    (use assms in \<open>simp_all add: rename_step_def regs_at_def rfc1320_op_def Let_def mod4_Suc
       numeral_2_eq_2 numeral_3_eq_3\<close>)

lemma length_rfc1320_op [simp]: "length (rfc1320_op f const ks ss X i r) = length r"
  by (simp add: rfc1320_op_def Let_def)

lemma length_fold_rfc1320_op [simp]: "length (fold (rfc1320_op f const ks ss X) is r) = length r"
  by (induction "is" arbitrary: r) auto

lemma round_agrees:
  assumes step: "\<And>i st. i < n \<Longrightarrow> g i st = rename_step f (X ! (ks ! i)) const (ss ! (i mod 4)) st"
    and len: "length r = 4"
  shows "fold g [0..<n] (regs_at 0 r) = regs_at n (fold (rfc1320_op f const ks ss X) [0..<n] r)"
  using step by (induction n) (simp_all add: rename_step_regs_at len)

lemma list4_cases:
  assumes "length r = 4"
  obtains a b c d where "r = [a, b, c, d]"
  using assms by (auto simp: length_Suc_conv eval_nat_numeral)

lemma regs_at_mult4:
  "n mod 4 = 0 \<Longrightarrow> regs_at n r = regs_at 0 r"
  by (simp add: regs_at_def)

lemma round_agrees16:
  assumes "\<And>i st. i < 16 \<Longrightarrow> g i st = rename_step f (X ! (ks ! i)) const (ss ! (i mod 4)) st"
    and "length r = 4"
  shows "fold g [0..<16] (regs_at 0 r) = regs_at 0 (fold (rfc1320_op f const ks ss X) [0..<16] r)"
  using round_agrees [of 16 g f X ks const ss r] assms regs_at_mult4 [of 16] by simp

lemma md4_round1_rename:
  "md4_round1 X i st = rename_step rfc1320_F (X ! i) 0 ([3, 7, 11, 19] ! (i mod 4)) st"
  by (cases st) (simp add: rename_step_def rfc1320_F_def MD4_FIRST_SHIFTS_def)

lemma md4_round2_rename:
  "md4_round2 X i st =
     rename_step rfc1320_G (X ! ((i mod 4) * 4 + i div 4)) 0x5A827999 ([3, 5, 9, 13] ! (i mod 4)) st"
  by (cases st) (simp add: rename_step_def rfc1320_G_def MD4_SECOND_SHIFTS_def)

lemma md4_round3_rename:
  "md4_round3 X i st =
     rename_step rfc1320_H (X ! ([0, 8, 4, 12, 2, 10, 6, 14, 1, 9, 5, 13, 3, 11, 7, 15] ! i))
       0x6ED9EBA1 ([3, 9, 11, 15] ! (i mod 4)) st"
  by (cases st) (simp add: rename_step_def rfc1320_H_def MD4_THIRD_SHIFTS_def MD4_THIRD_OFFSETS_def)

lemma less16_cases:
  fixes i :: nat
  assumes "i < 16"
  shows "i \<in> {0, 1, 2, 3, 4, 5, 6, 7, 8, 9, 10, 11, 12, 13, 14, 15}"
  using assms by simp presburger

lemma first_index:
  "i < 16 \<Longrightarrow> [0, 1, 2, 3, 4, 5, 6, 7, 8, 9, 10, 11, 12, 13, 14, 15] ! i = (i::nat)"
  by (drule less16_cases) auto

lemma second_index:
  "i < 16 \<Longrightarrow> [0, 4, 8, 12, 1, 5, 9, 13, 2, 6, 10, 14, 3, 7, 11, 15] ! i = (i mod 4) * 4 + i div (4::nat)"
  by (drule less16_cases) auto

lemma round1_agrees:
  "length r = 4 \<Longrightarrow> fold (md4_round1 X) [0..<16] (regs_at 0 r) =
    regs_at 0 (fold (rfc1320_op rfc1320_F 0
      [0, 1, 2, 3, 4, 5, 6, 7, 8, 9, 10, 11, 12, 13, 14, 15] [3, 7, 11, 19] X) [0..<16] r)"
  by (rule round_agrees16) (simp_all only: md4_round1_rename first_index)

lemma round2_agrees:
  "length r = 4 \<Longrightarrow> fold (md4_round2 X) [0..<16] (regs_at 0 r) =
    regs_at 0 (fold (rfc1320_op rfc1320_G 0x5A827999
      [0, 4, 8, 12, 1, 5, 9, 13, 2, 6, 10, 14, 3, 7, 11, 15] [3, 5, 9, 13] X) [0..<16] r)"
  by (rule round_agrees16) (simp_all only: md4_round2_rename second_index)

lemma round3_agrees:
  "length r = 4 \<Longrightarrow> fold (md4_round3 X) [0..<16] (regs_at 0 r) =
    regs_at 0 (fold (rfc1320_op rfc1320_H 0x6ED9EBA1
      [0, 8, 4, 12, 2, 10, 6, 14, 1, 9, 5, 13, 3, 11, 7, 15] [3, 9, 11, 15] X) [0..<16] r)"
  by (rule round_agrees16) (simp_all only: md4_round3_rename)

lemma md4_add_state_regs:
  "length r = 4 \<Longrightarrow> length r' = 4 \<Longrightarrow>
    md4_add_state (regs_at 0 r) (regs_at 0 r') = regs_at 0 (map2 (+) r r')"
  by (auto elim!: list4_cases simp: regs_at_def)

lemma md4_compressBlock_rfc:
  assumes "length r = 4" and X: "X = map (\<lambda>i. readUInt32LE block (off + i * 4)) [0..<16]"
  shows "md4_compressBlock (regs_at 0 r) block off = regs_at 0 (rfc1320_block X r)"
proof -
  note [simp] = assms(1)
  show ?thesis
    unfolding md4_compressBlock_def rfc1320_block_def Let_def X [symmetric]
    by (simp add: round1_agrees round2_agrees round3_agrees md4_add_state_regs del: upt_rec_numeral)
qed

lemma md4_result_bytes:
  "md4_result (s0, s1, s2, s3) = le_bytes s0 @ le_bytes s1 @ le_bytes s2 @ le_bytes s3"
proof -
  let ?z = "replicate 4 0 :: u8 list"
  have "replicate 16 0 = ?z @ ?z @ ?z @ ?z" by (simp add: eval_nat_numeral)
  moreover have "writeUInt32LE (?z @ ?z @ ?z @ ?z) 0 s0 = le_bytes s0 @ ?z @ ?z @ ?z"
    using blit_append [of "[]" 0 ?z "le_bytes s0"] by (simp add: writeUInt32LE_blit)
  moreover have "writeUInt32LE (le_bytes s0 @ ?z @ ?z @ ?z) 4 s1 = le_bytes s0 @ le_bytes s1 @ ?z @ ?z"
    by (simp add: writeUInt32LE_blit blit_append)
  moreover have "writeUInt32LE (le_bytes s0 @ le_bytes s1 @ ?z @ ?z) 8 s2 =
      le_bytes s0 @ le_bytes s1 @ le_bytes s2 @ ?z"
    using blit_append [of "le_bytes s0 @ le_bytes s1" 8 ?z "le_bytes s2" ?z]
    by (simp add: writeUInt32LE_blit)
  moreover have "writeUInt32LE (le_bytes s0 @ le_bytes s1 @ le_bytes s2 @ ?z) 12 s3 =
      le_bytes s0 @ le_bytes s1 @ le_bytes s2 @ le_bytes s3"
    using blit_append [of "le_bytes s0 @ le_bytes s1 @ le_bytes s2" 12 ?z "le_bytes s3" "[]"]
    by (simp add: writeUInt32LE_blit)
  ultimately show ?thesis by simp
qed

lemma md4_result_digest: "length r = 4 \<Longrightarrow> md4_result (regs_at 0 r) = rfc_digest r"
  by (auto elim!: list4_cases simp: regs_at_def rfc_digest_def md4_result_bytes
      simp del: md4_result.simps)

lemma md4_padding_eq:
  "md4_padding = [0x80] @ replicate 55 0 @ map (\<lambda>i. ucast (drop_bit (8 * i) (512 :: u64))) [0..<8]"
  by code_simp

lemma rfc_pad_64: "length m = 64 \<Longrightarrow> rfc_pad m = m @ md4_padding"
  by (simp add: rfc_pad_def md4_padding_eq)

lemma length_md4_padding [simp]: "length md4_padding = 64"
  by (simp add: md4_padding_def u32le.wr_length)

lemma rfc_words_first:
  "64 \<le> length m \<Longrightarrow> rfc_words (m @ p) 0 = map (\<lambda>i. readUInt32LE m (0 + i * 4)) [0..<16]"
  by (auto simp: rfc_words_def mult.commute u32le.rd_append)

lemma rfc_words_second:
  "length m = 64 \<Longrightarrow> rfc_words (m @ p) 1 = map (\<lambda>i. readUInt32LE p (0 + i * 4)) [0..<16]"
  unfolding rfc_words_def
  by (intro map_cong refl u32le.rd_cong) (simp add: nth_append mult.commute)

lemma length_rfc1320_block [simp]: "length r = 4 \<Longrightarrow> length (rfc1320_block X r) = 4"
  by (simp add: rfc1320_block_def Let_def del: upt_rec_numeral)

lemma length_md4_result [simp]: "length (md4_result s) = 16"
  by (cases s) (simp add: u32le.wr_length)

lemma length_md4 [simp, length_facts]: "length (md4 data) = 16"
  by (simp add: md4_def)

section \<open>Properties\<close>

text \<open>C34. The unrolled two-block MD4 of the code is the MD4 of RFC 1320 for every 64-byte message.\<close>

theorem md4_is_rfc1320:
  assumes len: "length data = 64"
  shows "md4 data = rfc1320_md4 data"
proof -
  let ?r = "[0x67452301, 0xEFCDAB89, 0x98BADCFE, 0x10325476] :: u32 list"
  let ?W0 = "map (\<lambda>i. readUInt32LE data (0 + i * 4)) [0..<16]"
  let ?W1 = "map (\<lambda>i. readUInt32LE md4_padding (0 + i * 4)) [0..<16]"
  have init: "MD4_INITIAL_STATE = regs_at 0 ?r"
    by (simp add: MD4_INITIAL_STATE_def regs_at_def)
  have "md4 data = rfc_digest (rfc1320_block ?W1 (rfc1320_block ?W0 ?r))"
    unfolding md4_def init
    by (simp add: md4_compressBlock_rfc [OF _ refl] md4_result_digest del: upt_rec_numeral)
  moreover have "rfc1320_md4 data = rfc_digest (rfc1320_block ?W1 (rfc1320_block ?W0 ?r))"
    unfolding rfc1320_md4_def
    using len by (simp add: rfc_pad_64 rfc_words_first rfc_words_second [unfolded One_nat_def]
        numeral_2_eq_2)
  ultimately show ?thesis by simp
qed


theorem md4_is_rfc1320_witness: "md4 (replicate 64 0x61) = rfc1320_md4 (replicate 64 0x61)"
proof -
  have h: "length (replicate 64 (0x61 :: u8)) = 64" by simp
  show ?thesis using md4_is_rfc1320 [OF h] .
qed

end
