(* ===== verification/Md5.thy ===== *)
theory Md5
  imports Md4
begin

text \<open>
  src/crypto/md5.cpp: the unrolled MD5 compression, its eight-lane variant and the hash of a
  byte run.  The macro \<open>MD5_ROUNDS\<close> is the list \<open>MD5_ROUNDS\<close> of its 64 invocations; a step
  names its round function, which registers play the roles a, b, c, d, its word, constant
  and shift.  \<open>MD5_STEP\<close> is the scalar expansion and \<open>MD5_BATCH_STEP\<close> the one over the lanes.
  The reference is RFC 1321 in its own terms; \<open>md5\<close> agrees with it on every message, and every
  lane of \<open>md5Batch\<close> is one scalar compression.
\<close>

section \<open>The code\<close>

definition MD5_BATCH_SIZE :: nat where
  "MD5_BATCH_SIZE = 8"

definition MD5_F1 :: "u32 \<Rightarrow> u32 \<Rightarrow> u32 \<Rightarrow> u32" where
  "MD5_F1 x y z = z XOR (x AND (y XOR z))"

definition MD5_F2 :: "u32 \<Rightarrow> u32 \<Rightarrow> u32 \<Rightarrow> u32" where
  "MD5_F2 x y z = MD5_F1 z x y"

definition MD5_F3 :: "u32 \<Rightarrow> u32 \<Rightarrow> u32 \<Rightarrow> u32" where
  "MD5_F3 x y z = x XOR y XOR z"

definition MD5_F4 :: "u32 \<Rightarrow> u32 \<Rightarrow> u32 \<Rightarrow> u32" where
  "MD5_F4 x y z = y XOR (x OR NOT z)"

text \<open>The four argument orders of the macro: \<open>(a, b, c, d)\<close>, \<open>(d, a, b, c)\<close> and so on.\<close>

datatype md5_roles = ABCD | DABC | CDAB | BCDA

datatype md5_step =
  Md5Step (sfun: "u32 \<Rightarrow> u32 \<Rightarrow> u32 \<Rightarrow> u32") (sroles: md5_roles) (sword: nat) (sconst: u32) (sshift: nat)

definition MD5_ROUNDS :: "md5_step list" where
  "MD5_ROUNDS = [
    Md5Step MD5_F1 ABCD 0 0xD76AA478 7,
    Md5Step MD5_F1 DABC 1 0xE8C7B756 12,
    Md5Step MD5_F1 CDAB 2 0x242070DB 17,
    Md5Step MD5_F1 BCDA 3 0xC1BDCEEE 22,
    Md5Step MD5_F1 ABCD 4 0xF57C0FAF 7,
    Md5Step MD5_F1 DABC 5 0x4787C62A 12,
    Md5Step MD5_F1 CDAB 6 0xA8304613 17,
    Md5Step MD5_F1 BCDA 7 0xFD469501 22,
    Md5Step MD5_F1 ABCD 8 0x698098D8 7,
    Md5Step MD5_F1 DABC 9 0x8B44F7AF 12,
    Md5Step MD5_F1 CDAB 10 0xFFFF5BB1 17,
    Md5Step MD5_F1 BCDA 11 0x895CD7BE 22,
    Md5Step MD5_F1 ABCD 12 0x6B901122 7,
    Md5Step MD5_F1 DABC 13 0xFD987193 12,
    Md5Step MD5_F1 CDAB 14 0xA679438E 17,
    Md5Step MD5_F1 BCDA 15 0x49B40821 22,
    Md5Step MD5_F2 ABCD 1 0xF61E2562 5,
    Md5Step MD5_F2 DABC 6 0xC040B340 9,
    Md5Step MD5_F2 CDAB 11 0x265E5A51 14,
    Md5Step MD5_F2 BCDA 0 0xE9B6C7AA 20,
    Md5Step MD5_F2 ABCD 5 0xD62F105D 5,
    Md5Step MD5_F2 DABC 10 0x02441453 9,
    Md5Step MD5_F2 CDAB 15 0xD8A1E681 14,
    Md5Step MD5_F2 BCDA 4 0xE7D3FBC8 20,
    Md5Step MD5_F2 ABCD 9 0x21E1CDE6 5,
    Md5Step MD5_F2 DABC 14 0xC33707D6 9,
    Md5Step MD5_F2 CDAB 3 0xF4D50D87 14,
    Md5Step MD5_F2 BCDA 8 0x455A14ED 20,
    Md5Step MD5_F2 ABCD 13 0xA9E3E905 5,
    Md5Step MD5_F2 DABC 2 0xFCEFA3F8 9,
    Md5Step MD5_F2 CDAB 7 0x676F02D9 14,
    Md5Step MD5_F2 BCDA 12 0x8D2A4C8A 20,
    Md5Step MD5_F3 ABCD 5 0xFFFA3942 4,
    Md5Step MD5_F3 DABC 8 0x8771F681 11,
    Md5Step MD5_F3 CDAB 11 0x6D9D6122 16,
    Md5Step MD5_F3 BCDA 14 0xFDE5380C 23,
    Md5Step MD5_F3 ABCD 1 0xA4BEEA44 4,
    Md5Step MD5_F3 DABC 4 0x4BDECFA9 11,
    Md5Step MD5_F3 CDAB 7 0xF6BB4B60 16,
    Md5Step MD5_F3 BCDA 10 0xBEBFBC70 23,
    Md5Step MD5_F3 ABCD 13 0x289B7EC6 4,
    Md5Step MD5_F3 DABC 0 0xEAA127FA 11,
    Md5Step MD5_F3 CDAB 3 0xD4EF3085 16,
    Md5Step MD5_F3 BCDA 6 0x04881D05 23,
    Md5Step MD5_F3 ABCD 9 0xD9D4D039 4,
    Md5Step MD5_F3 DABC 12 0xE6DB99E5 11,
    Md5Step MD5_F3 CDAB 15 0x1FA27CF8 16,
    Md5Step MD5_F3 BCDA 2 0xC4AC5665 23,
    Md5Step MD5_F4 ABCD 0 0xF4292244 6,
    Md5Step MD5_F4 DABC 7 0x432AFF97 10,
    Md5Step MD5_F4 CDAB 14 0xAB9423A7 15,
    Md5Step MD5_F4 BCDA 5 0xFC93A039 21,
    Md5Step MD5_F4 ABCD 12 0x655B59C3 6,
    Md5Step MD5_F4 DABC 3 0x8F0CCC92 10,
    Md5Step MD5_F4 CDAB 10 0xFFEFF47D 15,
    Md5Step MD5_F4 BCDA 1 0x85845DD1 21,
    Md5Step MD5_F4 ABCD 8 0x6FA87E4F 6,
    Md5Step MD5_F4 DABC 15 0xFE2CE6E0 10,
    Md5Step MD5_F4 CDAB 6 0xA3014314 15,
    Md5Step MD5_F4 BCDA 13 0x4E0811A1 21,
    Md5Step MD5_F4 ABCD 4 0xF7537E82 6,
    Md5Step MD5_F4 DABC 11 0xBD3AF235 10,
    Md5Step MD5_F4 CDAB 2 0x2AD7D2BB 15,
    Md5Step MD5_F4 BCDA 9 0xEB86D391 21]"

type_synonym md5_state = "u32 \<times> u32 \<times> u32 \<times> u32"

definition MD5_INITIAL_STATE :: md5_state where
  "MD5_INITIAL_STATE = (0x67452301, 0xEFCDAB89, 0x98BADCFE, 0x10325476)"

definition md5_update ::
  "(u32 \<Rightarrow> u32 \<Rightarrow> u32 \<Rightarrow> u32) \<Rightarrow> u32 \<Rightarrow> u32 \<Rightarrow> nat \<Rightarrow> u32 \<Rightarrow> u32 \<Rightarrow> u32 \<Rightarrow> u32 \<Rightarrow> u32" where
  "md5_update f word constant shift a b c d =
     (let a' = a + (f b c d + word + constant) in word_rotl shift a' + b)"

fun MD5_STEP :: "u32 list \<Rightarrow> md5_step \<Rightarrow> md5_state \<Rightarrow> md5_state" where
  "MD5_STEP message (Md5Step f ABCD w k s) (a, b, c, d) = (md5_update f (message ! w) k s a b c d, b, c, d)"
| "MD5_STEP message (Md5Step f DABC w k s) (a, b, c, d) = (a, b, c, md5_update f (message ! w) k s d a b c)"
| "MD5_STEP message (Md5Step f CDAB w k s) (a, b, c, d) = (a, b, md5_update f (message ! w) k s c d a b, d)"
| "MD5_STEP message (Md5Step f BCDA w k s) (a, b, c, d) = (a, md5_update f (message ! w) k s b c d a, c, d)"

definition md5_compressBlock :: "md5_state \<Rightarrow> u32 list \<Rightarrow> md5_state" where
  "md5_compressBlock state message =
     md4_add_state state (fold (MD5_STEP message) MD5_ROUNDS state)"

text \<open>
  The batch: a state is four arrays of lanes, a message is sixteen arrays of lanes.  The lane loop
  of a step updates one register array lane by lane.
\<close>

type_synonym md5_batch = "u32 list \<times> u32 list \<times> u32 list \<times> u32 list"

definition md5_lane_loop ::
  "(u32 \<Rightarrow> u32 \<Rightarrow> u32 \<Rightarrow> u32) \<Rightarrow> u32 list \<Rightarrow> u32 \<Rightarrow> nat \<Rightarrow> u32 list \<Rightarrow> u32 list \<Rightarrow> u32 list \<Rightarrow> u32 list \<Rightarrow> u32 list" where
  "md5_lane_loop f word constant shift a b c d =
     fold (\<lambda>lane a. a[lane := md5_update f (word ! lane) constant shift (a ! lane) (b ! lane) (c ! lane) (d ! lane)])
       [0..<MD5_BATCH_SIZE] a"

fun MD5_BATCH_STEP :: "u32 list list \<Rightarrow> md5_step \<Rightarrow> md5_batch \<Rightarrow> md5_batch" where
  "MD5_BATCH_STEP message (Md5Step f ABCD w k s) (a, b, c, d) = (md5_lane_loop f (message ! w) k s a b c d, b, c, d)"
| "MD5_BATCH_STEP message (Md5Step f DABC w k s) (a, b, c, d) = (a, b, c, md5_lane_loop f (message ! w) k s d a b c)"
| "MD5_BATCH_STEP message (Md5Step f CDAB w k s) (a, b, c, d) = (a, b, md5_lane_loop f (message ! w) k s c d a b, d)"
| "MD5_BATCH_STEP message (Md5Step f BCDA w k s) (a, b, c, d) = (a, md5_lane_loop f (message ! w) k s b c d a, c, d)"

fun md5_add_batch :: "md5_batch \<Rightarrow> md5_batch \<Rightarrow> md5_batch" where
  "md5_add_batch (s0, s1, s2, s3) (a, b, c, d) =
     fold (\<lambda>lane (t0, t1, t2, t3).
         (t0[lane := t0 ! lane + a ! lane], t1[lane := t1 ! lane + b ! lane],
          t2[lane := t2 ! lane + c ! lane], t3[lane := t3 ! lane + d ! lane]))
       [0..<MD5_BATCH_SIZE] (s0, s1, s2, s3)"

definition md5_compressBlocks :: "md5_batch \<Rightarrow> u32 list list \<Rightarrow> md5_batch" where
  "md5_compressBlocks state message =
     md5_add_batch state (fold (MD5_BATCH_STEP message) MD5_ROUNDS state)"

definition md5Batch :: "u32 list list \<Rightarrow> md5_batch" where
  "md5Batch blocks =
     (case MD5_INITIAL_STATE of (i0, i1, i2, i3) \<Rightarrow>
        md5_compressBlocks
          (replicate MD5_BATCH_SIZE i0, replicate MD5_BATCH_SIZE i1,
           replicate MD5_BATCH_SIZE i2, replicate MD5_BATCH_SIZE i3) blocks)"

lemma md5_fill_shift: "(120 - (n + 1) mod 64) mod 64 = (119 - n mod 64) mod (64 :: nat)"
proof -
  define r where "r = n mod 64"
  have r: "r < 64" by (simp add: r_def)
  have step: "(n + 1) mod 64 = (if r = 63 then 0 else r + 1)"
    by (simp add: r_def mod_Suc)
  show ?thesis
    unfolding step r_def [symmetric] using r by auto
qed

lemma md5_fill_count:
  assumes "n mod 64 \<noteq> (56 :: nat)"
  shows "(120 - n mod 64) mod 64 = Suc ((120 - (n + 1) mod 64) mod 64)"
proof -
  define r where "r = n mod 64"
  have r: "r < 64" "r \<noteq> 56" using assms by (simp_all add: r_def)
  have "(120 - r) mod 64 = Suc ((119 - r) mod 64)"
  proof (cases "r < 56")
    case True
    then obtain k where "56 = r + Suc k" by (auto simp: less_iff_Suc_add)
    then have "120 - r = Suc k + 64" and "119 - r = k + 64" and "Suc k < 64" by linarith+
    then show ?thesis by (simp only: mod_add_self2 mod_less Suc_lessD)
  next
    case False
    then have "120 - r < 64" and "119 - r < 64" and "120 - r = Suc (119 - r)" using r by linarith+
    then show ?thesis by simp
  qed
  then show ?thesis unfolding md5_fill_shift by (simp add: r_def)
qed

lemma md5_fill_measure:
  assumes "n mod 64 \<noteq> (56 :: nat)"
  shows "(120 - (n + 1) mod 64) mod 64 < (120 - n mod 64) mod 64"
  using md5_fill_count [OF assms] by simp

text \<open>
  \<open>md5(data, size)\<close>: \<open>data\<close> is the run of \<open>size\<close> bytes.  \<open>md5_fill\<close> is the loop
  \<open>while (message.size() % 64 != 56) message.push_back(0)\<close>.
\<close>

function md5_fill :: "u8 list \<Rightarrow> u8 list" where
  "md5_fill message = (if length message mod 64 \<noteq> 56 then md5_fill (message @ [0]) else message)"
  by pat_completeness auto
termination
proof (relation "measure (\<lambda>m. (120 - length m mod 64) mod 64)")
  fix m :: "u8 list"
  assume "length m mod 64 \<noteq> 56"
  then have "(120 - (length m + 1) mod 64) mod 64 < (120 - length m mod 64) mod 64"
    by (rule md5_fill_measure)
  then show "(m @ [0], m) \<in> measure (\<lambda>m. (120 - length m mod 64) mod 64)" by simp
qed simp

declare md5_fill.simps [simp del]

definition md5_message :: "u8 list \<Rightarrow> u8 list" where
  "md5_message data =
     (let message = md5_fill (data @ [0x80]);
          bits = (of_nat (length data) :: u64) * 8
      in fold (\<lambda>i m. m @ [ucast (drop_bit (i * 8) bits AND 0xFF)]) [0..<8] message)"

fun md5_result :: "md5_state \<Rightarrow> u8 list" where
  "md5_result (s0, s1, s2, s3) =
     writeUInt32LE (writeUInt32LE (writeUInt32LE (writeUInt32LE (replicate 16 0) 0 s0) 4 s1) 8 s2) 12 s3"

definition md5 :: "u8 list \<Rightarrow> u8 list" where
  "md5 data =
     (let message = md5_message data
      in md5_result
           (fold (\<lambda>k state. md5_compressBlock state
                (map (\<lambda>i. readUInt32LE message (k * 64 + i * 4)) [0..<16]))
             [0..<(length message + 63) div 64] MD5_INITIAL_STATE))"

section \<open>RFC 1321\<close>

text \<open>
  Round functions in the RFC's sum-of-products form, the sine table as the RFC prints it, the
  word index as a linear function of the step number, registers updated in place.
\<close>

definition rfc1321_F :: "u32 \<Rightarrow> u32 \<Rightarrow> u32 \<Rightarrow> u32" where
  "rfc1321_F x y z = (x AND y) OR (NOT x AND z)"

definition rfc1321_G :: "u32 \<Rightarrow> u32 \<Rightarrow> u32 \<Rightarrow> u32" where
  "rfc1321_G x y z = (x AND z) OR (y AND NOT z)"

definition rfc1321_H :: "u32 \<Rightarrow> u32 \<Rightarrow> u32 \<Rightarrow> u32" where
  "rfc1321_H x y z = x XOR y XOR z"

definition rfc1321_I :: "u32 \<Rightarrow> u32 \<Rightarrow> u32 \<Rightarrow> u32" where
  "rfc1321_I x y z = y XOR (x OR NOT z)"

definition rfc1321_T :: "u32 list" where
  "rfc1321_T = [
    0xD76AA478, 0xE8C7B756, 0x242070DB, 0xC1BDCEEE, 0xF57C0FAF, 0x4787C62A, 0xA8304613, 0xFD469501,
    0x698098D8, 0x8B44F7AF, 0xFFFF5BB1, 0x895CD7BE, 0x6B901122, 0xFD987193, 0xA679438E, 0x49B40821,
    0xF61E2562, 0xC040B340, 0x265E5A51, 0xE9B6C7AA, 0xD62F105D, 0x02441453, 0xD8A1E681, 0xE7D3FBC8,
    0x21E1CDE6, 0xC33707D6, 0xF4D50D87, 0x455A14ED, 0xA9E3E905, 0xFCEFA3F8, 0x676F02D9, 0x8D2A4C8A,
    0xFFFA3942, 0x8771F681, 0x6D9D6122, 0xFDE5380C, 0xA4BEEA44, 0x4BDECFA9, 0xF6BB4B60, 0xBEBFBC70,
    0x289B7EC6, 0xEAA127FA, 0xD4EF3085, 0x04881D05, 0xD9D4D039, 0xE6DB99E5, 0x1FA27CF8, 0xC4AC5665,
    0xF4292244, 0x432AFF97, 0xAB9423A7, 0xFC93A039, 0x655B59C3, 0x8F0CCC92, 0xFFEFF47D, 0x85845DD1,
    0x6FA87E4F, 0xFE2CE6E0, 0xA3014314, 0x4E0811A1, 0xF7537E82, 0xBD3AF235, 0x2AD7D2BB, 0xEB86D391]"

definition rfc1321_fun :: "nat \<Rightarrow> u32 \<Rightarrow> u32 \<Rightarrow> u32 \<Rightarrow> u32" where
  "rfc1321_fun i = [rfc1321_F, rfc1321_G, rfc1321_H, rfc1321_I] ! (i div 16)"

definition rfc1321_k :: "nat \<Rightarrow> nat" where
  "rfc1321_k i = [i, 5 * i + 1, 3 * i + 5, 7 * i] ! (i div 16) mod 16"

definition rfc1321_shift :: "nat \<Rightarrow> nat" where
  "rfc1321_shift i =
     [[7, 12, 17, 22], [5, 9, 14, 20], [4, 11, 16, 23], [6, 10, 15, 21]] ! (i div 16) ! (i mod 4)"

definition rfc1321_op :: "u32 list \<Rightarrow> nat \<Rightarrow> u32 list \<Rightarrow> u32 list" where
  "rfc1321_op X i r =
     (let p = (4 - i mod 4) mod 4; b = r ! ((p + 1) mod 4)
      in r[p := b + word_rotl (rfc1321_shift i)
              (r ! p + rfc1321_fun i b (r ! ((p + 2) mod 4)) (r ! ((p + 3) mod 4))
                + X ! rfc1321_k i + rfc1321_T ! i)])"

definition rfc1321_block :: "u32 list \<Rightarrow> u32 list \<Rightarrow> u32 list" where
  "rfc1321_block X r = map2 (+) r (fold (rfc1321_op X) [0..<64] r)"

definition rfc1321_md5 :: "u8 list \<Rightarrow> u8 list" where
  "rfc1321_md5 m =
     rfc_digest (fold (\<lambda>k. rfc1321_block (rfc_words (rfc_pad m) k)) [0..<length (rfc_pad m) div 64]
       [0x67452301, 0xEFCDAB89, 0x98BADCFE, 0x10325476])"

section \<open>Agreement with RFC 1321\<close>

lemma MD5_F1_F: "MD5_F1 = rfc1321_F"
  by (intro ext bit_word_eqI) (auto simp: MD5_F1_def rfc1321_F_def bit_simps)

lemma MD5_F2_G: "MD5_F2 = rfc1321_G"
  by (intro ext bit_word_eqI) (auto simp: MD5_F1_def MD5_F2_def rfc1321_G_def bit_simps)

lemma MD5_F3_H: "MD5_F3 = rfc1321_H"
  by (intro ext) (simp add: MD5_F3_def rfc1321_H_def)

lemma MD5_F4_I: "MD5_F4 = rfc1321_I"
  by (intro ext) (simp add: MD5_F4_def rfc1321_I_def)

text \<open>The 64 macro invocations are the RFC's loop.\<close>

definition rfc1321_step :: "nat \<Rightarrow> md5_step" where
  "rfc1321_step i = Md5Step (rfc1321_fun i) ([ABCD, DABC, CDAB, BCDA] ! (i mod 4))
     (rfc1321_k i) (rfc1321_T ! i) (rfc1321_shift i)"

lemma upt_64:
  "[0..<64] = [0, 1, 2, 3, 4, 5, 6, 7, 8, 9, 10, 11, 12, 13, 14, 15, 16, 17, 18, 19, 20, 21, 22,
     23, 24, 25, 26, 27, 28, 29, 30, 31, 32, 33, 34, 35, 36, 37, 38, 39, 40, 41, 42, 43, 44, 45, 46,
     47, 48, 49, 50, 51, 52, 53, 54, 55, 56, 57, 58, 59, 60, 61, 62, 63]"
  by code_simp

lemma MD5_ROUNDS_loop: "MD5_ROUNDS = map rfc1321_step [0..<64]"
  unfolding upt_64
  by (simp add: MD5_ROUNDS_def rfc1321_step_def rfc1321_fun_def rfc1321_k_def rfc1321_T_def
      rfc1321_shift_def MD5_F1_F MD5_F2_G MD5_F3_H MD5_F4_I)

definition regs_tuple :: "u32 list \<Rightarrow> md5_state" where
  "regs_tuple r = (r ! 0, r ! 1, r ! 2, r ! 3)"

lemma md5_update_eq:
  "md5_update f w k s a b c d = b + word_rotl s (a + f b c d + w + k)"
  by (simp add: md5_update_def ac_simps)

lemma regs_tuple_regs_at: "regs_tuple r = regs_at 0 r"
  by (simp add: regs_tuple_def regs_at_def numeral_2_eq_2 [symmetric])

lemma MD5_STEP_rfc:
  assumes "length r = 4"
  shows "MD5_STEP X (rfc1321_step i) (regs_tuple r) = regs_tuple (rfc1321_op X i r)"
  by (rule mod4_cases [of i])
    (use assms in \<open>simp_all add: rfc1321_step_def regs_tuple_def rfc1321_op_def Let_def
       md5_update_eq numeral_2_eq_2 [symmetric]\<close>)

lemma length_rfc1321_op [simp]: "length (rfc1321_op X i r) = length r"
  by (simp add: rfc1321_op_def Let_def)

lemma length_fold_rfc1321_op [simp]: "length (fold (rfc1321_op X) is r) = length r"
  by (induction "is" arbitrary: r) auto

lemma MD5_ROUNDS_rfc:
  "length r = 4 \<Longrightarrow>
    fold (MD5_STEP X) (map rfc1321_step is) (regs_tuple r) = regs_tuple (fold (rfc1321_op X) is r)"
  by (induction "is" arbitrary: r) (auto simp: MD5_STEP_rfc)

lemma md5_compressBlock_rfc:
  assumes "length r = 4"
  shows "md5_compressBlock (regs_tuple r) X = regs_tuple (rfc1321_block X r)"
proof -
  have "length (fold (rfc1321_op X) [0..<64] r) = 4" using assms by (simp del: upt_rec_numeral)
  then show ?thesis
    unfolding md5_compressBlock_def MD5_ROUNDS_loop MD5_ROUNDS_rfc [OF assms] rfc1321_block_def
    unfolding regs_tuple_regs_at
    using assms by (rule md4_add_state_regs [rotated])
qed

lemma length_rfc1321_block [simp]: "length r = 4 \<Longrightarrow> length (rfc1321_block X r) = 4"
  by (simp add: rfc1321_block_def)

lemma md5_fill_eq: "md5_fill m = m @ replicate ((120 - length m mod 64) mod 64) 0"
proof (induction m rule: md5_fill.induct)
  case (1 m)
  show ?case
  proof (cases "length m mod 64 = 56")
    case True
    then show ?thesis by (subst md5_fill.simps) simp
  next
    case False
    let ?k = "(120 - length m mod 64) mod 64" and ?k' = "(120 - (length m + 1) mod 64) mod 64"
    have "?k = Suc ?k'" using md5_fill_count [OF False] .
    then have "[0] @ replicate ?k' 0 = replicate ?k (0 :: u8)" by simp
    then show ?thesis using False 1 by (subst md5_fill.simps) simp
  qed
qed

lemma md5_length_bytes:
  "fold (\<lambda>i m. m @ [f i]) [0..<n] m = m @ map f [0..<n]"
  by (induction n) auto

lemma ucast_and_FF: "(ucast (x AND 0xFF :: u64) :: u8) = ucast x"
proof -
  have "(0xFF :: u64) = mask 8" by (simp add: mask_eq_exp_minus_1)
  then show ?thesis
    by (intro bit_word_eqI) (simp only: bit_ucast_iff bit_and_iff bit_mask_iff, auto)
qed

lemma md5_message_rfc_pad: "md5_message data = rfc_pad data"
proof -
  have "(120 - (length data + 1) mod 64) mod 64 = (119 - length data mod 64) mod 64"
    by (rule md5_fill_shift)
  then show ?thesis
    by (simp add: md5_message_def rfc_pad_def md5_fill_eq md5_length_bytes ucast_and_FF
        mult.commute del: upt_rec_numeral)
qed

lemma rfc_pad_length: "length (rfc_pad m) mod 64 = 0"
proof -
  have pad: "(length m + 1 + (119 - length m mod 64) mod 64) mod 64 = 56"
  proof -
    define q r where "q = length m div 64" and "r = length m mod 64"
    have len: "length m = q * 64 + r" and r: "r < 64" by (simp_all add: q_def r_def)
    show ?thesis
    proof (cases "r < 56")
      case True
      define k where "k = 55 - r"
      have k: "55 = r + k" using True by (simp add: k_def)
      then have "119 - r = k + 64" and "k < 64" by linarith+
      then have "(119 - r) mod 64 = k" by simp
      then have "length m + 1 + (119 - r) mod 64 = q * 64 + 56" using k by (simp add: len)
      then show ?thesis by (simp add: r_def)
    next
      case False
      then have "(119 - r) mod 64 = 119 - r" by simp
      then have "length m + 1 + (119 - r) mod 64 = (q + 1) * 64 + 56" using r False len by simp
      then show ?thesis by (simp add: r_def)
    qed
  qed
  have "length (rfc_pad m) = (length m + 1 + (119 - length m mod 64) mod 64) + 8"
    by (simp add: rfc_pad_def del: upt_rec_numeral)
  then have "length (rfc_pad m) mod 64
      = ((length m + 1 + (119 - length m mod 64) mod 64) mod 64 + 8) mod 64"
    by (simp only: mod_add_left_eq)
  then show ?thesis unfolding pad by simp
qed

lemma md5_result_md4: "md5_result s = md4_result s"
  by (cases s) simp

lemma md5_result_digest: "length r = 4 \<Longrightarrow> md5_result (regs_tuple r) = rfc_digest r"
  by (simp add: md5_result_md4 md4_result_digest regs_tuple_regs_at)

lemma length_md5_result [simp]: "length (md5_result s) = 16"
  by (simp add: md5_result_md4)

lemma length_md5 [simp, length_facts]: "length (md5 data) = 16"
  by (simp add: md5_def Let_def)

lemma rfc_words_alt: "map (\<lambda>i. readUInt32LE m (k * 64 + i * 4)) [0..<16] = rfc_words m k"
  by (simp add: rfc_words_def mult.commute)

lemma md5_blocks_rfc:
  assumes "length r = 4"
  shows "fold (\<lambda>k state. md5_compressBlock state (rfc_words m k)) ks (regs_tuple r)
    = regs_tuple (fold (\<lambda>k. rfc1321_block (rfc_words m k)) ks r)"
  using assms by (induction ks arbitrary: r) (simp_all add: md5_compressBlock_rfc)

lemma length_md5_blocks_rfc:
  "length r = 4 \<Longrightarrow> length (fold (\<lambda>k. rfc1321_block (rfc_words m k)) ks r) = 4"
  by (induction ks arbitrary: r) auto

section \<open>The batch is eight scalar compressions\<close>

definition md5_lane :: "nat \<Rightarrow> md5_batch \<Rightarrow> md5_state" where
  "md5_lane l s = (case s of (a, b, c, d) \<Rightarrow> (a ! l, b ! l, c ! l, d ! l))"

definition md5_batch_shape :: "md5_batch \<Rightarrow> bool" where
  "md5_batch_shape s \<longleftrightarrow> (case s of (a, b, c, d) \<Rightarrow>
     length a = MD5_BATCH_SIZE \<and> length b = MD5_BATCH_SIZE \<and>
     length c = MD5_BATCH_SIZE \<and> length d = MD5_BATCH_SIZE)"

lemma length_self_loop: "length (fold (\<lambda>i a. a[i := g i (a ! i)]) is a) = length a"
  by (induction "is" arbitrary: a) auto

lemma nth_self_loop:
  assumes "n \<le> length a"
  shows "fold (\<lambda>i a. a[i := g i (a ! i)]) [0..<n] a ! j = (if j < n then g j (a ! j) else a ! j)"
  using assms
proof (induction n)
  case 0
  then show ?case by simp
next
  case (Suc n)
  then show ?case by (cases "j = n") (auto simp: length_self_loop)
qed

lemma length_md5_lane_loop [simp]: "length (md5_lane_loop f w k s a b c d) = length a"
  unfolding md5_lane_loop_def by (rule length_self_loop)

lemma nth_md5_lane_loop:
  assumes "length a = MD5_BATCH_SIZE" and "l < MD5_BATCH_SIZE"
  shows "md5_lane_loop f w k s a b c d ! l = md5_update f (w ! l) k s (a ! l) (b ! l) (c ! l) (d ! l)"
  unfolding md5_lane_loop_def using assms by (subst nth_self_loop) simp_all

lemma MD5_BATCH_STEP_shape:
  "md5_batch_shape st \<Longrightarrow> md5_batch_shape (MD5_BATCH_STEP m step st)"
  by (cases "(m, step, st)" rule: MD5_BATCH_STEP.cases) (auto simp: md5_batch_shape_def)

lemma MD5_BATCH_STEP_lane:
  assumes "md5_batch_shape st" and "l < MD5_BATCH_SIZE" and "sword step < 16"
  shows "md5_lane l (MD5_BATCH_STEP m step st)
    = MD5_STEP (map (\<lambda>w. m ! w ! l) [0..<16]) step (md5_lane l st)"
  using assms by (cases "(m, step, st)" rule: MD5_BATCH_STEP.cases)
    (simp_all add: md5_batch_shape_def md5_lane_def nth_md5_lane_loop)

lemma MD5_BATCH_fold_lane:
  assumes "md5_batch_shape st" and "l < MD5_BATCH_SIZE" and "\<forall>step\<in>set steps. sword step < 16"
  shows "md5_batch_shape (fold (MD5_BATCH_STEP m) steps st) \<and>
    md5_lane l (fold (MD5_BATCH_STEP m) steps st)
      = fold (MD5_STEP (map (\<lambda>w. m ! w ! l) [0..<16])) steps (md5_lane l st)"
  using assms
  by (induction steps arbitrary: st) (simp_all add: MD5_BATCH_STEP_shape MD5_BATCH_STEP_lane)

lemma MD5_ROUNDS_words: "\<forall>step\<in>set MD5_ROUNDS. sword step < 16"
  by (simp add: MD5_ROUNDS_def)

lemma nth_add_loop:
  "length s = n \<Longrightarrow> l < n \<Longrightarrow>
    fold (\<lambda>l t. t[l := t ! l + a ! l]) [0..<n] s ! l = s ! l + (a ! l :: u32)"
  by (subst nth_self_loop) simp_all

lemma md5_add_batch_split:
  "md5_add_batch (s0, s1, s2, s3) (a, b, c, d) =
     (fold (\<lambda>l t. t[l := t ! l + a ! l]) [0..<MD5_BATCH_SIZE] s0,
      fold (\<lambda>l t. t[l := t ! l + b ! l]) [0..<MD5_BATCH_SIZE] s1,
      fold (\<lambda>l t. t[l := t ! l + c ! l]) [0..<MD5_BATCH_SIZE] s2,
      fold (\<lambda>l t. t[l := t ! l + d ! l]) [0..<MD5_BATCH_SIZE] s3)"
proof -
  have "fold (\<lambda>lane (t0, t1, t2, t3).
         (t0[lane := t0 ! lane + a ! lane], t1[lane := t1 ! lane + b ! lane],
          t2[lane := t2 ! lane + c ! lane], t3[lane := t3 ! lane + d ! lane])) ls (s0, s1, s2, s3)
    = (fold (\<lambda>l t. t[l := t ! l + a ! l]) ls s0, fold (\<lambda>l t. t[l := t ! l + b ! l]) ls s1,
       fold (\<lambda>l t. t[l := t ! l + c ! l]) ls s2, fold (\<lambda>l t. t[l := t ! l + d ! l]) ls s3)" for ls
    by (induction ls arbitrary: s0 s1 s2 s3) simp_all
  then show ?thesis by simp
qed

lemma md5_add_batch_lane:
  assumes "md5_batch_shape s" and "l < MD5_BATCH_SIZE"
  shows "md5_lane l (md5_add_batch s t) = md4_add_state (md5_lane l s) (md5_lane l t)"
proof -
  obtain s0 s1 s2 s3 where s: "s = (s0, s1, s2, s3)" by (cases s)
  obtain a b c d where t: "t = (a, b, c, d)" by (cases t)
  have len: "length s0 = MD5_BATCH_SIZE" "length s1 = MD5_BATCH_SIZE"
    "length s2 = MD5_BATCH_SIZE" "length s3 = MD5_BATCH_SIZE"
    using assms(1) by (auto simp: s md5_batch_shape_def)
  show ?thesis
    using len assms(2) unfolding s t md5_add_batch_split md5_lane_def prod.case md4_add_state.simps
    by (simp only: nth_add_loop order_refl)
qed

section \<open>Properties\<close>

text \<open>C12. The unrolled MD5 of the code (macro rounds with the optimised round functions, its own
  padding loop) is the MD5 of RFC 1321 on every message.\<close>

theorem md5_is_rfc1321: "md5 data = rfc1321_md5 data"
proof -
  let ?r = "[0x67452301, 0xEFCDAB89, 0x98BADCFE, 0x10325476] :: u32 list"
  let ?n = "length (rfc_pad data)"
  have init: "MD5_INITIAL_STATE = regs_tuple ?r"
    by (simp add: MD5_INITIAL_STATE_def regs_tuple_def)
  have blocks: "(?n + 63) div 64 = ?n div 64"
    using rfc_pad_length [of data] by (auto simp: mod_eq_0_iff_dvd elim!: dvdE)
  show ?thesis
    unfolding md5_def md5_message_rfc_pad rfc_words_alt Let_def init blocks rfc1321_md5_def
    by (simp add: md5_blocks_rfc md5_result_digest length_md5_blocks_rfc)
qed

text \<open>Every lane of the batch hash is the scalar compression of that lane's message words from
  the MD5 initial state.\<close>

theorem md5Batch_lane:
  assumes "l < MD5_BATCH_SIZE"
  shows "md5_lane l (md5Batch blocks)
    = md5_compressBlock MD5_INITIAL_STATE (map (\<lambda>w. blocks ! w ! l) [0..<16])"
proof -
  obtain i0 i1 i2 i3 where i: "MD5_INITIAL_STATE = (i0, i1, i2, i3)" by (cases MD5_INITIAL_STATE)
  let ?s = "(replicate MD5_BATCH_SIZE i0, replicate MD5_BATCH_SIZE i1,
    replicate MD5_BATCH_SIZE i2, replicate MD5_BATCH_SIZE i3)"
  have shape: "md5_batch_shape ?s" by (simp add: md5_batch_shape_def)
  have lane: "md5_lane l ?s = MD5_INITIAL_STATE" using assms by (simp add: md5_lane_def i)
  show ?thesis
    using MD5_BATCH_fold_lane [OF shape assms MD5_ROUNDS_words, of blocks]
    by (simp add: md5Batch_def i md5_compressBlocks_def md5_add_batch_lane [OF shape assms]
        lane [unfolded i] md5_compressBlock_def del: md5_add_batch.simps upt_rec_numeral)
qed

theorem md5Batch_lane_witness:
  "(3 :: nat) < MD5_BATCH_SIZE \<and> md5_lane 3 (md5Batch (replicate 16 (replicate 8 7)))
    = md5_compressBlock MD5_INITIAL_STATE (map (\<lambda>w. replicate 16 (replicate 8 7) ! w ! 3) [0..<16])"
proof -
  have h: "(3 :: nat) < MD5_BATCH_SIZE" by (simp add: MD5_BATCH_SIZE_def)
  show ?thesis using h md5Batch_lane [OF h, of "replicate 16 (replicate 8 7)"] by blast
qed

end
