(* ===== verification/Strings.thy ===== *)
theory Strings
  imports Prelude "HOL-Library.Char_ord"
begin

text \<open>
  src/utils/string.cpp, the character classes of the C library the sources use, and the two
  standard conversions they rely on (\<open>std::isxdigit\<close>, \<open>std::stoul\<close> in base 16).  The
  lemmas show that hexadecimal printing and reading are inverse to each other; the locale
  \<open>printer\<close> is that contract.
\<close>

section \<open>Characters\<close>

text \<open>A \<open>std::string\<close> is a list of 8-bit characters; \<open>code\<close> is the character as a byte.\<close>

definition code_of :: "char \<Rightarrow> nat" where
  "code_of c = of_char c"

definition isDigit :: "char \<Rightarrow> bool" where
  "isDigit c \<longleftrightarrow> 48 \<le> code_of c \<and> code_of c \<le> 57"

definition isXDigit :: "char \<Rightarrow> bool" where
  "isXDigit c \<longleftrightarrow> isDigit c \<or> 65 \<le> code_of c \<and> code_of c \<le> 70 \<or> 97 \<le> code_of c \<and> code_of c \<le> 102"

definition digit_value :: "char \<Rightarrow> nat" where
  "digit_value c = code_of c - 48"

definition hex_value :: "char \<Rightarrow> nat" where
  "hex_value c = (if isDigit c then code_of c - 48
     else if 97 \<le> code_of c then code_of c - 87 else code_of c - 55)"

text \<open>
  \<open>std::stoul(s, nullptr, 16)\<close> on a string of hexadecimal digits that fits the result, which is
  how the sources call it: they check every character first and pass at most eight.
\<close>

definition stoul16 :: "string \<Rightarrow> nat" where
  "stoul16 s = fold (\<lambda>c acc. acc * 16 + hex_value c) s 0"

definition HEX_DIGITS :: string where
  "HEX_DIGITS = ''0123456789ABCDEF''"

definition hex_digit :: "nat \<Rightarrow> char" where
  "hex_digit n = HEX_DIGITS ! n"

definition bytes_of_string :: "string \<Rightarrow> u8 list" where
  "bytes_of_string s = map of_char s"

definition string_of_bytes :: "u8 list \<Rightarrow> string" where
  "string_of_bytes bs = map (\<lambda>b. char_of (unat b)) bs"

section \<open>src/utils/string.cpp\<close>

definition joinStrings :: "string list \<Rightarrow> string \<Rightarrow> string" where
  "joinStrings strings delimiter =
     (if strings = [] then ''''
      else fold (\<lambda>i result. result @ delimiter @ strings ! i) [1..<length strings] (strings ! 0))"

definition bytesToHex :: "u8 list \<Rightarrow> string" where
  "bytesToHex data =
     fold (\<lambda>index result. result @ [HEX_DIGITS ! unat (drop_bit 4 (data ! index))]
         @ [HEX_DIGITS ! unat (data ! index AND 0xF)]) [0..<length data] ''''"

section \<open>Digits\<close>

lemma less16_hex_cases:
  fixes n :: nat
  assumes "n < 16"
  shows "n \<in> {0, 1, 2, 3, 4, 5, 6, 7, 8, 9, 10, 11, 12, 13, 14, 15}"
  using assms by simp presburger

lemma hex_value_digit [simp, roundtrip_facts]: "n < 16 \<Longrightarrow> hex_value (hex_digit n) = n"
  by (drule less16_hex_cases)
    (auto simp: hex_digit_def HEX_DIGITS_def hex_value_def isDigit_def code_of_def)

lemma isXDigit_hex_digit [simp]: "n < 16 \<Longrightarrow> isXDigit (hex_digit n)"
  by (drule less16_hex_cases)
    (auto simp: hex_digit_def HEX_DIGITS_def isXDigit_def isDigit_def code_of_def)

lemma hex_digit_inject: "m < 16 \<Longrightarrow> n < 16 \<Longrightarrow> hex_digit m = hex_digit n \<longleftrightarrow> m = n"
  by (metis hex_value_digit)

lemma hex_value_less: "isXDigit c \<Longrightarrow> hex_value c < 16"
  by (auto simp: isXDigit_def hex_value_def isDigit_def)

lemma digit_value_less: "isDigit c \<Longrightarrow> digit_value c < 10"
  unfolding isDigit_def digit_value_def by linarith

lemma code_of_inject: "code_of c = code_of d \<longleftrightarrow> c = d"
  by (simp add: code_of_def)

lemma digit_value_inject: "isDigit c \<Longrightarrow> isDigit d \<Longrightarrow> digit_value c = digit_value d \<longleftrightarrow> c = d"
  by (auto simp: isDigit_def digit_value_def code_of_inject [symmetric])

lemma stoul16_append: "stoul16 (s @ [c]) = stoul16 s * 16 + hex_value c"
  by (simp add: stoul16_def)

lemma stoul16_Nil [simp]: "stoul16 [] = 0"
  by (simp add: stoul16_def)

lemma stoul16_less: "list_all isXDigit s \<Longrightarrow> stoul16 s < 16 ^ length s"
proof (induction s rule: rev_induct)
  case Nil
  then show ?case by simp
next
  case (snoc c s)
  then have "stoul16 s < 16 ^ length s" and "hex_value c < 16" by (simp_all add: hex_value_less)
  then show ?case by (simp add: stoul16_append)
qed

section \<open>Bytes in hexadecimal\<close>

definition byte_hex :: "u8 \<Rightarrow> string" where
  "byte_hex b = [hex_digit (unat b div 16), hex_digit (unat b mod 16)]"

lemma unat_nibbles:
  fixes b :: u8
  shows "unat (drop_bit 4 b) = unat b div 16" and "unat (b AND 0xF) = unat b mod 16"
proof -
  show "unat (drop_bit 4 b) = unat b div 16"
    by (simp add: drop_bit_eq_div unat_div_distrib)
  have "(0xF :: u8) = mask 4" by (simp add: mask_eq_exp_minus_1)
  then have "b AND 0xF = take_bit 4 b" by (simp only: take_bit_eq_mask)
  then show "unat (b AND 0xF) = unat b mod 16"
    by (simp add: take_bit_eq_mod unat_mod_distrib)
qed

lemma unat_u8_less [simp]: "unat (b :: u8) < 256"
  using unsigned_less [of b, where ?'a = nat] by simp

lemma bytesToHex_concat: "bytesToHex data = concat (map byte_hex data)"
proof -
  have "fold (\<lambda>index result. result @ [HEX_DIGITS ! unat (drop_bit 4 (data ! index))]
         @ [HEX_DIGITS ! unat (data ! index AND 0xF)]) [0..<n] '''' = concat (map byte_hex (take n data))"
    if "n \<le> length data" for n
    using that
    by (induction n) (simp_all add: take_Suc_conv_app_nth byte_hex_def hex_digit_def unat_nibbles)
  from this [of "length data"] show ?thesis by (simp add: bytesToHex_def)
qed

lemma length_bytesToHex [simp, length_facts]: "length (bytesToHex data) = 2 * length data"
  by (simp add: bytesToHex_concat byte_hex_def length_concat comp_def sum_list_triv)

lemma length_byte_hex: "length (byte_hex b) = 2"
  by (simp add: byte_hex_def)

lemma byte_hex_inject: "byte_hex b = byte_hex c \<longleftrightarrow> b = c"
proof
  assume "byte_hex b = byte_hex c"
  then have "unat b div 16 = unat c div 16" and "unat b mod 16 = unat c mod 16"
    by (simp_all add: byte_hex_def hex_digit_inject div_less_iff_less_mult)
  then have "unat b = unat c" by (metis div_mult_mod_eq)
  then show "b = c" by (simp add: word_unat_eq_iff)
qed simp

lemma bytesToHex_inject: "bytesToHex a = bytesToHex b \<longleftrightarrow> a = b"
proof
  assume "bytesToHex a = bytesToHex b"
  then show "a = b"
    unfolding bytesToHex_concat
  proof (induction a arbitrary: b)
    case Nil
    then show ?case by (cases b) (auto simp: byte_hex_def)
  next
    case (Cons x a)
    then obtain y b' where b: "b = y # b'" by (cases b) (auto simp: byte_hex_def)
    from Cons.prems have "byte_hex x = byte_hex y" and "concat (map byte_hex a) = concat (map byte_hex b')"
      by (simp_all add: b append_eq_append_conv length_byte_hex)
    then show ?case using Cons.IH b byte_hex_inject by blast
  qed
qed simp

lemma stoul16_byte_hex: "stoul16 (byte_hex b) = unat b"
  by (simp add: stoul16_def byte_hex_def div_less_iff_less_mult)

section \<open>Joining\<close>

lemma joinStrings_Cons:
  "joinStrings (s # ss) delimiter = s @ concat (map (\<lambda>t. delimiter @ t) ss)"
proof -
  have "fold (\<lambda>i result. result @ delimiter @ (s # ss) ! i) [1..<Suc n] s
      = s @ concat (map (\<lambda>t. delimiter @ t) (take n ss))" if "n \<le> length ss" for n
    using that by (induction n) (simp_all add: take_Suc_conv_app_nth)
  from this [of "length ss"] show ?thesis by (simp add: joinStrings_def)
qed

lemma joinStrings_Nil [simp]: "joinStrings [] delimiter = ''''"
  by (simp add: joinStrings_def)

section \<open>Hexadecimal numbers of several digits\<close>

lemma stoul16_concat: "stoul16 (a @ b) = stoul16 a * 16 ^ length b + stoul16 b"
proof (induction b rule: rev_induct)
  case Nil
  then show ?case by simp
next
  case (snoc c b)
  have "stoul16 (a @ b @ [c]) = stoul16 (a @ b) * 16 + hex_value c"
    using stoul16_append [of "a @ b" c] by simp
  then show ?case using snoc by (simp add: stoul16_append algebra_simps)
qed

text \<open>A printer of values as strings with a reader that inverts it, on values in \<open>ok\<close>.\<close>

locale printer =
  fixes pr :: "'a \<Rightarrow> string" and rd :: "string \<Rightarrow> 'a" and ok :: "'a \<Rightarrow> bool"
  assumes rd_pr: "ok x \<Longrightarrow> rd (pr x) = x"
begin

lemma pr_inject: "ok x \<Longrightarrow> ok y \<Longrightarrow> pr x = pr y \<longleftrightarrow> x = y"
  using rd_pr by metis

end

interpretation byte_printer: printer byte_hex "\<lambda>s. word_of_nat (stoul16 s)" "\<lambda>_. True"
  by unfold_locales (simp add: stoul16_byte_hex)

end
