(* ===== verification/SiemensCrypto.thy ===== *)
theory SiemensCrypto
  imports Md5 Strings
begin

text \<open>
  src/siemens/crypto.cpp: the IMEI packing and check digit, the 64-byte key blocks, the ten-byte
  IMEI cipher, the stream cipher (one lane or eight) and the derivation of BKEY and HASH.  The
  lane arrays of \<open>transformCipher\<close> are a list of \<open>cipher_lane\<close> records; its two nested loops are
  nested folds.  The lemmas give the scalar cipher as a reference, show that every lane of the
  interleaved loop computes it, and that decryption inverts encryption.
\<close>

section \<open>Tables\<close>

definition IMEI_SBOX_HIGH :: "u8 list" where
  "IMEI_SBOX_HIGH = [
    0x03, 0x0F, 0x01, 0x0D, 0x05, 0x0B, 0x0D, 0x09, 0x0D, 0x07, 0x06, 0x00, 0x0E, 0x06, 0x0B, 0x08]"

definition IMEI_SBOX_LOW :: "u8 list" where
  "IMEI_SBOX_LOW = [
    0x0A, 0x0E, 0x01, 0x05, 0x03, 0x06, 0x02, 0x0F, 0x0B, 0x0A, 0x03, 0x05, 0x06, 0x05, 0x04, 0x02]"

definition IMEI_ROUND_KEYS :: "u8 list" where
  "IMEI_ROUND_KEYS = [
    0xE3, 0xB7, 0x5C, 0x13, 0xB0, 0xD2, 0xC4, 0x19]"

definition KEY_EEP :: "u8 list" where
  "KEY_EEP = [
    0x14, 0x0A, 0xEE, 0xE5, 0xD7, 0xFB, 0xFF, 0xF8, 0x76, 0x4D, 0xC6, 0x03, 0xFD, 0xB2, 0xF9, 0xB2,
    0xB4, 0xCD, 0x66, 0xA2, 0x26, 0xF7, 0x10, 0xA4, 0x3E, 0x11, 0xC2, 0x43, 0xF4, 0x51, 0xF6, 0xAF,
    0xDC, 0x6D, 0x98, 0x8C, 0x08, 0x8F, 0x58, 0x8E, 0xDC, 0x4F, 0xB8, 0x8E, 0x08, 0xE2, 0x28, 0x41,
    0x00, 0x00, 0x00, 0x00, 0x55, 0x55, 0x55, 0x08, 0x00, 0x00, 0x00, 0x00, 0x00, 0x00, 0x00, 0x00]"

definition KEY_MK1 :: "u8 list" where
  "KEY_MK1 = [
    0x00, 0x00, 0x00, 0x00, 0xEE, 0xEE, 0xEE, 0xEE, 0x0A, 0xD0, 0xDC, 0x9C, 0xAF, 0xEC, 0xAA, 0xB9,
    0x51, 0xA5, 0x7B, 0x85, 0xE0, 0x80, 0xE9, 0xB3, 0xF6, 0x7F, 0x01, 0xF8, 0x9D, 0x71, 0x8F, 0x42,
    0x4D, 0xF5, 0xA0, 0xE1, 0xD2, 0x1E, 0xD2, 0x4F, 0xDC, 0x6D, 0x98, 0x8C, 0x08, 0x8F, 0x58, 0x8E,
    0xDC, 0x4F, 0xB8, 0x8E, 0x08, 0xE2, 0x28, 0x08, 0x1A, 0x32, 0x54, 0x76, 0x98, 0x10, 0x32, 0x54]"

definition KEY_MK2 :: "u8 list" where
  "KEY_MK2 = [
    0x08, 0x1A, 0x32, 0x54, 0x76, 0x98, 0x10, 0x32, 0xD8, 0xC5, 0x72, 0x7C, 0x25, 0xF8, 0xC8, 0x59,
    0xDB, 0xEE, 0x22, 0xCA, 0xB5, 0x7D, 0xB4, 0xF3, 0xA5, 0x5E, 0x6E, 0xB1, 0x0D, 0xB1, 0xA5, 0x67,
    0xDC, 0x6D, 0x98, 0x8C, 0x08, 0x8F, 0x58, 0x8E, 0xDC, 0x4F, 0xB8, 0x8E, 0x08, 0xE2, 0x28, 0x41,
    0x16, 0xEA, 0xFA, 0xF7, 0xD7, 0xC4, 0xD9, 0x2A, 0x3B, 0xF2, 0x0B, 0x7F, 0xEE, 0xEE, 0xEE, 0xEE]"

definition CIPHER_BATCH_SIZE :: nat where
  "CIPHER_BATCH_SIZE = 8"

section \<open>IMEI digits\<close>

text \<open>
  Every caller passes an IMEI of at least 14 characters; the code reads no character past
  index 13.  \<open>imei_digit\<close> is the local \<open>digit\<close>; in the check digit the character is converted
  as a signed \<open>char\<close>.
\<close>

definition imei_digit :: "string \<Rightarrow> nat \<Rightarrow> u8" where
  "imei_digit imei index = of_char (imei ! index) - 0x30"

definition packImei :: "string \<Rightarrow> u8 list" where
  "packImei imei =
     (let packed = replicate 8 0;
          packed = packed[0 := 0x0A OR push_bit 4 (imei_digit imei 0)]
      in fold (\<lambda>index p. p[index := imei_digit imei (2 * index - 1) OR
             (if index < 7 then push_bit 4 (imei_digit imei (2 * index)) else 0)])
           [1..<8] packed)"

definition calculateImeiCheckDigit :: "string \<Rightarrow> u8" where
  "calculateImeiCheckDigit imei =
     (let sum = fold (\<lambda>index sum.
              let digit = push_bit (index mod 2) (scast (of_char (imei ! index) :: u8) - 0x30) :: u32
              in sum + (digit div 10 + digit mod 10)) [0..<14] 0
      in ucast ((10 - sum mod 10) mod 10))"

section \<open>Key blocks\<close>

definition buildEepromKey :: "u32 \<Rightarrow> string \<Rightarrow> u8 list" where
  "buildEepromKey esn imei =
     (let key = writeUInt32LE KEY_EEP 0x30 esn
      in blit key 0x38 (packImei imei))"

definition buildCipherKey1 :: "u32 \<Rightarrow> u32 \<Rightarrow> u8 list \<Rightarrow> u8 list" where
  "buildCipherKey1 code esn imei =
     (let key = writeUInt32LE KEY_MK1 0 (code XOR 0x7F0BF23B);
          key = writeUInt32LE key 4 esn
      in blit key 0x38 imei)"

definition buildCipherKey2 :: "u32 \<Rightarrow> u32 \<Rightarrow> u8 list \<Rightarrow> u8 list" where
  "buildCipherKey2 code esn imei =
     (let firstWord = 8 + push_bit 8 (ucast (imei ! 0)) + push_bit 16 (ucast (imei ! 1))
            + push_bit 24 (ucast (imei ! 2));
          key = writeUInt32LE KEY_MK2 0 firstWord;
          key = blit key 4 (chunk imei 3 4);
          key = writeUInt32LE key 0x38 (code XOR 0x7F0BF23B)
      in writeUInt32LE key 0x3C esn)"

section \<open>The IMEI cipher\<close>

definition imei_substitute :: "u8 \<Rightarrow> u8" where
  "imei_substitute oldValue =
     push_bit 4 (IMEI_SBOX_HIGH ! unat (drop_bit 4 oldValue)) + IMEI_SBOX_LOW ! unat (oldValue AND 0xF)"

definition transformImeiRound :: "u8 list \<Rightarrow> u8 \<Rightarrow> bool \<Rightarrow> u8 list" where
  "transformImeiRound data roundKey encrypt =
     fst (fold (\<lambda>i (data, mask).
         ((if encrypt then
             (let oldValue = data ! i; substituted = imei_substitute oldValue
              in data[i := substituted XOR roundKey XOR data ! (i + 5) XOR mask, i + 5 := oldValue])
           else
             (let oldValue = data ! (i + 5); substituted = imei_substitute oldValue
              in data[i + 5 := data ! i XOR substituted XOR roundKey XOR mask, i := oldValue])),
          mask XOR 0xFF))
       [0..<5] (data, 0))"

text \<open>The round loops: upwards from 0 or 1 while below 8, downwards from 6 or 7 while not negative.\<close>

function imei_encrypt_from :: "nat \<Rightarrow> u8 list \<Rightarrow> u8 list" where
  "imei_encrypt_from round data =
     (if round < 8
      then imei_encrypt_from (round + 2) (transformImeiRound data (IMEI_ROUND_KEYS ! round) True)
      else data)"
  by pat_completeness auto
termination
  by (relation "measure (\<lambda>(round, data). 8 - round)") auto

function imei_decrypt_from :: "int \<Rightarrow> u8 list \<Rightarrow> u8 list" where
  "imei_decrypt_from round data =
     (if 0 \<le> round
      then imei_decrypt_from (round - 2) (transformImeiRound data (IMEI_ROUND_KEYS ! nat round) False)
      else data)"
  by pat_completeness auto
termination
  by (relation "measure (\<lambda>(round, data). nat (round + 2))") auto

declare imei_encrypt_from.simps [simp del] imei_decrypt_from.simps [simp del]

definition imeiCipherEncrypt :: "u8 list \<Rightarrow> bool \<Rightarrow> u8 list" where
  "imeiCipherEncrypt data fullBlock = imei_encrypt_from (if fullBlock then 0 else 1) data"

definition imeiCipherDecrypt :: "u8 list \<Rightarrow> bool \<Rightarrow> u8 list" where
  "imeiCipherDecrypt data fullBlock = imei_decrypt_from (if fullBlock then 6 else 7) data"

section \<open>The stream cipher\<close>

record cipher_lane =
  states :: "u8 list"
  keyScheduleIndexes :: u8
  stateIndexes :: u8
  streamIndexes :: u8
  previousBytes :: u8

definition cipher_lane_init :: cipher_lane where
  "cipher_lane_init = \<lparr>states = map word_of_nat [0..<256], keyScheduleIndexes = 0, stateIndexes = 0,
     streamIndexes = 0, previousBytes = 0\<rparr>"

text \<open>One iteration of the key schedule for one lane: advance the index, then \<open>std::swap\<close>.\<close>

definition key_schedule_step :: "u8 list \<Rightarrow> nat \<Rightarrow> cipher_lane \<Rightarrow> cipher_lane" where
  "key_schedule_step key index c =
     (let k = keyScheduleIndexes c + (key ! (index mod 16) + states c ! index);
          a = states c ! index; b = states c ! unat k
      in c\<lparr>keyScheduleIndexes := k, states := (states c)[index := b, unat k := a]\<rparr>)"

text \<open>One iteration of the generator for one lane and the byte \<open>value\<close> it replaces.\<close>

definition cipher_step :: "bool \<Rightarrow> cipher_lane \<Rightarrow> u8 \<Rightarrow> cipher_lane \<times> u8" where
  "cipher_step encrypt c value =
     (let i = stateIndexes c + 1;
          p = previousBytes c + states c ! unat i;
          j = streamIndexes c + p;
          outputIndex = states c ! unat j + p;
          s1 = (states c)[unat i := states c ! unat j];
          s2 = s1[unat j := p];
          c' = c\<lparr>stateIndexes := i, streamIndexes := j, states := s2\<rparr>
      in if encrypt
         then (let v = s2 ! unat outputIndex XOR value in (c'\<lparr>previousBytes := v\<rparr>, v))
         else (c'\<lparr>previousBytes := value\<rparr>, s2 ! unat outputIndex XOR value))"

definition key_schedule :: "nat \<Rightarrow> u8 list list \<Rightarrow> cipher_lane list \<Rightarrow> cipher_lane list" where
  "key_schedule Count keys lanes =
     fold (\<lambda>index lanes.
         fold (\<lambda>lane lanes. lanes[lane := key_schedule_step (keys ! lane) index (lanes ! lane)])
           [0..<Count] lanes)
       [0..<256] lanes"

definition transformCipher ::
  "nat \<Rightarrow> bool \<Rightarrow> u8 list \<Rightarrow> nat \<Rightarrow> nat \<Rightarrow> nat \<Rightarrow> u8 list list \<Rightarrow> u8 list" where
  "transformCipher Count encrypt data off sz stride keys =
     (let lanes = key_schedule Count keys (replicate Count cipher_lane_init)
      in snd (fold (\<lambda>offset s.
             fold (\<lambda>lane (lanes, data).
                 let position = off + lane * stride + offset;
                     (c, v) = cipher_step encrypt (lanes ! lane) (data ! position)
                 in (lanes[lane := c], data[position := v]))
               [0..<Count] s)
           [0..<sz] (lanes, data)))"

definition cipherEncrypt :: "u8 list \<Rightarrow> nat \<Rightarrow> nat \<Rightarrow> u8 list \<Rightarrow> u8 list" where
  "cipherEncrypt data off sz key = transformCipher 1 True data off sz sz [md4 key]"

definition cipherDecrypt :: "u8 list \<Rightarrow> nat \<Rightarrow> nat \<Rightarrow> u8 list \<Rightarrow> u8 list" where
  "cipherDecrypt data off sz key = transformCipher 1 False data off sz sz [md4 key]"

definition cipherDecryptBatch :: "u8 list \<Rightarrow> nat \<Rightarrow> nat \<Rightarrow> u8 list list \<Rightarrow> u8 list" where
  "cipherDecryptBatch data off sz keys =
     transformCipher CIPHER_BATCH_SIZE False data off sz sz
       (map (\<lambda>lane. md4 (keys ! lane)) [0..<CIPHER_BATCH_SIZE])"

section \<open>BKEY and HASH\<close>

definition calculateBkeyAndHash :: "u32 \<Rightarrow> u32 \<Rightarrow> u8 list \<times> u8 list" where
  "calculateBkeyAndHash esn skey =
     (let block = writeUInt32LE (replicate 16 0) 0 esn;
          block = writeUInt32LE block 4 skey;
          block = fold (\<lambda>i block. block[8 + i := block ! i XOR block ! (i + 3)]) [0..<8] block;
          bkey = md5 block
      in (bkey, md5 bkey))"

section \<open>The lanes are independent\<close>

text \<open>
  The scalar cipher, on a list of bytes: the reference for one lane of the interleaved loops.
\<close>

fun cipher_run :: "bool \<Rightarrow> cipher_lane \<Rightarrow> u8 list \<Rightarrow> u8 list" where
  "cipher_run encrypt c [] = []"
| "cipher_run encrypt c (x # xs) =
     (case cipher_step encrypt c x of (c', v) \<Rightarrow> v # cipher_run encrypt c' xs)"

fun cipher_end :: "bool \<Rightarrow> cipher_lane \<Rightarrow> u8 list \<Rightarrow> cipher_lane" where
  "cipher_end encrypt c [] = c"
| "cipher_end encrypt c (x # xs) = cipher_end encrypt (fst (cipher_step encrypt c x)) xs"

definition cipher_key_lane :: "u8 list \<Rightarrow> cipher_lane" where
  "cipher_key_lane key = fold (key_schedule_step key) [0..<256] cipher_lane_init"

definition scalar_cipher :: "bool \<Rightarrow> u8 list \<Rightarrow> u8 list \<Rightarrow> u8 list" where
  "scalar_cipher encrypt digest xs = cipher_run encrypt (cipher_key_lane digest) xs"

lemma length_cipher_run [simp]: "length (cipher_run encrypt c xs) = length xs"
  by (induction xs arbitrary: c) (auto split: prod.splits)

lemma cipher_run_append:
  "cipher_run encrypt c (xs @ ys) =
     cipher_run encrypt c xs @ cipher_run encrypt (cipher_end encrypt c xs) ys"
  by (induction xs arbitrary: c) (auto split: prod.splits)

lemma cipher_end_append:
  "cipher_end encrypt c (xs @ ys) = cipher_end encrypt (cipher_end encrypt c xs) ys"
  by (induction xs arbitrary: c) auto

text \<open>Folding over lanes updates each lane with its own function.\<close>

lemma length_fold_lanes:
  "length lanes = Count \<Longrightarrow> length (fold (\<lambda>l ls. ls[l := g l (ls ! l)]) [0..<Count] lanes) = Count"
  by (simp add: length_self_loop)

lemma nth_fold_lanes:
  "length lanes = Count \<Longrightarrow> l < Count \<Longrightarrow>
    fold (\<lambda>l ls. ls[l := g l (ls ! l)]) [0..<Count] lanes ! l = g l (lanes ! l)"
  by (simp add: nth_self_loop)

lemma key_schedule_lanes_upto:
  "length (fold (\<lambda>index lanes.
         fold (\<lambda>lane lanes. lanes[lane := key_schedule_step (keys ! lane) index (lanes ! lane)])
           [0..<Count] lanes) [0..<n] (replicate Count cipher_lane_init)) = Count \<and>
   (l < Count \<longrightarrow> fold (\<lambda>index lanes.
         fold (\<lambda>lane lanes. lanes[lane := key_schedule_step (keys ! lane) index (lanes ! lane)])
           [0..<Count] lanes) [0..<n] (replicate Count cipher_lane_init) ! l
      = fold (key_schedule_step (keys ! l)) [0..<n] cipher_lane_init)"
proof (induction n)
  case 0
  then show ?case by simp
next
  case (Suc n)
  then show ?case
    by (simp add: length_fold_lanes [where g = "\<lambda>l. key_schedule_step (keys ! l) n"]
        nth_fold_lanes [where g = "\<lambda>l. key_schedule_step (keys ! l) n"])
qed

lemma length_key_schedule:
  "length (key_schedule Count keys (replicate Count cipher_lane_init)) = Count"
  unfolding key_schedule_def using key_schedule_lanes_upto by blast

lemma nth_key_schedule:
  "l < Count \<Longrightarrow> key_schedule Count keys (replicate Count cipher_lane_init) ! l = cipher_key_lane (keys ! l)"
  unfolding key_schedule_def cipher_key_lane_def using key_schedule_lanes_upto by blast

text \<open>
  \<open>lane_body\<close> is the body of the two loops.  Its effect on lane \<open>m\<close>'s record and data chunk is
  the in-place step \<open>chunk_body\<close> when it runs for lane \<open>m\<close>, and nothing when it runs for
  another lane.
\<close>

definition lane_body ::
  "bool \<Rightarrow> nat \<Rightarrow> nat \<Rightarrow> nat \<Rightarrow> nat \<Rightarrow> cipher_lane list \<times> u8 list \<Rightarrow> cipher_lane list \<times> u8 list" where
  "lane_body encrypt off stride offset lane = (\<lambda>(lanes, data).
     let position = off + lane * stride + offset;
         (c, v) = cipher_step encrypt (lanes ! lane) (data ! position)
     in (lanes[lane := c], data[position := v]))"

definition chunk_body :: "bool \<Rightarrow> nat \<Rightarrow> cipher_lane \<times> u8 list \<Rightarrow> cipher_lane \<times> u8 list" where
  "chunk_body encrypt offset = (\<lambda>(c, xs).
     let (c', v) = cipher_step encrypt c (xs ! offset) in (c', xs[offset := v]))"

definition lane_view :: "nat \<Rightarrow> nat \<Rightarrow> nat \<Rightarrow> nat \<Rightarrow> cipher_lane list \<times> u8 list \<Rightarrow> cipher_lane \<times> u8 list" where
  "lane_view off stride sz m = (\<lambda>(lanes, data). (lanes ! m, chunk data (off + m * stride) sz))"

definition lane_shape :: "nat \<Rightarrow> nat \<Rightarrow> nat \<Rightarrow> cipher_lane list \<times> u8 list \<Rightarrow> bool" where
  "lane_shape Count off stride = (\<lambda>(lanes, data).
     length lanes = Count \<and> off + Count * stride \<le> length data)"

lemma lane_shape_body:
  "lane_shape Count off stride s \<Longrightarrow> lane_shape Count off stride (lane_body encrypt off stride offset lane s)"
  by (cases s) (auto simp: lane_shape_def lane_body_def Let_def split: prod.splits)

lemma lane_shape_fold:
  "lane_shape Count off stride s \<Longrightarrow>
    lane_shape Count off stride (fold (lane_body encrypt off stride offset) ls s)"
  by (induction ls arbitrary: s) (simp_all add: lane_shape_body)

lemma lane_end: "m < Count \<Longrightarrow> m * stride + stride \<le> Count * (stride :: nat)"
proof -
  assume "m < Count"
  then have "Suc m * stride \<le> Count * stride" by (intro mult_le_mono1) simp
  then show ?thesis by simp
qed

lemma lane_view_same:
  assumes "lane_shape Count off stride s" and "m < Count" and "offset < sz" and "sz \<le> stride"
  shows "lane_view off stride sz m (lane_body encrypt off stride offset m s)
    = chunk_body encrypt offset (lane_view off stride sz m s)"
proof (cases s)
  case (Pair lanes data)
  have "off + m * stride + offset < length data"
    using assms lane_end [OF assms(2), of stride] by (auto simp: Pair lane_shape_def)
  then show ?thesis
    using assms(1-3)
    by (auto simp: Pair lane_shape_def lane_view_def lane_body_def chunk_body_def chunk_update
        Let_def split: prod.splits)
qed

lemma lane_view_other:
  assumes "lane_shape Count off stride s" and "m < Count" and "lane \<noteq> m" and "offset < sz" and "sz \<le> stride"
  shows "lane_view off stride sz m (lane_body encrypt off stride offset lane s) = lane_view off stride sz m s"
proof -
  have far: "off + lane * stride + offset < off + m * stride
      \<or> off + m * stride + sz \<le> off + lane * stride + offset"
  proof (cases "lane < m")
    case True
    then show ?thesis using lane_end [OF True, of stride] assms by linarith
  next
    case False
    then have "m < lane" using assms(3) by linarith
    then show ?thesis using lane_end [of m lane stride] assms by linarith
  qed
  show ?thesis
    using assms far
    by (cases s) (auto simp: lane_view_def lane_body_def chunk_update_other Let_def split: prod.splits)
qed

lemma lane_view_fold:
  assumes "lane_shape Count off stride s" and "m < Count" and "offset < sz" and "sz \<le> stride"
  shows "lane_view off stride sz m (fold (lane_body encrypt off stride offset) [0..<n] s)
    = (if m < n then chunk_body encrypt offset (lane_view off stride sz m s) else lane_view off stride sz m s)"
proof (induction n)
  case 0
  then show ?case by simp
next
  case (Suc n)
  have shape: "lane_shape Count off stride (fold (lane_body encrypt off stride offset) [0..<n] s)"
    using assms(1) by (rule lane_shape_fold)
  show ?case
    using Suc.IH lane_view_same [OF shape assms(2-4)] lane_view_other [OF shape assms(2) _ assms(3,4), of n]
    by (cases "m = n") auto
qed

text \<open>The in-place scalar loop is the run over the list.\<close>

lemma chunk_loop:
  assumes "n \<le> length xs"
  shows "fold (chunk_body encrypt) [0..<n] (c, xs)
    = (cipher_end encrypt c (take n xs), cipher_run encrypt c (take n xs) @ drop n xs)"
  using assms
proof (induction n)
  case 0
  then show ?case by simp
next
  case (Suc n)
  then have n: "n < length xs" and tk: "take (Suc n) xs = take n xs @ [xs ! n]"
    and dr: "drop n xs = xs ! n # drop (Suc n) xs"
    by (simp_all add: take_Suc_conv_app_nth Cons_nth_drop_Suc)
  show ?case
    using Suc n
    by (simp add: chunk_body_def tk dr cipher_run_append cipher_end_append nth_append list_update_append
        split: prod.splits)
qed

lemma transformCipher_body:
  "transformCipher Count encrypt data off sz stride keys =
     snd (fold (\<lambda>offset. fold (lane_body encrypt off stride offset) [0..<Count]) [0..<sz]
       (key_schedule Count keys (replicate Count cipher_lane_init), data))"
  by (simp add: transformCipher_def lane_body_def [abs_def])

lemma lane_view_loops:
  assumes "lane_shape Count off stride s" and "m < Count" and "n \<le> sz" and "sz \<le> stride"
  shows "lane_shape Count off stride
      (fold (\<lambda>offset. fold (lane_body encrypt off stride offset) [0..<Count]) [0..<n] s) \<and>
    lane_view off stride sz m
      (fold (\<lambda>offset. fold (lane_body encrypt off stride offset) [0..<Count]) [0..<n] s)
    = fold (chunk_body encrypt) [0..<n] (lane_view off stride sz m s)"
  using assms(3)
proof (induction n)
  case 0
  then show ?case using assms(1) by simp
next
  case (Suc n)
  then show ?case
    using lane_view_fold [OF _ assms(2) _ assms(4), of off _ n encrypt Count] assms(2)
    by (simp add: lane_shape_fold)
qed

lemma transformCipher_lane:
  assumes "off + Count * stride \<le> length data" and "m < Count" and "sz \<le> stride"
  shows "chunk (transformCipher Count encrypt data off sz stride keys) (off + m * stride) sz
    = scalar_cipher encrypt (keys ! m) (chunk data (off + m * stride) sz)"
proof -
  let ?s = "(key_schedule Count keys (replicate Count cipher_lane_init), data)"
  let ?t = "fold (\<lambda>offset. fold (lane_body encrypt off stride offset) [0..<Count]) [0..<sz] ?s"
  have shape: "lane_shape Count off stride ?s"
    using assms(1) by (simp add: lane_shape_def length_key_schedule)
  have len: "length (chunk data (off + m * stride) sz) = sz"
    using assms lane_end [OF assms(2), of stride] by simp
  have "lane_view off stride sz m ?t = fold (chunk_body encrypt) [0..<sz] (lane_view off stride sz m ?s)"
    using lane_view_loops [OF shape assms(2) order_refl assms(3)] by blast
  also have "\<dots> = fold (chunk_body encrypt) [0..<sz]
      (cipher_key_lane (keys ! m), chunk data (off + m * stride) sz)"
    using assms(2) by (simp add: lane_view_def nth_key_schedule)
  also have "snd \<dots> = scalar_cipher encrypt (keys ! m) (chunk data (off + m * stride) sz)"
    using len by (simp add: chunk_loop scalar_cipher_def)
  finally have "snd (lane_view off stride sz m ?t)
      = scalar_cipher encrypt (keys ! m) (chunk data (off + m * stride) sz)" by simp
  then show ?thesis
    unfolding transformCipher_body by (simp add: lane_view_def split: prod.splits)
qed

text \<open>Length and frame: the loops touch the lanes' own runs only.\<close>

lemma lane_body_frame:
  "length (snd (lane_body encrypt off stride offset lane s)) = length (snd s) \<and>
   (j \<noteq> off + lane * stride + offset \<longrightarrow> snd (lane_body encrypt off stride offset lane s) ! j = snd s ! j)"
  by (cases s) (auto simp: lane_body_def Let_def split: prod.splits)

lemma lane_fold_frame:
  "length (snd (fold (lane_body encrypt off stride offset) ls s)) = length (snd s) \<and>
   ((\<forall>l\<in>set ls. j \<noteq> off + l * stride + offset) \<longrightarrow>
     snd (fold (lane_body encrypt off stride offset) ls s) ! j = snd s ! j)"
  by (induction ls arbitrary: s) (simp_all add: lane_body_frame)

lemma loops_frame:
  "length (snd (fold (\<lambda>offset. fold (lane_body encrypt off stride offset) ls) os s)) = length (snd s) \<and>
   ((\<forall>offset\<in>set os. \<forall>l\<in>set ls. j \<noteq> off + l * stride + offset) \<longrightarrow>
     snd (fold (\<lambda>offset. fold (lane_body encrypt off stride offset) ls) os s) ! j = snd s ! j)"
  by (induction os arbitrary: s) (simp_all add: lane_fold_frame)

lemma length_transformCipher [simp, length_facts]:
  "length (transformCipher Count encrypt data off sz stride keys) = length data"
  unfolding transformCipher_body using loops_frame by (metis snd_conv)

lemma transformCipher_frame [frame_facts]:
  assumes "\<forall>l<Count. \<forall>k < sz. j \<noteq> off + l * stride + k"
  shows "transformCipher Count encrypt data off sz stride keys ! j = data ! j"
proof -
  have "\<forall>k\<in>set [0..<sz]. \<forall>l\<in>set [0..<Count]. j \<noteq> off + l * stride + k"
    using assms by auto
  then show ?thesis
    unfolding transformCipher_body
    using loops_frame [of encrypt off stride "[0..<Count]" "[0..<sz]"
        "(key_schedule Count keys (replicate Count cipher_lane_init), data)" j]
    by (simp del: set_upt)
qed

text \<open>With one lane, the transformation is the scalar cipher on the run, in place.\<close>

lemma transformCipher_one:
  assumes "off + sz \<le> length data"
  shows "transformCipher 1 encrypt data off sz sz [digest]
    = blit data off (scalar_cipher encrypt digest (chunk data off sz))"
proof (rule nth_equalityI)
  let ?x = "scalar_cipher encrypt digest (chunk data off sz)"
  have len: "length ?x = sz" using assms by (simp add: scalar_cipher_def)
  show "length (transformCipher 1 encrypt data off sz sz [digest]) = length (blit data off ?x)"
    using assms len by simp
  fix j assume "j < length (transformCipher 1 encrypt data off sz sz [digest])"
  then have j: "j < length data" by simp
  show "transformCipher 1 encrypt data off sz sz [digest] ! j = blit data off ?x ! j"
  proof (cases "off \<le> j \<and> j < off + sz")
    case True
    then obtain k where k: "j = off + k" "k < sz" by (auto simp: le_iff_add)
    have "chunk (transformCipher 1 encrypt data off sz sz [digest]) off sz ! k = ?x ! k"
      using transformCipher_lane [of off 1 sz data 0 sz encrypt "[digest]"] assms by simp
    then show ?thesis using k assms len by (simp add: nth_blit)
  next
    case False
    then have "transformCipher 1 encrypt data off sz sz [digest] ! j = data ! j"
      by (intro transformCipher_frame) auto
    then show ?thesis using False assms len by (auto simp: nth_blit)
  qed
qed

section \<open>Decryption inverts encryption\<close>

text \<open>
  The state of both directions depends on the ciphertext only, so the two runs stay in step.
\<close>

lemma cipher_step_inverse:
  assumes "cipher_step encrypt c x = (c', y)"
  shows "cipher_step (\<not> encrypt) c y = (c', x)"
  using assms by (cases encrypt) (auto simp: cipher_step_def Let_def)

lemma cipher_run_inverse: "cipher_run (\<not> encrypt) c (cipher_run encrypt c xs) = xs"
proof (induction xs arbitrary: c)
  case Nil
  then show ?case by simp
next
  case (Cons x xs)
  obtain c' y where step: "cipher_step encrypt c x = (c', y)" by fastforce
  then show ?case using Cons cipher_step_inverse [OF step] by simp
qed

text \<open>
  The interface of a length-preserving cipher: what the record builders and the ESN checks rely
  on.  \<open>ok\<close> is the set of lengths it is defined for.
\<close>

locale byte_cipher =
  fixes enc :: "'k \<Rightarrow> u8 list \<Rightarrow> u8 list"
    and dec :: "'k \<Rightarrow> u8 list \<Rightarrow> u8 list"
    and ok :: "nat \<Rightarrow> bool"
  assumes dec_enc: "ok (length xs) \<Longrightarrow> dec k (enc k xs) = xs"
    and enc_dec: "ok (length xs) \<Longrightarrow> enc k (dec k xs) = xs"
    and length_enc: "ok (length xs) \<Longrightarrow> length (enc k xs) = length xs"
    and length_dec: "ok (length xs) \<Longrightarrow> length (dec k xs) = length xs"
begin

lemma dec_eq_iff: "ok (length c) \<Longrightarrow> ok (length m) \<Longrightarrow> dec k c = m \<longleftrightarrow> c = enc k m"
  using dec_enc enc_dec by metis

lemma enc_inject: "ok (length xs) \<Longrightarrow> ok (length ys) \<Longrightarrow> enc k xs = enc k ys \<longleftrightarrow> xs = ys"
  using dec_enc by metis

lemma enc_after_dec_other:
  "ok (length c) \<Longrightarrow> dec k c = dec k' c \<Longrightarrow> enc k (dec k' c) = c"
  using enc_dec by metis

end

lemma scalar_cipher_inverse:
  "scalar_cipher (\<not> encrypt) digest (scalar_cipher encrypt digest xs) = xs"
  by (simp add: scalar_cipher_def cipher_run_inverse)

lemma length_scalar_cipher [simp]: "length (scalar_cipher encrypt digest xs) = length xs"
  by (simp add: scalar_cipher_def)

lemma cipherEncrypt_blit:
  "off + sz \<le> length data \<Longrightarrow>
    cipherEncrypt data off sz key = blit data off (scalar_cipher True (md4 key) (chunk data off sz))"
  by (simp add: cipherEncrypt_def transformCipher_one [simplified])

lemma cipherDecrypt_blit:
  "off + sz \<le> length data \<Longrightarrow>
    cipherDecrypt data off sz key = blit data off (scalar_cipher False (md4 key) (chunk data off sz))"
  by (simp add: cipherDecrypt_def transformCipher_one [simplified])

interpretation stream: byte_cipher
  "\<lambda>key xs. cipherEncrypt xs 0 (length xs) key" "\<lambda>key xs. cipherDecrypt xs 0 (length xs) key" "\<lambda>_. True"
  by unfold_locales
    (use scalar_cipher_inverse [where encrypt = True] scalar_cipher_inverse [where encrypt = False]
     in \<open>simp_all add: cipherEncrypt_blit cipherDecrypt_blit\<close>)

lemma length_cipherEncrypt [simp, length_facts]: "length (cipherEncrypt data off sz key) = length data"
  by (simp add: cipherEncrypt_def)

lemma length_cipherDecrypt [simp, length_facts]: "length (cipherDecrypt data off sz key) = length data"
  by (simp add: cipherDecrypt_def)

lemma length_cipherDecryptBatch [simp, length_facts]:
  "length (cipherDecryptBatch data off sz keys) = length data"
  by (simp add: cipherDecryptBatch_def)

lemma cipherDecryptBatch_scalar:
  assumes "off + CIPHER_BATCH_SIZE * sz \<le> length data" and "lane < CIPHER_BATCH_SIZE"
  shows "chunk (cipherDecryptBatch data off sz keys) (off + lane * sz) sz
    = scalar_cipher False (md4 (keys ! lane)) (chunk data (off + lane * sz) sz)"
  using assms by (simp add: cipherDecryptBatch_def transformCipher_lane)

section \<open>The IMEI cipher\<close>

lemma list10_cases:
  assumes "length d = 10"
  obtains d0 d1 d2 d3 d4 d5 d6 d7 d8 d9 where "d = [d0, d1, d2, d3, d4, d5, d6, d7, d8, d9]"
  using assms by (auto simp: length_Suc_conv eval_nat_numeral)

lemma upt_0_5: "[0..<5] = [0, 1, 2, 3, 4 :: nat]"
  by (simp add: upt_rec)

lemma encrypt_round_10:
  "transformImeiRound [d0, d1, d2, d3, d4, d5, d6, d7, d8, d9] k True =
     [imei_substitute d0 XOR k XOR d5 XOR 0, imei_substitute d1 XOR k XOR d6 XOR 0xFF,
      imei_substitute d2 XOR k XOR d7 XOR 0, imei_substitute d3 XOR k XOR d8 XOR 0xFF,
      imei_substitute d4 XOR k XOR d9 XOR 0, d0, d1, d2, d3, d4]"
  by (simp add: transformImeiRound_def upt_0_5 Let_def)

lemma decrypt_round_10:
  "transformImeiRound [d0, d1, d2, d3, d4, d5, d6, d7, d8, d9] k False =
     [d5, d6, d7, d8, d9, d0 XOR imei_substitute d5 XOR k XOR 0, d1 XOR imei_substitute d6 XOR k XOR 0xFF,
      d2 XOR imei_substitute d7 XOR k XOR 0, d3 XOR imei_substitute d8 XOR k XOR 0xFF,
      d4 XOR imei_substitute d9 XOR k XOR 0]"
  by (simp add: transformImeiRound_def upt_0_5 Let_def)

lemma length_transformImeiRound [simp]: "length d = 10 \<Longrightarrow> length (transformImeiRound d k e) = 10"
  by (cases e) (auto elim!: list10_cases simp: encrypt_round_10 decrypt_round_10)

lemma imei_round_inverse:
  "length d = 10 \<Longrightarrow> transformImeiRound (transformImeiRound d k e) k (\<not> e) = d"
  by (cases e) (auto elim!: list10_cases simp: encrypt_round_10 decrypt_round_10 ac_simps)

text \<open>The two loops unrolled: the decryption visits the encryption's round keys in reverse.\<close>

definition imei_rounds :: "bool \<Rightarrow> u8 list" where
  "imei_rounds fullBlock = (if fullBlock then [0xE3, 0x5C, 0xB0, 0xC4] else [0xB7, 0x13, 0xD2, 0x19])"

lemma imeiCipherEncrypt_rounds:
  "imeiCipherEncrypt d fullBlock = fold (\<lambda>k d. transformImeiRound d k True) (imei_rounds fullBlock) d"
  by (cases fullBlock) (simp_all add: imeiCipherEncrypt_def imei_encrypt_from.simps imei_rounds_def IMEI_ROUND_KEYS_def)

lemma imeiCipherDecrypt_rounds:
  "imeiCipherDecrypt d fullBlock =
     fold (\<lambda>k d. transformImeiRound d k False) (rev (imei_rounds fullBlock)) d"
  by (cases fullBlock) (simp_all add: imeiCipherDecrypt_def imei_decrypt_from.simps imei_rounds_def IMEI_ROUND_KEYS_def)

lemma imei_rounds_length:
  "length d = 10 \<Longrightarrow> length (fold (\<lambda>k d. transformImeiRound d k e) ks d) = 10"
  by (induction ks arbitrary: d) auto

lemma imei_rounds_inverse:
  "length d = 10 \<Longrightarrow> fold (\<lambda>k d. transformImeiRound d k (\<not> e)) (rev ks)
     (fold (\<lambda>k d. transformImeiRound d k e) ks d) = d"
  by (induction ks arbitrary: d) (simp_all add: imei_round_inverse)

interpretation imei: byte_cipher
  "\<lambda>fullBlock d. imeiCipherEncrypt d fullBlock" "\<lambda>fullBlock d. imeiCipherDecrypt d fullBlock" "\<lambda>n. n = 10"
proof
  fix d :: "u8 list" and fullBlock assume len: "length d = 10"
  show "imeiCipherDecrypt (imeiCipherEncrypt d fullBlock) fullBlock = d"
    using imei_rounds_inverse [OF len, of True "imei_rounds fullBlock"]
    by (simp add: imeiCipherEncrypt_rounds imeiCipherDecrypt_rounds)
  show "imeiCipherEncrypt (imeiCipherDecrypt d fullBlock) fullBlock = d"
    using imei_rounds_inverse [OF len, of False "rev (imei_rounds fullBlock)"]
    by (simp add: imeiCipherEncrypt_rounds imeiCipherDecrypt_rounds)
  show "length (imeiCipherEncrypt d fullBlock) = length d"
    and "length (imeiCipherDecrypt d fullBlock) = length d"
    using len by (simp_all add: imeiCipherEncrypt_rounds imeiCipherDecrypt_rounds imei_rounds_length)
qed

section \<open>Nibbles and digits\<close>

lemma less16_bit: "(x :: u8) < 16 \<Longrightarrow> bit x k \<Longrightarrow> k < 4"
proof -
  assume x: "x < 16" and k: "bit x k"
  have "x < 2 ^ 4" using x by simp
  then have "x AND mask 4 = x" by (rule less_mask_eq)
  then show "k < 4" using k by (metis bit_and_iff bit_mask_iff)
qed

lemma low_nibble_pack:
  fixes x y :: u8
  assumes "x < 16"
  shows "(x OR push_bit 4 y) AND 0xF = x"
proof -
  have m: "(0xF :: u8) = mask 4" by (simp add: mask_eq_exp_minus_1)
  show ?thesis
    unfolding m
    by (intro bit_word_eqI) (auto simp: bit_simps dest: less16_bit [OF assms])
qed

lemma high_nibble_pack:
  fixes x y :: u8
  assumes "x < 16" and "y < 16"
  shows "drop_bit 4 (x OR push_bit 4 y) = y"
  by (intro bit_word_eqI) (auto simp: bit_simps dest: less16_bit [OF assms(1)] less16_bit [OF assms(2)])

lemma pack_inject:
  fixes x y x' y' :: u8
  assumes "x < 16" "y < 16" "x' < 16" "y' < 16"
  shows "x OR push_bit 4 y = x' OR push_bit 4 y' \<longleftrightarrow> x = x' \<and> y = y'"
  using assms low_nibble_pack high_nibble_pack by metis

text \<open>The digit characters of an IMEI as numbers.\<close>

lemma imei_digit_value:
  assumes "isDigit (imei ! i)"
  shows "imei_digit imei i = word_of_nat (digit_value (imei ! i))"
proof -
  have "code_of (imei ! i) = digit_value (imei ! i) + 48"
    using assms by (simp add: isDigit_def digit_value_def)
  then have "(of_char (imei ! i) :: u8) = word_of_nat (digit_value (imei ! i)) + 48"
    unfolding code_of_def by (metis of_nat_add of_nat_numeral of_nat_of_char)
  then show ?thesis by (simp add: imei_digit_def)
qed

lemma digit_word_less:
  assumes "n < 10"
  shows "(word_of_nat n :: u8) < 16" and "unat (word_of_nat n :: u8) = n"
proof -
  show u: "unat (word_of_nat n :: u8) = n" using assms by (intro unat_word_of_nat_small) simp
  show "(word_of_nat n :: u8) < 16" using assms by (simp add: word_less_nat_alt u)
qed

lemma imei_digit_less:
  "isDigit (imei ! i) \<Longrightarrow> imei_digit imei i < 16"
  by (simp add: imei_digit_value digit_word_less digit_value_less)

lemma imei_digit_inject:
  assumes "isDigit (a ! i)" and "isDigit (b ! j)"
  shows "imei_digit a i = imei_digit b j \<longleftrightarrow> a ! i = b ! j"
  using assms digit_word_less(2) [OF digit_value_less [OF assms(1)]]
    digit_word_less(2) [OF digit_value_less [OF assms(2)]]
  by (metis digit_value_inject imei_digit_value)

text \<open>The packed form, byte by byte.\<close>

lemma upt_1_8: "[1..<8] = [1, 2, 3, 4, 5, 6, 7 :: nat]"
  by (simp add: upt_rec)

lemma packImei_bytes:
  "packImei imei = [0x0A OR push_bit 4 (imei_digit imei 0),
     imei_digit imei 1 OR push_bit 4 (imei_digit imei 2),
     imei_digit imei 3 OR push_bit 4 (imei_digit imei 4),
     imei_digit imei 5 OR push_bit 4 (imei_digit imei 6),
     imei_digit imei 7 OR push_bit 4 (imei_digit imei 8),
     imei_digit imei 9 OR push_bit 4 (imei_digit imei 10),
     imei_digit imei 11 OR push_bit 4 (imei_digit imei 12),
     imei_digit imei 13]"
  by (simp add: packImei_def Let_def upt_1_8 eval_nat_numeral)

lemma length_packImei [simp, length_facts]: "length (packImei imei) = 8"
  by (simp add: packImei_bytes)

lemma length_key_tables [simp, length_facts]:
  "length KEY_EEP = 64" "length KEY_MK1 = 64" "length KEY_MK2 = 64"
  by (simp_all add: KEY_EEP_def KEY_MK1_def KEY_MK2_def)

lemma length_buildEepromKey [simp, length_facts]: "length (buildEepromKey esn imei) = 64"
  by (simp add: buildEepromKey_def)

lemma length_buildCipherKey1 [simp, length_facts]:
  "length imei = 8 \<Longrightarrow> length (buildCipherKey1 code esn imei) = 64"
  by (simp add: buildCipherKey1_def)

lemma length_buildCipherKey2 [simp, length_facts]:
  "length imei = 8 \<Longrightarrow> length (buildCipherKey2 code esn imei) = 64"
  by (simp add: buildCipherKey2_def Let_def)

lemma packImei_inject:
  assumes "\<And>i. i < 14 \<Longrightarrow> isDigit (a ! i)" and "\<And>i. i < 14 \<Longrightarrow> isDigit (b ! i)"
    and "14 \<le> length a" and "14 \<le> length b"
  shows "packImei a = packImei b \<longleftrightarrow> take 14 a = take 14 b"
proof
  assume eq: "packImei a = packImei b"
  have dig: "imei_digit a i = imei_digit b i" if "i < 14" for i
  proof -
    have l: "imei_digit a j < 16" "imei_digit b j < 16" if "j < 14" for j
      using that assms by (simp_all add: imei_digit_less)
    have "(0x0A :: u8) < 16" by simp
    then have all: "imei_digit a 0 = imei_digit b 0" "imei_digit a 1 = imei_digit b 1"
      "imei_digit a 2 = imei_digit b 2" "imei_digit a 3 = imei_digit b 3"
      "imei_digit a 4 = imei_digit b 4" "imei_digit a 5 = imei_digit b 5"
      "imei_digit a 6 = imei_digit b 6" "imei_digit a 7 = imei_digit b 7"
      "imei_digit a 8 = imei_digit b 8" "imei_digit a 9 = imei_digit b 9"
      "imei_digit a 10 = imei_digit b 10" "imei_digit a 11 = imei_digit b 11"
      "imei_digit a 12 = imei_digit b 12" "imei_digit a 13 = imei_digit b 13"
      using eq l unfolding packImei_bytes by (simp_all add: pack_inject)
    have "i \<in> {0, 1, 2, 3, 4, 5, 6, 7, 8, 9, 10, 11, 12, 13}" using that by simp presburger
    then show ?thesis using all by auto
  qed
  show "take 14 a = take 14 b"
    using assms dig by (intro nth_equalityI) (auto simp: imei_digit_inject)
next
  assume eq: "take 14 a = take 14 b"
  have "a ! i = b ! i" if "i < 14" for i using that by (metis eq nth_take)
  then have "imei_digit a i = imei_digit b i" if "i < 14" for i
    using that by (simp add: imei_digit_def)
  then show "packImei a = packImei b" by (simp add: packImei_bytes)
qed

section \<open>The check digit\<close>

text \<open>
  The Luhn sum of a digit list: every second digit from index 1 is doubled, and the two decimal
  digits of each product are added.
\<close>

definition luhn_term :: "nat \<Rightarrow> nat \<Rightarrow> nat" where
  "luhn_term i d = (let v = d * 2 ^ (i mod 2) in v div 10 + v mod 10)"

definition luhn_sum :: "nat list \<Rightarrow> nat" where
  "luhn_sum ds = (\<Sum>i<length ds. luhn_term i (ds ! i))"

definition luhn_valid :: "nat list \<Rightarrow> bool" where
  "luhn_valid ds \<longleftrightarrow> luhn_sum ds mod 10 = 0"

lemma less10_cases:
  fixes d :: nat
  assumes "d < 10"
  shows "d \<in> {0, 1, 2, 3, 4, 5, 6, 7, 8, 9}"
  using assms by simp presburger

lemma luhn_term_less: "d < 10 \<Longrightarrow> luhn_term i d < 10"
  by (drule less10_cases, cases "i mod 2 = 0")
    (auto simp: luhn_term_def Let_def not_mod_2_eq_0_eq_1)

lemma luhn_term_word:
  assumes "isDigit c"
  shows "(let digit = push_bit (i mod 2) (scast (of_char c :: u8) - 0x30) :: u32
      in digit div 10 + digit mod 10) = word_of_nat (luhn_term i (digit_value c))"
proof -
  have code: "code_of c = digit_value c + 48"
    using assms by (simp add: isDigit_def digit_value_def)
  have char: "(of_char c :: u8) = word_of_nat (digit_value c + 48)"
    unfolding code [symmetric] code_of_def by (simp add: of_nat_of_char)
  have "i mod 2 = 0 \<or> i mod 2 = 1" by linarith
  then show ?thesis
    using less10_cases [OF digit_value_less [OF assms]] unfolding char luhn_term_def Let_def
    by (elim disjE insertE) (simp_all add: push_bit_eq_mult)
qed

lemma check_digit_sum:
  assumes "\<And>i. i < n \<Longrightarrow> isDigit (imei ! i)"
  shows "fold (\<lambda>index sum.
              let digit = push_bit (index mod 2) (scast (of_char (imei ! index) :: u8) - 0x30) :: u32
              in sum + (digit div 10 + digit mod 10)) [0..<n] 0
    = word_of_nat (\<Sum>i<n. luhn_term i (digit_value (imei ! i)))"
  using assms
proof (induction n)
  case 0
  then show ?case by simp
next
  case (Suc n)
  then show ?case using luhn_term_word [of "imei ! n" n] by (simp add: Let_def)
qed

lemma luhn_sum_snoc: "luhn_sum (ds @ [d]) = luhn_sum ds + luhn_term (length ds) d"
  by (simp add: luhn_sum_def nth_append)

lemma complement_digit:
  fixes s d :: nat
  assumes "d < 10"
  shows "((s + d) mod 10 = 0) = (d = (10 - s mod 10) mod 10)"
proof -
  define r where "r = s mod 10"
  have r: "r < 10" by (simp add: r_def)
  have split: "(s + d) mod 10 = (if r + d < 10 then r + d else r + d - 10)"
  proof -
    have "(s + d) mod 10 = (r + d) mod 10" by (simp add: r_def mod_add_left_eq)
    also have "\<dots> = (if r + d < 10 then r + d else r + d - 10)"
    proof (cases "r + d < 10")
      case False
      then have "(r + d) mod 10 = (r + d - 10) mod 10" by (simp only: le_mod_geq not_less)
      then show ?thesis using False r assms by simp
    qed simp
    finally show ?thesis .
  qed
  have comp: "(10 - r) mod 10 = (if r = 0 then 0 else 10 - r)" using r by simp
  show ?thesis
    unfolding split r_def [symmetric] comp using r assms by auto
qed

lemma check_digit_nat:
  assumes "14 \<le> length imei" and "\<And>i. i < 14 \<Longrightarrow> isDigit (imei ! i)"
  shows "unat (calculateImeiCheckDigit imei)
    = (10 - luhn_sum (map digit_value (take 14 imei)) mod 10) mod 10"
proof -
  let ?S = "luhn_sum (map digit_value (take 14 imei))"
  have S: "?S = (\<Sum>i<14. luhn_term i (digit_value (imei ! i)))"
    using assms(1) by (simp add: luhn_sum_def min_absorb2)
  have "?S \<le> (\<Sum>i<(14 :: nat). 10)"
    unfolding S by (rule sum_mono) (simp add: less_imp_le luhn_term_less digit_value_less assms(2))
  then have bound: "?S \<le> 140" by simp
  have u: "unat (word_of_nat ?S :: u32) = ?S"
    using bound by (intro unat_word_of_nat_small) simp
  then have m: "unat (word_of_nat ?S mod 10 :: u32) = ?S mod 10"
    by (simp add: unat_mod_distrib)
  have "unat ((10 - word_of_nat ?S mod 10) mod 10 :: u32) = (10 - ?S mod 10) mod 10"
    by (simp add: unat_mod_distrib unat_sub word_le_nat_alt m u)
  then have "unat (ucast ((10 - word_of_nat ?S mod 10) mod 10 :: u32) :: u8) = (10 - ?S mod 10) mod 10"
    by (subst unat_ucast_small) (simp_all add: u unat_mod_distrib)
  then show ?thesis
    unfolding calculateImeiCheckDigit_def Let_def [of "fold _ _ _"] S
    by (simp only: check_digit_sum assms(2))
qed

section \<open>The BKEY message\<close>

text \<open>
  The in-place loop over the 16-byte block is, on 32-bit words, two shifts and exclusive ors; the
  ESN search computes the words directly.
\<close>

definition bkey_word2 :: "u32 \<Rightarrow> u32 \<Rightarrow> u32" where
  "bkey_word2 esn skey = esn XOR drop_bit 24 esn XOR push_bit 8 skey"

definition bkey_word3 :: "u32 \<Rightarrow> u32 \<Rightarrow> u32" where
  "bkey_word3 esn skey = skey XOR drop_bit 24 skey XOR push_bit 8 (bkey_word2 esn skey)"

lemma le_bytes_list:
  "le_bytes v = [ucast v, ucast (drop_bit 8 v), ucast (drop_bit 16 v), ucast (drop_bit 24 v)]"
  by (simp add: le_bytes_def upt_rec)

lemma upt_0_8: "[0..<8] = [0, 1, 2, 3, 4, 5, 6, 7 :: nat]"
  by (simp add: upt_rec)

lemma bkey_loop_bytes:
  "fold (\<lambda>i block. block[8 + i := block ! i XOR block ! (i + 3)]) [0..<8]
     [b0, b1, b2, b3, b4, b5, b6, b7, x0, x1, x2, x3, x4, x5, x6, x7 :: u8]
   = [b0, b1, b2, b3, b4, b5, b6, b7, b0 XOR b3, b1 XOR b4, b2 XOR b5, b3 XOR b6, b4 XOR b7,
      b5 XOR (b0 XOR b3), b6 XOR (b1 XOR b4), b7 XOR (b2 XOR b5)]"
  by (simp add: upt_0_8)

lemma ucast_u8_eqI:
  fixes v w :: u32
  assumes "\<And>k. k < 8 \<Longrightarrow> bit v k = bit w k"
  shows "(ucast v :: u8) = ucast w"
  using assms by (intro bit_word_eqI) (simp add: bit_ucast_iff)

lemma bit_u32_beyond [simp]: "32 \<le> k \<Longrightarrow> \<not> bit (w :: u32) k"
  using bit_imp_le_length [of w k] by auto

lemma bkey_word2_bytes:
  "le_bytes (bkey_word2 esn skey) =
     [ucast esn XOR ucast (drop_bit 24 esn), ucast (drop_bit 8 esn) XOR ucast skey,
      ucast (drop_bit 16 esn) XOR ucast (drop_bit 8 skey),
      ucast (drop_bit 24 esn) XOR ucast (drop_bit 16 skey)]"
  unfolding le_bytes_list bkey_word2_def
  by (auto intro!: bit_word_eqI simp: bit_simps)

lemma bkey_word3_bytes:
  "le_bytes (bkey_word3 esn skey) =
     [ucast skey XOR ucast (drop_bit 24 skey),
      ucast (drop_bit 8 skey) XOR (ucast esn XOR ucast (drop_bit 24 esn)),
      ucast (drop_bit 16 skey) XOR (ucast (drop_bit 8 esn) XOR ucast skey),
      ucast (drop_bit 24 skey) XOR (ucast (drop_bit 16 esn) XOR ucast (drop_bit 8 skey))]"
  unfolding le_bytes_list bkey_word3_def bkey_word2_def
  by (auto intro!: bit_word_eqI simp: bit_simps)

lemma replicate_4: "replicate 4 x = [x, x, x, x]"
  by (simp add: eval_nat_numeral)

definition bkey_message :: "u32 \<Rightarrow> u32 \<Rightarrow> u8 list" where
  "bkey_message esn skey =
     le_bytes esn @ le_bytes skey @ le_bytes (bkey_word2 esn skey) @ le_bytes (bkey_word3 esn skey)"

lemma calculateBkeyAndHash_message:
  "calculateBkeyAndHash esn skey = (md5 (bkey_message esn skey), md5 (md5 (bkey_message esn skey)))"
proof -
  let ?z = "replicate 4 0 :: u8 list"
  have z: "replicate 16 0 = ?z @ ?z @ ?z @ ?z" by (simp add: eval_nat_numeral)
  have "writeUInt32LE (?z @ ?z @ ?z @ ?z) 0 esn = le_bytes esn @ ?z @ ?z @ ?z"
    using blit_append [of "[]" 0 ?z "le_bytes esn"] by (simp add: writeUInt32LE_blit)
  moreover have "writeUInt32LE (le_bytes esn @ ?z @ ?z @ ?z) 4 skey = le_bytes esn @ le_bytes skey @ ?z @ ?z"
    by (simp add: writeUInt32LE_blit blit_append)
  moreover have "fold (\<lambda>i block. block[8 + i := block ! i XOR block ! (i + 3)]) [0..<8]
      (le_bytes esn @ le_bytes skey @ ?z @ ?z) = bkey_message esn skey"
    unfolding bkey_message_def bkey_word2_bytes bkey_word3_bytes replicate_4
    by (simp add: le_bytes_list bkey_loop_bytes xor.commute xor.left_commute)
  ultimately show ?thesis by (simp add: calculateBkeyAndHash_def Let_def z)
qed

lemma length_bkey_message [simp]: "length (bkey_message esn skey) = 16"
  by (simp add: bkey_message_def)

section \<open>Properties\<close>

text \<open>C18. The stream cipher: on any run inside a buffer, decrypting what was encrypted in place with
  the same key gives the buffer back, and so does encrypting what was decrypted; bytes outside the
  run are never touched.\<close>

theorem cipher_roundtrip:
  assumes "off + sz \<le> length data"
  shows "cipherDecrypt (cipherEncrypt data off sz key) off sz key = data
    \<and> cipherEncrypt (cipherDecrypt data off sz key) off sz key = data
    \<and> (\<forall>j. j < off \<or> off + sz \<le> j \<longrightarrow>
        cipherEncrypt data off sz key ! j = data ! j \<and> cipherDecrypt data off sz key ! j = data ! j)"
proof (intro conjI)
  show "cipherDecrypt (cipherEncrypt data off sz key) off sz key = data"
    and "cipherEncrypt (cipherDecrypt data off sz key) off sz key = data"
    using assms scalar_cipher_inverse [of True] scalar_cipher_inverse [of False]
    by (simp_all add: cipherEncrypt_blit cipherDecrypt_blit blit_chunk_back)
  show "\<forall>j. j < off \<or> off + sz \<le> j \<longrightarrow>
      cipherEncrypt data off sz key ! j = data ! j \<and> cipherDecrypt data off sz key ! j = data ! j"
    unfolding cipherEncrypt_def cipherDecrypt_def
    by (intro allI impI conjI transformCipher_frame) auto
qed

theorem cipher_roundtrip_witness:
  "(4 :: nat) + 8 \<le> length (replicate 16 (0x5A :: u8)) \<and>
   cipherDecrypt (cipherEncrypt (replicate 16 0x5A) 4 8 (replicate 64 1)) 4 8 (replicate 64 1)
     = replicate 16 0x5A"
proof -
  have h: "(4 :: nat) + 8 \<le> length (replicate 16 (0x5A :: u8))" by simp
  show ?thesis using h cipher_roundtrip [OF h, of "replicate 64 1"] by blast
qed

text \<open>C30. The eight interleaved lanes of the batch decryption are eight independent decryptions: each
  lane's run of the result is that run of the input decrypted alone with that lane's key.\<close>

theorem cipherDecryptBatch_lanes:
  assumes "off + CIPHER_BATCH_SIZE * sz \<le> length data" and "lane < CIPHER_BATCH_SIZE"
  shows "chunk (cipherDecryptBatch data off sz keys) (off + lane * sz) sz
    = cipherDecrypt (chunk data (off + lane * sz) sz) 0 sz (keys ! lane)"
proof -
  have "length (chunk data (off + lane * sz) sz) = sz"
    using assms lane_end [OF assms(2), of sz] by simp
  then show ?thesis
    using assms by (simp add: cipherDecryptBatch_scalar cipherDecrypt_blit)
qed

theorem cipherDecryptBatch_lanes_witness:
  "chunk (cipherDecryptBatch (replicate 64 7) 0 8 (replicate 8 (replicate 64 1))) (0 + 3 * 8) 8
    = cipherDecrypt (chunk (replicate 64 7) (0 + 3 * 8) 8) 0 8 (replicate 8 (replicate 64 1) ! 3)"
proof -
  have h: "0 + CIPHER_BATCH_SIZE * 8 \<le> length (replicate 64 (7 :: u8))" "(3 :: nat) < CIPHER_BATCH_SIZE"
    by (simp_all add: CIPHER_BATCH_SIZE_def)
  show ?thesis by (rule cipherDecryptBatch_lanes [OF h])
qed

text \<open>The IMEI cipher is a permutation of ten-byte blocks in both variants: each direction
  inverts the other.\<close>

theorem imeiCipher_roundtrip:
  assumes "length data = 10"
  shows "imeiCipherDecrypt (imeiCipherEncrypt data fullBlock) fullBlock = data
    \<and> imeiCipherEncrypt (imeiCipherDecrypt data fullBlock) fullBlock = data"
  using imei.dec_enc imei.enc_dec assms by simp

theorem imeiCipher_roundtrip_witness:
  "length (replicate 10 (0x42 :: u8)) = 10 \<and>
   imeiCipherDecrypt (imeiCipherEncrypt (replicate 10 0x42) True) True = replicate 10 0x42"
proof -
  have h: "length (replicate 10 (0x42 :: u8)) = 10" by simp
  show ?thesis using h imeiCipher_roundtrip [OF h, of True] by blast
qed

text \<open>The check digit is the Luhn digit: for an IMEI whose first fourteen characters are digits it
  is a decimal digit, and it is the only one that makes the fifteen digits pass the Luhn test.\<close>

theorem calculateImeiCheckDigit_luhn:
  assumes "14 \<le> length imei" and "\<forall>i<14. isDigit (imei ! i)"
  shows "unat (calculateImeiCheckDigit imei) < 10 \<and>
    (\<forall>d<10. luhn_valid (map digit_value (take 14 imei) @ [d]) = (d = unat (calculateImeiCheckDigit imei)))"
proof -
  let ?S = "luhn_sum (map digit_value (take 14 imei))"
  have c: "unat (calculateImeiCheckDigit imei) = (10 - ?S mod 10) mod 10"
    using assms by (intro check_digit_nat) auto
  have last: "luhn_term 14 d = d" if "d < 10" for d
    using that by (simp add: luhn_term_def)
  have "luhn_valid (map digit_value (take 14 imei) @ [d]) = ((?S + d) mod 10 = 0)" if "d < 10" for d
    using that assms(1) by (simp add: luhn_valid_def luhn_sum_snoc last min_absorb2)
  then show ?thesis unfolding c by (simp add: complement_digit)
qed

theorem calculateImeiCheckDigit_luhn_witness:
  "luhn_valid (map digit_value (take 14 ''490154203237518'') @ [unat (calculateImeiCheckDigit ''490154203237518'')])"
proof -
  have h: "14 \<le> length ''490154203237518''" "\<forall>i<14. isDigit (''490154203237518'' ! i)"
    by code_simp+
  show ?thesis using calculateImeiCheckDigit_luhn [OF h] by blast
qed

end
