(* ===== verification/Otp.thy ===== *)
theory Otp
  imports Binary Strings
begin

text \<open>
  src/siemens/otp.cpp: the flash OTP images of an IMEI and of an ESN, as hexadecimal text.  A
  \<open>std::invalid_argument\<close> is an \<open>otp_error\<close>.  The lemmas say exactly which strings are accepted
  and what the result is as bytes.
\<close>

section \<open>The code\<close>

datatype otp_error = InvalidImei string | InvalidEsn string

function imei_otp_loop :: "string \<Rightarrow> nat \<Rightarrow> string \<Rightarrow> string" where
  "imei_otp_loop imei index otpImei =
     (if index < length imei - 1
      then imei_otp_loop imei (index + 2) (otpImei @ [imei ! (index + 1)] @ [imei ! index])
      else otpImei)"
  by pat_completeness auto
termination
  by (relation "measure (\<lambda>(imei, index, otpImei). length imei - index)") auto

declare imei_otp_loop.simps [simp del]

definition imeiToOtp :: "string \<Rightarrow> otp_error + string" where
  "imeiToOtp imei =
     (if length imei \<noteq> 15 then Inl (InvalidImei imei)
      else if \<not> list_all isDigit imei then Inl (InvalidImei imei)
      else Inr (''0000'' @ imei_otp_loop imei 0 '''' @ ''FF''))"

definition ESN_KEY :: "u8 list" where
  "ESN_KEY = [0x32, 0xE5, 0xF7, 0x03]"

definition esnToOtp :: "string \<Rightarrow> otp_error + string" where
  "esnToOtp esn =
     (if length esn \<noteq> 8 then Inl (InvalidEsn esn)
      else if \<not> list_all isXDigit esn then Inl (InvalidEsn esn)
      else Inr (''0200'' @
        fold (\<lambda>index otpEsn.
            let byteString = take 2 (drop ((3 - index) * 2) esn);
                value = word_of_nat (stoul16 byteString) :: u8;
                result = value XOR ESN_KEY ! index
            in otpEsn @ [HEX_DIGITS ! unat (drop_bit 4 result)] @ [HEX_DIGITS ! unat (result AND 0xF)])
          [0..<4] '''' @ ''00000000''))"

section \<open>The ESN image\<close>

lemma byte_hex_HEX_DIGITS:
  "[HEX_DIGITS ! unat (drop_bit 4 b)] @ [HEX_DIGITS ! unat (b AND 0xF)] = byte_hex b"
  by (simp add: byte_hex_def hex_digit_def unat_nibbles)

lemma upt_0_4: "[0..<4] = [0, 1, 2, 3 :: nat]"
  by (simp add: upt_rec)

lemma list8_cases:
  assumes "length s = 8"
  obtains a b c d e f g h where "s = [a, b, c, d, e, f, g, h]"
  using assms by (auto simp: length_Suc_conv eval_nat_numeral)

lemma bytes_of_nat_sum:
  assumes "a < 256" "b < 256" "c < 256" "d < 256"
  shows "le_bytes (word_of_nat (((a * 256 + b) * 256 + c) * 256 + d))
    = [word_of_nat d, word_of_nat c, word_of_nat b, word_of_nat a]"
proof -
  let ?n = "((a * 256 + b) * 256 + c) * 256 + d"
  have "?n < 2 ^ LENGTH(32)" using assms by simp
  then have byte: "(ucast (drop_bit k (word_of_nat ?n :: u32)) :: u8) = word_of_nat (?n div 2 ^ k)" for k
    by (rule ucast_drop_bit_word_of_nat)
  have "(256 :: u8) = 0" by simp
  then have low: "(word_of_nat (x * 256 + y) :: u8) = word_of_nat y" for x y
    by (simp only: of_nat_add of_nat_mult of_nat_numeral mult_zero_right add_0_left)
  have "?n div 2 ^ 8 = (a * 256 + b) * 256 + c" "?n div 2 ^ 16 = a * 256 + b" "?n div 2 ^ 24 = a"
    using assms by simp_all
  then have "(ucast (drop_bit 0 (word_of_nat ?n :: u32)) :: u8) = word_of_nat d"
    "(ucast (drop_bit 8 (word_of_nat ?n :: u32)) :: u8) = word_of_nat c"
    "(ucast (drop_bit 16 (word_of_nat ?n :: u32)) :: u8) = word_of_nat b"
    "(ucast (drop_bit 24 (word_of_nat ?n :: u32)) :: u8) = word_of_nat a"
    unfolding byte by (simp_all only: low power_0 div_by_1)
  then show ?thesis by (simp add: le_bytes_def upt_0_4)
qed

text \<open>The ESN image: the four bytes of the number, least significant first, each masked with the key.\<close>

definition esn_otp_bytes :: "u32 \<Rightarrow> u8 list" where
  "esn_otp_bytes esn = map2 (XOR) (le_bytes esn) ESN_KEY"

lemma stoul16_two_less: "list_all isXDigit s \<Longrightarrow> length s = 2 \<Longrightarrow> stoul16 s < 256"
  using stoul16_less [of s] by simp

lemma esnToOtp_bytes:
  assumes "length esn = 8" and "list_all isXDigit esn"
  shows "esnToOtp esn
    = Inr (''0200'' @ bytesToHex (esn_otp_bytes (word_of_nat (stoul16 esn))) @ ''00000000'')"
proof -
  obtain a b c d e f g h where s: "esn = [a, b, c, d, e, f, g, h]"
    using assms(1) by (rule list8_cases)
  have "stoul16 esn = ((stoul16 [a, b] * 256 + stoul16 [c, d]) * 256 + stoul16 [e, f]) * 256 + stoul16 [g, h]"
    using stoul16_concat [of "[a, b, c, d, e, f]" "[g, h]"] stoul16_concat [of "[a, b, c, d]" "[e, f]"]
      stoul16_concat [of "[a, b]" "[c, d]"] by (simp add: s)
  moreover have "stoul16 [a, b] < 256" "stoul16 [c, d] < 256" "stoul16 [e, f] < 256" "stoul16 [g, h] < 256"
    using assms(2) by (simp_all add: s stoul16_two_less)
  ultimately have le: "le_bytes (word_of_nat (stoul16 esn))
    = [word_of_nat (stoul16 [g, h]), word_of_nat (stoul16 [e, f]), word_of_nat (stoul16 [c, d]),
       word_of_nat (stoul16 [a, b])]"
    by (simp only: bytes_of_nat_sum)
  have "esnToOtp esn = Inr (''0200'' @
      concat (map byte_hex [word_of_nat (stoul16 [g, h]) XOR 0x32, word_of_nat (stoul16 [e, f]) XOR 0xE5,
        word_of_nat (stoul16 [c, d]) XOR 0xF7, word_of_nat (stoul16 [a, b]) XOR 0x03]) @ ''00000000'')"
    using assms unfolding esnToOtp_def Let_def byte_hex_HEX_DIGITS
    by (simp add: upt_0_4 ESN_KEY_def s)
  then show ?thesis
    by (simp add: esn_otp_bytes_def le ESN_KEY_def bytesToHex_concat)
qed

section \<open>The IMEI image\<close>

lemma imei_otp_loop_15:
  assumes "length imei = 15"
  shows "imei_otp_loop imei 0 '''' = [imei ! 1, imei ! 0, imei ! 3, imei ! 2, imei ! 5, imei ! 4,
    imei ! 7, imei ! 6, imei ! 9, imei ! 8, imei ! 11, imei ! 10, imei ! 13, imei ! 12]"
  using assms by (simp add: imei_otp_loop.simps eval_nat_numeral)

lemma imeiToOtp_digits:
  assumes "length imei = 15" and "list_all isDigit imei"
  shows "imeiToOtp imei = Inr (''0000'' @ [imei ! 1, imei ! 0, imei ! 3, imei ! 2, imei ! 5, imei ! 4,
    imei ! 7, imei ! 6, imei ! 9, imei ! 8, imei ! 11, imei ! 10, imei ! 13, imei ! 12] @ ''FF'')"
  using assms by (simp add: imeiToOtp_def imei_otp_loop_15)

lemma take_14_iff:
  assumes "length a = 15" and "length b = 15"
  shows "take 14 a = take 14 b \<longleftrightarrow> [a ! 0, a ! 1, a ! 2, a ! 3, a ! 4, a ! 5, a ! 6, a ! 7, a ! 8, a ! 9, a ! 10, a ! 11, a ! 12, a ! 13]
    = [b ! 0, b ! 1, b ! 2, b ! 3, b ! 4, b ! 5, b ! 6, b ! 7, b ! 8, b ! 9, b ! 10, b ! 11, b ! 12, b ! 13]"
proof -
  have "take 14 s = [s ! 0, s ! 1, s ! 2, s ! 3, s ! 4, s ! 5, s ! 6, s ! 7, s ! 8, s ! 9, s ! 10, s ! 11, s ! 12, s ! 13]"
    if "length s = 15" for s :: "'a list"
    using that by (auto simp: length_Suc_conv eval_nat_numeral)
  then show ?thesis using assms by simp
qed

section \<open>Properties\<close>

text \<open>\<open>esnToOtp\<close> accepts exactly the strings of eight hexadecimal digits; the image of an accepted
  one is the lock word 0200, the four bytes of the number in memory order masked with the key, and
  four zero bytes; every other string is rejected with itself in the error.\<close>

theorem esnToOtp_correct:
  "esnToOtp esn =
     (if length esn = 8 \<and> list_all isXDigit esn
      then Inr (''0200'' @ bytesToHex (map2 (XOR) (le_bytes (word_of_nat (stoul16 esn))) ESN_KEY) @ ''00000000'')
      else Inl (InvalidEsn esn))"
  using esnToOtp_bytes [of esn] by (auto simp: esn_otp_bytes_def esnToOtp_def)

text \<open>\<open>imeiToOtp\<close> accepts exactly the strings of fifteen decimal digits; two accepted IMEIs have the
  same image if and only if they agree on their first fourteen digits, the check digit being left out
  of the flash.\<close>

theorem imeiToOtp_correct:
  "is_ok (imeiToOtp imei) = (length imei = 15 \<and> list_all isDigit imei)
   \<and> (is_ok (imeiToOtp imei) \<and> is_ok (imeiToOtp imei') \<longrightarrow>
        (imeiToOtp imei = imeiToOtp imei') = (take 14 imei = take 14 imei'))"
proof -
  have ok: "is_ok (imeiToOtp s) = (length s = 15 \<and> list_all isDigit s)" for s
    by (simp add: imeiToOtp_def)
  then show ?thesis
    by (auto simp: imeiToOtp_digits take_14_iff)
qed

theorem imeiToOtp_correct_witness:
  "is_ok (imeiToOtp ''490154203237518'') \<and> is_ok (imeiToOtp ''490154203237519'') \<and>
   imeiToOtp ''490154203237518'' = imeiToOtp ''490154203237519''"
  using imeiToOtp_correct [of "''490154203237518''" "''490154203237519''"]
    imeiToOtp_correct [of "''490154203237519''" "''490154203237518''"]
  by (simp add: isDigit_def code_of_def eval_nat_numeral)

end
