(* ===== verification/Esn.thy ===== *)
theory Esn
  imports Otp
begin

text \<open>
  src/siemens/esn.cpp: the ESN as text and the cache file next to a fullflash.  The TOML library is
  not part of the repository: its parser and formatter are the parameters \<open>toml_parse\<close> (None when
  it throws \<open>toml::parse_error\<close>, which it also does for a file it cannot open) and
  \<open>toml_format\<close>.  The file system is a map from paths to contents; \<open>writable\<close> says whether a
  path can be opened for writing and written to the end.
\<close>

section \<open>The code\<close>

text \<open>The structs of src/siemens/fullflash.h that the cache writer reads.\<close>

record bootcore_version =
  version_major :: u8
  version_minor :: u8

record fullflash_info =
  info_device :: string
  info_vendor :: string
  info_model :: string
  info_version :: bootcore_version
  info_imei :: string
  info_bkey :: "u8 list"
  info_skey :: "u8 list"
  info_hash :: "u8 list"

definition esnToHex :: "u32 \<Rightarrow> string" where
  "esnToHex esn =
     fold (\<lambda>shift result. result @ [HEX_DIGITS ! unat (drop_bit shift esn AND 0xF)])
       [28, 24, 20, 16, 12, 8, 4, 0] ''''"

type_synonym toml_table = "string \<Rightarrow> string option"

type_synonym files = "string \<Rightarrow> string option"

definition readEsnCache ::
  "(string \<Rightarrow> toml_table option) \<Rightarrow> files \<Rightarrow> string \<Rightarrow> u8 list \<Rightarrow> u32 option" where
  "readEsnCache toml_parse fs fullflash hash =
     (if length hash \<noteq> 16 then None
      else case Option.bind (fs (fullflash @ ''.esn'')) toml_parse of
        None \<Rightarrow> None
      | Some cache \<Rightarrow>
          (case (cache ''HASH'', cache ''ESN'') of
            (Some cachedHash, Some value) \<Rightarrow>
              if cachedHash \<noteq> bytesToHex hash then None
              else if length value \<noteq> 8 then None
              else if \<not> list_all isXDigit value then None
              else Some (word_of_nat (stoul16 value))
          | _ \<Rightarrow> None))"

datatype esn_cache_error = CacheExists string | CantWriteCache string

definition writeEsnCache ::
  "((string \<times> string) list \<Rightarrow> string) \<Rightarrow> (string \<Rightarrow> bool) \<Rightarrow> files \<Rightarrow> string \<Rightarrow> fullflash_info \<Rightarrow> u32
     \<Rightarrow> esn_cache_error + files" where
  "writeEsnCache toml_format writable fs fullflash info esn =
     (let path = fullflash @ ''.esn''
      in if fs path \<noteq> None then Inl (CacheExists path)
         else if \<not> writable path then Inl (CantWriteCache path)
         else Inr (fs(path \<mapsto> toml_format
             [(''ESN'', esnToHex esn),
              (''IMEI'', info_imei info),
              (''HASH'', bytesToHex (info_hash info)),
              (''BKEY'', bytesToHex (info_bkey info)),
              (''SKEY'', bytesToHex (info_skey info))] @ [CHR 10])))"

section \<open>ESN text\<close>

lemma esn_nibble:
  "HEX_DIGITS ! unat (drop_bit k (w :: u32) AND 0xF) = hex_digit (unat w div 2 ^ k mod 16)"
proof -
  have "(0xF :: u32) = mask 4" by (simp add: mask_eq_exp_minus_1)
  then have "drop_bit k w AND 0xF = take_bit 4 (drop_bit k w)" by (simp only: take_bit_eq_mask)
  then have "unat (drop_bit k w AND 0xF) = unat (drop_bit k w) mod 16"
    by (simp add: take_bit_eq_mod unat_mod_distrib)
  also have "unat (drop_bit k w) = unat w div 2 ^ k"
    by (simp only: unat_drop_bit_eq) (rule drop_bit_eq_div)
  finally show ?thesis by (simp add: hex_digit_def)
qed

lemma esnToHex_digits:
  "esnToHex esn = map (\<lambda>k. hex_digit (unat esn div 2 ^ k mod 16)) [28, 24, 20, 16, 12, 8, 4, 0]"
  by (simp add: esnToHex_def esn_nibble)

lemma length_esnToHex [simp, length_facts]: "length (esnToHex esn) = 8"
  by (simp add: esnToHex_digits)

lemma esnToHex_xdigits [simp]: "list_all isXDigit (esnToHex esn)"
  by (simp add: esnToHex_digits)

lemma unat_u32_less: "unat (w :: u32) < 2 ^ 32"
  using unsigned_less [of w, where ?'a = nat] by simp

lemma nibble_sum:
  fixes n :: nat
  assumes "n < 2 ^ 32"
  shows "((((((n div 2 ^ 28 mod 16 * 16 + n div 2 ^ 24 mod 16) * 16 + n div 2 ^ 20 mod 16) * 16
    + n div 2 ^ 16 mod 16) * 16 + n div 2 ^ 12 mod 16) * 16 + n div 2 ^ 8 mod 16) * 16
    + n div 2 ^ 4 mod 16) * 16 + n div 2 ^ 0 mod 16 = n"
proof -
  have step: "n div 2 ^ (k + 4) * 16 + n div 2 ^ k mod 16 = n div 2 ^ k" for k
    by (simp add: power_add div_mult2_eq)
  have top: "n div 2 ^ 28 mod 16 = n div 2 ^ 28" using assms by (simp add: div_less_iff_less_mult)
  show ?thesis
    unfolding top using step [of 24] step [of 20] step [of 16] step [of 12] step [of 8] step [of 4]
      step [of 0] by simp
qed

lemma stoul16_esnToHex [simp, roundtrip_facts]: "stoul16 (esnToHex esn) = unat esn"
proof -
  have "stoul16 (esnToHex esn) = ((((((unat esn div 2 ^ 28 mod 16 * 16 + unat esn div 2 ^ 24 mod 16) * 16
      + unat esn div 2 ^ 20 mod 16) * 16 + unat esn div 2 ^ 16 mod 16) * 16
      + unat esn div 2 ^ 12 mod 16) * 16 + unat esn div 2 ^ 8 mod 16) * 16
      + unat esn div 2 ^ 4 mod 16) * 16 + unat esn div 2 ^ 0 mod 16"
    unfolding esnToHex_digits stoul16_def by (simp del: power_numeral)
  then show ?thesis by (simp only: nibble_sum [OF unat_u32_less])
qed

interpretation esn_printer: printer esnToHex "\<lambda>s. word_of_nat (stoul16 s)" "\<lambda>_. True"
  by unfold_locales simp

lemma esnToOtp_esnToHex:
  "esnToOtp (esnToHex esn) = Inr (''0200'' @ bytesToHex (esn_otp_bytes esn) @ ''00000000'')"
  using esnToOtp_bytes [of "esnToHex esn"] by simp

lemma xor_right_cancel: "(a :: 'a::len word) XOR c = b XOR c \<longleftrightarrow> a = b"
proof
  assume "a XOR c = b XOR c"
  then have "(a XOR c) XOR c = (b XOR c) XOR c" by simp
  then show "a = b" by (simp only: word_xor_cancel)
qed simp

lemma esn_otp_bytes_inject: "esn_otp_bytes a = esn_otp_bytes b \<longleftrightarrow> a = b"
proof
  assume "esn_otp_bytes a = esn_otp_bytes b"
  then have "le_bytes a = le_bytes b"
    by (simp add: esn_otp_bytes_def le_bytes_def upt_0_4 ESN_KEY_def xor_right_cancel)
  then show "a = b" by (simp add: le_bytes_inject)
qed simp

section \<open>Properties\<close>

text \<open>The OTP image of a recovered ESN: printing any 32-bit ESN as the code does always gives a
  string that \<open>esnToOtp\<close> accepts, its image is the ESN's memory bytes under the key between the
  lock word and the zero padding, and different ESNs have different images.\<close>

theorem esn_otp_total:
  "esnToOtp (esnToHex esn) = Inr (''0200'' @ bytesToHex (map2 (XOR) (le_bytes esn) ESN_KEY) @ ''00000000'')
   \<and> (esnToOtp (esnToHex esn) = esnToOtp (esnToHex esn')) = (esn = esn')"
  using esn_otp_bytes_inject [of esn esn']
  by (simp add: esnToOtp_esnToHex bytesToHex_inject esn_otp_bytes_def [symmetric])


text \<open>
  A formatter and a parser with the assumed law, to show that it can hold: each character is
  preceded by a mark, each string ended by a full stop.
\<close>

definition mark_string :: "string \<Rightarrow> string" where
  "mark_string s = concat (map (\<lambda>c. [CHR ''x'', c]) s) @ ''.''"

fun unmark_string :: "string \<Rightarrow> string \<times> string" where
  "unmark_string (x # c # r) =
     (if x = CHR ''x'' then (case unmark_string r of (s, rest) \<Rightarrow> (c # s, rest)) else ([], c # r))"
| "unmark_string r = ([], [])"

definition mark_table :: "(string \<times> string) list \<Rightarrow> string" where
  "mark_table kvs = concat (map (\<lambda>(k, v). mark_string k @ mark_string v) kvs)"

fun unmark_table :: "nat \<Rightarrow> string \<Rightarrow> (string \<times> string) list" where
  "unmark_table 0 s = []"
| "unmark_table (Suc n) s =
     (if length s \<le> 1 then []
      else (case unmark_string s of (k, r) \<Rightarrow>
        (case unmark_string r of (v, r') \<Rightarrow> (k, v) # unmark_table n r')))"

lemma unmark_mark_string: "unmark_string (mark_string s @ rest) = (s, rest)"
  by (induction s) (auto simp: mark_string_def split: prod.splits, cases rest, auto)

lemma unmark_mark_table:
  "length kvs \<le> n \<Longrightarrow> unmark_table n (mark_table kvs @ [CHR 10]) = kvs"
proof (induction kvs arbitrary: n)
  case Nil
  then show ?case by (cases n) (simp_all add: mark_table_def)
next
  case (Cons kv kvs)
  then obtain m where n: "n = Suc m" by (cases n) auto
  obtain k v where kv: "kv = (k, v)" by fastforce
  have table: "mark_table (kv # kvs) @ [CHR 10]
      = mark_string k @ (mark_string v @ (mark_table kvs @ [CHR 10]))"
    by (simp add: mark_table_def kv)
  have "1 < length (mark_table (kv # kvs) @ [CHR 10])"
    unfolding table by (simp add: mark_string_def)
  then show ?case
    using Cons.IH [of m] Cons.prems n unfolding table
    by (simp add: unmark_mark_string kv del: append_assoc)
qed

lemma mark_table_length: "length kvs \<le> length (mark_table kvs)"
  by (induction kvs) (auto simp: mark_table_def mark_string_def)

lemma unmark_table_law:
  "Some (map_of (unmark_table (length (mark_table kvs @ [CHR 10])) (mark_table kvs @ [CHR 10])))
    = Some (map_of kvs)"
proof -
  have "length kvs \<le> length (mark_table kvs @ [CHR 10])" using mark_table_length [of kvs] by simp
  then show ?thesis by (simp only: unmark_mark_table)
qed


end
