(* ===== verification/Fullflash.thy ===== *)
theory Fullflash
  imports Eeprom SiemensCrypto Esn
begin

text \<open>
  src/siemens/fullflash.cpp up to the recovery of the OTP: recognising a fullflash file, the
  boot-core layout and the identity that an image carries.  A file is the list of its bytes (None
  when it cannot be opened); a function that returns \<open>bool\<close> and fills a string is an
  option of the string.  \<open>std::tolower\<close> is the one of the C locale, in which the program runs.
\<close>

section \<open>The code\<close>

definition BOOTCORE_MAGIC_OFFSET :: nat where "BOOTCORE_MAGIC_OFFSET = 0x3C"
definition INTERFACE_OFFSETS :: "nat list" where "INTERFACE_OFFSETS = [0x200, 0x1200]"
definition MODEL_OFFSET :: nat where "MODEL_OFFSET = 0x8FC70"
definition VENDOR_OFFSET :: nat where "VENDOR_OFFSET = 0x8FC80"
definition VENDOR_OFFSETS :: "nat list" where "VENDOR_OFFSETS = [VENDOR_OFFSET, 0x220, 0x880, 0xC80]"
definition BOOTCORE_MAGIC :: u32 where "BOOTCORE_MAGIC = 0x544B4A43"
definition INTERFACE_MAGIC :: u16 where "INTERFACE_MAGIC = 0x534C"

record bootcore_layout =
  layout_version :: bootcore_version
  hashOffset :: nat
  imeiOffset :: nat

definition tolower :: "char \<Rightarrow> char" where
  "tolower c = (if 65 \<le> code_of c \<and> code_of c \<le> 90 then char_of (code_of c + 32) else c)"

definition buildDeviceName :: "string \<Rightarrow> string" where
  "buildDeviceName model = map tolower (''siemens-'' @ model)"

definition readStringFile :: "u8 list \<Rightarrow> nat \<Rightarrow> nat \<Rightarrow> string option" where
  "readStringFile input offset n =
     (if \<not> offset + n \<le> length input then None
      else let data = chunk input offset n;
               text = takeWhile (\<lambda>b. b \<noteq> 0) data;
               rest = dropWhile (\<lambda>b. b \<noteq> 0) data
           in if rest = [] then None
              else if \<not> list_all (\<lambda>b. b = 0) rest then None
              else if text = [] then None else Some (string_of_bytes text))"

definition is_vendor :: "string \<Rightarrow> bool" where
  "is_vendor vendor \<longleftrightarrow> vendor = ''SIEMENS'' \<or> vendor = ''BENQ-SIEMENS''"

definition empty_info :: fullflash_info where
  "empty_info = \<lparr>info_device = '''', info_vendor = '''', info_model = '''',
     info_version = \<lparr>version_major = 0, version_minor = 0\<rparr>, info_imei = '''',
     info_bkey = [], info_skey = [], info_hash = []\<rparr>"

fun probe_offsets :: "u8 list \<Rightarrow> nat list \<Rightarrow> fullflash_info option" where
  "probe_offsets input [] = None"
| "probe_offsets input (offset # rest) =
     (case readStringFile input offset 16 of
        None \<Rightarrow> probe_offsets input rest
      | Some vendor \<Rightarrow>
          if \<not> is_vendor vendor then probe_offsets input rest
          else (case readStringFile input (offset - 16) 16 of
              None \<Rightarrow> probe_offsets input rest
            | Some model \<Rightarrow> Some (empty_info\<lparr>info_vendor := vendor, info_model := model,
                info_device := buildDeviceName model\<rparr>)))"

definition probeFullflash :: "(string \<Rightarrow> u8 list option) \<Rightarrow> string \<Rightarrow> fullflash_info option" where
  "probeFullflash fs path =
     (case fs path of None \<Rightarrow> None | Some input \<Rightarrow> probe_offsets input VENDOR_OFFSETS)"

fun read_string_from :: "u8 list \<Rightarrow> nat \<Rightarrow> nat list \<Rightarrow> string \<Rightarrow> string option" where
  "read_string_from data offset [] value = None"
| "read_string_from data offset (index # rest) value =
     (let character = data ! (offset + index)
      in if character = 0 then Some value
         else read_string_from data offset rest (value @ [char_of (unat character)]))"

definition readString :: "u8 list \<Rightarrow> nat \<Rightarrow> nat \<Rightarrow> string option" where
  "readString data offset n =
     (if offset > length data then None
      else if n > length data - offset then None
      else read_string_from data offset [0..<n] '''')"

fun interface_version :: "u8 list \<Rightarrow> nat list \<Rightarrow> bootcore_version option" where
  "interface_version fullflash [] = None"
| "interface_version fullflash (offset # rest) =
     (if length fullflash < offset + 4 then interface_version fullflash rest
      else if readUInt16LE fullflash (offset + 2) \<noteq> INTERFACE_MAGIC then interface_version fullflash rest
      else Some \<lparr>version_major = fullflash ! (offset + 1), version_minor = fullflash ! offset\<rparr>)"

definition readBootcoreVersion :: "u8 list \<Rightarrow> bootcore_version option" where
  "readBootcoreVersion fullflash = interface_version fullflash INTERFACE_OFFSETS"

definition layout_of_version :: "bootcore_version \<Rightarrow> bootcore_layout option" where
  "layout_of_version version =
     (let versionNumber = push_bit 8 (ucast (version_major version)) OR ucast (version_minor version) :: u16
      in if versionNumber = 0x0200 then Some \<lparr>layout_version = version, hashOffset = 0x238, imeiOffset = 0x65C\<rparr>
         else if versionNumber = 0x0202 then Some \<lparr>layout_version = version, hashOffset = 0x23C, imeiOffset = 0x660\<rparr>
         else if versionNumber = 0x0300 then Some \<lparr>layout_version = version, hashOffset = 0x3E400, imeiOffset = 0x3E410\<rparr>
         else None)"

definition getBootcoreLayout :: "u8 list \<Rightarrow> bootcore_layout option" where
  "getBootcoreLayout fullflash =
     (if length fullflash < BOOTCORE_MAGIC_OFFSET + 4 then None
      else if readUInt32LE fullflash BOOTCORE_MAGIC_OFFSET \<noteq> BOOTCORE_MAGIC then None
      else case readBootcoreVersion fullflash of
        None \<Rightarrow> None
      | Some version \<Rightarrow>
          (case layout_of_version version of
             None \<Rightarrow> None
           | Some layout \<Rightarrow>
               let requiredSize = max (hashOffset layout + 16) (imeiOffset layout + 15)
               in if length fullflash < requiredSize then None else Some layout))"

text \<open>The checksum bytes of a ten-byte IMEI block: the XOR of its even and of its odd positions.\<close>

definition imei_block_xors :: "u8 list \<Rightarrow> u8 \<times> u8" where
  "imei_block_xors data =
     fold (\<lambda>index (xorEven, xorOdd).
         if index mod 2 \<noteq> 0 then (xorEven, xorOdd XOR data ! index) else (xorEven XOR data ! index, xorOdd))
       [0..<8] (0, 0)"

fun decode_digits :: "u8 list \<Rightarrow> nat list \<Rightarrow> string \<Rightarrow> string option" where
  "decode_digits data [] value = Some value"
| "decode_digits data (index # rest) value =
     (let low = data ! index AND 0xF; high = drop_bit 4 (data ! index)
      in if low > 9 then None else if high > 9 then None
         else decode_digits data rest (value @ [char_of (48 + unat low)] @ [char_of (48 + unat high)]))"

definition decodeImeiBlock :: "u8 list \<Rightarrow> bool \<Rightarrow> string option" where
  "decodeImeiBlock block fullBlock =
     (if length block \<noteq> 10 then None
      else let data = imeiCipherDecrypt block fullBlock; (xorEven, xorOdd) = imei_block_xors data
           in if data ! 8 \<noteq> (if fullBlock then xorOdd else xorEven) then None
              else if data ! 9 \<noteq> xorOdd XOR xorEven XOR 0xFF then None
              else (case decode_digits data [0..<7] '''' of
                None \<Rightarrow> None
              | Some value \<Rightarrow>
                  let checkDigit = drop_bit 4 (data ! 7)
                  in if data ! 7 AND 0xF \<noteq> 0 then None
                     else if calculateImeiCheckDigit value \<noteq> checkDigit then None
                     else Some (value @ [char_of (48 + unat checkDigit)])))"

text \<open>The IMEI of the boot core, if it is one, else of block 76, else of block 5009.\<close>

definition imei_from_block :: "eeprom \<Rightarrow> u32 \<Rightarrow> bool \<Rightarrow> string \<Rightarrow> eeprom_error + string" where
  "imei_from_block e bid fullBlock imei =
     (if imei = '''' \<and> hasBlock e bid
      then ebind (readBlock e bid) (\<lambda>block.
        Inr (case decodeImeiBlock block fullBlock of None \<Rightarrow> imei | Some value \<Rightarrow> value))
      else Inr imei)"

definition skey_from_block :: "eeprom \<Rightarrow> eeprom_error + u8 list" where
  "skey_from_block e =
     (if hasBlock e 5122
      then ebind (readBlock e 5122) (\<lambda>block. Inr (if length block \<ge> 4 then take 4 block else []))
      else Inr [])"

fun bkey_from_blocks :: "eeprom \<Rightarrow> u32 list \<Rightarrow> u8 list \<Rightarrow> eeprom_error + u8 list \<times> u8 list" where
  "bkey_from_blocks e [] hash = Inr ([], hash)"
| "bkey_from_blocks e (bid # rest) hash =
     (if \<not> hasBlock e bid then bkey_from_blocks e rest hash
      else ebind (readBlock e bid) (\<lambda>block.
        if length block < 16 then bkey_from_blocks e rest hash
        else let bkey = take 16 block
             in if isErasedData bkey 0 (length bkey) then bkey_from_blocks e rest hash
                else let calculatedHash = md5 bkey
                     in if hash \<noteq> [] \<and> calculatedHash \<noteq> take 16 hash then bkey_from_blocks e rest hash
                        else Inr (bkey, if hash = [] then calculatedHash else hash)))"

definition getFullflashInfo :: "eeprom \<Rightarrow> u8 list \<Rightarrow> eeprom_error + fullflash_info option" where
  "getFullflashInfo e fullflash =
     (case getBootcoreLayout fullflash of
        None \<Rightarrow> Inr None
      | Some bootcore \<Rightarrow>
          (case readString fullflash VENDOR_OFFSET 16 of
             None \<Rightarrow> Inr None
           | Some vendor \<Rightarrow>
               if \<not> is_vendor vendor then Inr None
               else (case readString fullflash MODEL_OFFSET 16 of
                 None \<Rightarrow> Inr None
               | Some model \<Rightarrow>
                   if model = '''' then Inr None
                   else let imei0 = string_of_bytes (chunk fullflash (imeiOffset bootcore) 15);
                            imei1 = (if list_all isDigit imei0 then imei0 else '''');
                            hash0 = (if \<not> isErasedData fullflash (hashOffset bootcore) 16
                                     then chunk fullflash (hashOffset bootcore) 16 else [])
                        in ebind (imei_from_block e 76 False imei1) (\<lambda>imei2.
                           ebind (imei_from_block e 5009 True imei2) (\<lambda>imei.
                           ebind (skey_from_block e) (\<lambda>skey.
                           ebind (bkey_from_blocks e [52, 320] hash0) (\<lambda>(bkey, hash).
                             Inr (Some \<lparr>info_device = buildDeviceName model, info_vendor = vendor,
                               info_model = model, info_version = layout_version bootcore,
                               info_imei = imei, info_bkey = bkey, info_skey = skey,
                               info_hash = hash\<rparr>))))))))"

section \<open>The boot-core layout\<close>

lemma layout_of_version_cases:
  assumes "layout_of_version version = Some layout"
  obtains "layout = \<lparr>layout_version = version, hashOffset = 0x238, imeiOffset = 0x65C\<rparr>"
    | "layout = \<lparr>layout_version = version, hashOffset = 0x23C, imeiOffset = 0x660\<rparr>"
    | "layout = \<lparr>layout_version = version, hashOffset = 0x3E400, imeiOffset = 0x3E410\<rparr>"
  using assms by (auto simp: layout_of_version_def Let_def split: if_splits)

lemma getBootcoreLayout_Some:
  assumes "getBootcoreLayout ff = Some layout"
  obtains version where "readBootcoreVersion ff = Some version" and "layout_of_version version = Some layout"
    and "hashOffset layout + 16 \<le> length ff" and "imeiOffset layout + 15 \<le> length ff"
    and "BOOTCORE_MAGIC_OFFSET + 4 \<le> length ff"
    and "readUInt32LE ff BOOTCORE_MAGIC_OFFSET = BOOTCORE_MAGIC"
  using assms by (auto simp: getBootcoreLayout_def Let_def not_less split: if_splits option.splits)

lemma version_number_bytes:
  fixes major minor :: u8
  shows "push_bit 8 (ucast major) OR ucast minor = (v :: u16) \<longleftrightarrow>
    major = ucast (drop_bit 8 v) \<and> minor = ucast v"
proof
  assume eq: "push_bit 8 (ucast major) OR ucast minor = v"
  show "major = ucast (drop_bit 8 v) \<and> minor = ucast v"
    unfolding eq [symmetric]
    by (intro conjI bit_word_eqI) (auto simp: bit_simps dest: bit_imp_le_length)
next
  assume eq: "major = ucast (drop_bit 8 v) \<and> minor = ucast v"
  show "push_bit 8 (ucast major) OR ucast minor = v"
    using eq by (intro bit_word_eqI) (auto simp: bit_simps not_less dest: bit_imp_le_length)
qed

lemma layout_version_known:
  assumes "layout_of_version version = Some layout"
  shows "(version_major (layout_version layout), version_minor (layout_version layout)) \<in> {(2, 0), (2, 2), (3, 0)}"
  using assms
  by (auto simp: layout_of_version_def Let_def version_number_bytes split: if_splits)

text \<open>The bytes that the layout depends on: the magic and the two interface words.\<close>

definition layout_bytes :: "nat \<Rightarrow> bool" where
  "layout_bytes i \<longleftrightarrow> 0x3C \<le> i \<and> i < 0x40 \<or> 0x200 \<le> i \<and> i < 0x204 \<or> 0x1200 \<le> i \<and> i < 0x1204"

lemma getBootcoreLayout_cong:
  assumes len: "length ff' = length ff" and same: "\<And>i. layout_bytes i \<Longrightarrow> ff' ! i = ff ! i"
  shows "getBootcoreLayout ff' = getBootcoreLayout ff"
proof -
  have magic: "readUInt32LE ff' 0x3C = readUInt32LE ff 0x3C"
    by (intro u32le.rd_cong same) (simp add: layout_bytes_def)
  have words: "readUInt16LE ff' 0x202 = readUInt16LE ff 0x202" "readUInt16LE ff' 0x1202 = readUInt16LE ff 0x1202"
    by (intro u16le.rd_cong same; simp add: layout_bytes_def)+
  have bytes: "ff' ! 0x200 = ff ! 0x200" "ff' ! 0x201 = ff ! 0x201" "ff' ! 0x1200 = ff ! 0x1200"
    "ff' ! 0x1201 = ff ! 0x1201"
    by (simp_all add: same layout_bytes_def)
  show ?thesis
    unfolding getBootcoreLayout_def readBootcoreVersion_def INTERFACE_OFFSETS_def BOOTCORE_MAGIC_OFFSET_def
    by (simp add: len magic words bytes cong: option.case_cong)
qed

text \<open>The HASH and IMEI fields of a layout are apart from those bytes and from each other.\<close>

lemma layout_fields_apart:
  assumes "layout_of_version version = Some layout"
  shows "hashOffset layout + 16 \<le> imeiOffset layout"
    and "layout_bytes i \<Longrightarrow> \<not> (hashOffset layout \<le> i \<and> i < hashOffset layout + 16)
      \<and> \<not> (imeiOffset layout \<le> i \<and> i < imeiOffset layout + 15)"
  using assms by (cases rule: layout_of_version_cases; simp add: layout_bytes_def; linarith)+

section \<open>Strings of an image\<close>

lemma read_string_from_chunk:
  "read_string_from data offset is value =
     (if 0 \<in> set (map (\<lambda>i. data ! (offset + i)) is)
      then Some (value @ string_of_bytes (takeWhile (\<lambda>b. b \<noteq> 0) (map (\<lambda>i. data ! (offset + i)) is)))
      else None)"
  by (induction "is" arbitrary: "value") (auto simp: Let_def string_of_bytes_def)

lemma map_index_chunk:
  "offset + n \<le> length data \<Longrightarrow> map (\<lambda>i. data ! (offset + i)) [0..<n] = chunk data offset n"
  by (intro nth_equalityI) auto

lemma readString_chunk:
  "readString data offset n =
     (if offset + n \<le> length data \<and> 0 \<in> set (chunk data offset n)
      then Some (string_of_bytes (takeWhile (\<lambda>b. b \<noteq> 0) (chunk data offset n))) else None)"
proof (cases "offset + n \<le> length data")
  case True
  then have "\<not> length data < offset" "\<not> length data - offset < n" by auto
  then show ?thesis
    using True by (simp add: readString_def read_string_from_chunk map_index_chunk)
next
  case False
  then show ?thesis by (auto simp: readString_def)
qed

lemma tolower_lower: "code_of (tolower c) < 65 \<or> 90 < code_of (tolower c)"
  by (auto simp: tolower_def code_of_def)

section \<open>The identity of an image\<close>

definition imei_ok :: "string \<Rightarrow> bool" where
  "imei_ok imei \<longleftrightarrow> imei = '''' \<or> length imei = 15 \<and> list_all isDigit imei"

definition info_ok :: "fullflash_info \<Rightarrow> bool" where
  "info_ok info \<longleftrightarrow> is_vendor (info_vendor info) \<and> info_model info \<noteq> '''' \<and>
     info_device info = buildDeviceName (info_model info) \<and> imei_ok (info_imei info) \<and>
     (info_skey info = [] \<or> length (info_skey info) = 4) \<and>
     (info_hash info = [] \<or> length (info_hash info) = 16) \<and>
     (info_bkey info = [] \<or> length (info_bkey info) = 16 \<and> info_hash info = md5 (info_bkey info))"

lemma isDigit_char: "n \<le> 9 \<Longrightarrow> isDigit (char_of (48 + n :: nat))"
  by (simp add: isDigit_def code_of_def)

lemma decode_digits_ok:
  "decode_digits data is value = Some value' \<Longrightarrow> list_all isDigit value \<Longrightarrow>
    list_all isDigit value' \<and> length value' = length value + 2 * length is"
proof (induction "is" arbitrary: "value")
  case Nil
  then show ?case by simp
next
  case (Cons i rest)
  then have "\<not> data ! i AND 0xF > 9" "\<not> drop_bit 4 (data ! i) > 9"
    by (auto simp: Let_def split: if_splits)
  then have "unat (data ! i AND 0xF) \<le> 9" "unat (drop_bit 4 (data ! i)) \<le> 9"
    by (simp_all add: not_less word_le_nat_alt)
  then show ?case
    using Cons.prems Cons.IH [of "value @ [char_of (48 + unat (data ! i AND 0xF))]
        @ [char_of (48 + unat (drop_bit 4 (data ! i)))]"]
    by (auto simp: Let_def isDigit_char split: if_splits)
qed

lemma calculateImeiCheckDigit_le: "list_all isDigit value \<Longrightarrow> 14 \<le> length value \<Longrightarrow> unat (calculateImeiCheckDigit value) \<le> 9"
proof -
  assume "list_all isDigit value" "14 \<le> length value"
  then have "unat (calculateImeiCheckDigit value)
      = (10 - luhn_sum (map digit_value (take 14 value)) mod 10) mod 10"
    by (intro check_digit_nat) (auto simp: list_all_length)
  then show ?thesis using mod_less_divisor [of 10 "10 - luhn_sum (map digit_value (take 14 value)) mod 10"] by linarith
qed

lemma decodeImeiBlock_ok: "decodeImeiBlock block fullBlock = Some imei \<Longrightarrow> imei_ok imei"
proof -
  assume "decodeImeiBlock block fullBlock = Some imei"
  then obtain v where v: "decode_digits (imeiCipherDecrypt block fullBlock) [0..<7] '''' = Some v"
    and imei: "imei = v @ [char_of (48 + unat (drop_bit 4 (imeiCipherDecrypt block fullBlock ! 7)))]"
    and chk: "calculateImeiCheckDigit v = drop_bit 4 (imeiCipherDecrypt block fullBlock ! 7)"
    by (auto simp: decodeImeiBlock_def Let_def split: if_splits option.splits prod.splits)
  have d: "list_all isDigit v" and n: "length v = 14"
    using decode_digits_ok [OF v] by simp_all
  show ?thesis
    using d n isDigit_char [OF calculateImeiCheckDigit_le [OF d]]
    by (simp add: imei_ok_def imei chk [symmetric])
qed


lemma imei_from_block_ok:
  assumes "eeprom_wf e" and "imei_ok imei"
  shows "\<exists>imei'. imei_from_block e bid fullBlock imei = Inr imei' \<and> imei_ok imei'"
proof (cases "m_blocks e bid")
  case None
  then show ?thesis using assms by (simp add: imei_from_block_def hasBlock_def)
next
  case (Some blk)
  then show ?thesis
    using assms readBlock_bytes [OF assms(1) Some] decodeImeiBlock_ok
    by (auto simp: imei_from_block_def split: option.split)
qed

lemma skey_from_block_ok:
  assumes "eeprom_wf e"
  shows "\<exists>skey. skey_from_block e = Inr skey \<and> (skey = [] \<or> length skey = 4)"
proof (cases "m_blocks e 5122")
  case None
  then show ?thesis by (simp add: skey_from_block_def hasBlock_def)
next
  case (Some blk)
  then show ?thesis using readBlock_bytes [OF assms Some] by (auto simp: skey_from_block_def hasBlock_def)
qed

lemma bkey_from_blocks_ok:
  assumes "eeprom_wf e" and "hash = [] \<or> length hash = 16"
  shows "\<exists>bkey hash'. bkey_from_blocks e bids hash = Inr (bkey, hash') \<and> (hash' = [] \<or> length hash' = 16)
    \<and> (hash \<noteq> [] \<longrightarrow> hash' = hash) \<and> (bkey = [] \<or> length bkey = 16 \<and> hash' = md5 bkey)"
proof (induction bids)
  case Nil
  then show ?case using assms(2) by simp
next
  case (Cons bid rest)
  show ?case
  proof (cases "m_blocks e bid")
    case None
    then show ?thesis using Cons by (simp add: hasBlock_def)
  next
    case (Some blk)
    then have read: "readBlock e bid = Inr (block_bytes (m_data e) blk)" and has: "hasBlock e bid"
      using readBlock_bytes [OF assms(1) Some] by (simp_all add: hasBlock_def)
    then show ?thesis using Cons assms(2)
      by (cases "length (block_bytes (m_data e) blk) < 16") (auto simp: Let_def not_less min_absorb2)
  qed
qed

text \<open>The reads of an image that names a known vendor and a model.\<close>

lemma info_read_ok:
  assumes wf: "eeprom_wf e" and layout: "getBootcoreLayout fullflash = Some bootcore"
    and vendor: "readString fullflash VENDOR_OFFSET 16 = Some vendor"
    and model: "readString fullflash MODEL_OFFSET 16 = Some model"
    and known: "is_vendor vendor" "model \<noteq> ''''"
  shows "\<exists>info. getFullflashInfo e fullflash = Inr (Some info) \<and> info_ok info \<and>
    (\<not> isErasedData fullflash (hashOffset bootcore) 16 \<longrightarrow> info_hash info = chunk fullflash (hashOffset bootcore) 16)"
proof -
  define imei0 where "imei0 = string_of_bytes (chunk fullflash (imeiOffset bootcore) 15)"
  define hash0 where "hash0 = (if \<not> isErasedData fullflash (hashOffset bootcore) 16
      then chunk fullflash (hashOffset bootcore) 16 else [])"
  have fits: "hashOffset bootcore + 16 \<le> length fullflash" "imeiOffset bootcore + 15 \<le> length fullflash"
    using layout by (auto elim: getBootcoreLayout_Some)
  have "imei_ok (if list_all isDigit imei0 then imei0 else '''')"
    using fits by (simp add: imei_ok_def imei0_def string_of_bytes_def)
  then obtain imei2 where i2: "imei_from_block e 76 False (if list_all isDigit imei0 then imei0 else '''') = Inr imei2"
    and ok2: "imei_ok imei2"
    using imei_from_block_ok [OF wf] by blast
  obtain imei where i: "imei_from_block e 5009 True imei2 = Inr imei" and ok: "imei_ok imei"
    using imei_from_block_ok [OF wf ok2] by blast
  obtain skey where s: "skey_from_block e = Inr skey" "skey = [] \<or> length skey = 4"
    using skey_from_block_ok [OF wf] by blast
  have "hash0 = [] \<or> length hash0 = 16" using fits by (simp add: hash0_def)
  then obtain bkey hash where b: "bkey_from_blocks e [52, 320] hash0 = Inr (bkey, hash)"
    "hash = [] \<or> length hash = 16" "bkey = [] \<or> length bkey = 16 \<and> hash = md5 bkey"
    "hash0 \<noteq> [] \<longrightarrow> hash = hash0"
    using bkey_from_blocks_ok [OF wf] by blast
  have h: "\<not> isErasedData fullflash (hashOffset bootcore) 16 \<longrightarrow> hash = chunk fullflash (hashOffset bootcore) 16"
    using b(4) fits(1) by (auto simp: hash0_def dest: arg_cong [of _ _ length])
  have "getFullflashInfo e fullflash = Inr (Some \<lparr>info_device = buildDeviceName model,
      info_vendor = vendor, info_model = model, info_version = layout_version bootcore,
      info_imei = imei, info_bkey = bkey, info_skey = skey, info_hash = hash\<rparr>)"
    unfolding getFullflashInfo_def layout vendor model option.case Let_def imei0_def [symmetric]
      hash0_def [symmetric]
    using known by (simp only: i2 i s(1) b(1) ebind.simps prod.case simp_thms if_True if_False)
  then show ?thesis using known ok s(2) b(2,3) h by (simp add: info_ok_def)
qed

text \<open>What an image with a parsed store gives: no identity, or a consistent one with its boot core's HASH.\<close>

lemma getFullflashInfo_cases:
  assumes wf: "eeprom_wf e" and layout: "getBootcoreLayout fullflash = Some bootcore"
  obtains (unknown) "getFullflashInfo e fullflash = Inr None"
    | (known) info where "getFullflashInfo e fullflash = Inr (Some info)" "info_ok info"
      "\<not> isErasedData fullflash (hashOffset bootcore) 16 \<Longrightarrow> info_hash info = chunk fullflash (hashOffset bootcore) 16"
proof (cases "readString fullflash VENDOR_OFFSET 16")
  case None
  then show ?thesis using layout unknown by (simp add: getFullflashInfo_def)
next
  case vendor: (Some vendor)
  show ?thesis
  proof (cases "readString fullflash MODEL_OFFSET 16")
    case None
    then show ?thesis using layout vendor unknown by (simp add: getFullflashInfo_def)
  next
    case model: (Some model)
    show ?thesis
    proof (cases "is_vendor vendor \<and> model \<noteq> ''''")
      case True
      then show ?thesis using info_read_ok [OF assms vendor model] known by blast
    next
      case False
      then show ?thesis using layout vendor model unknown by (auto simp: getFullflashInfo_def)
    qed
  qed
qed

section \<open>Properties\<close>

text \<open>The boot-core layout: when it is recognised, its HASH and IMEI fields lie in the image,
  the HASH before the IMEI, the version is one of the three supported ones, and overwriting
  both fields with any values leaves the recognised layout as it was.\<close>

theorem bootcore_layout_bounds:
  assumes "getBootcoreLayout fullflash = Some layout" and "length hash = 16" and "length imei = 15"
  shows "hashOffset layout + 16 \<le> imeiOffset layout \<and> imeiOffset layout + 15 \<le> length fullflash
    \<and> (version_major (layout_version layout), version_minor (layout_version layout)) \<in> {(2, 0), (2, 2), (3, 0)}
    \<and> getBootcoreLayout (blit (blit fullflash (hashOffset layout) hash) (imeiOffset layout) imei) = Some layout"
proof (rule getBootcoreLayout_Some [OF assms(1)])
  fix version
  assume v: "layout_of_version version = Some layout"
    and fits: "hashOffset layout + 16 \<le> length fullflash" "imeiOffset layout + 15 \<le> length fullflash"
  let ?ff = "blit (blit fullflash (hashOffset layout) hash) (imeiOffset layout) imei"
  have "getBootcoreLayout ?ff = getBootcoreLayout fullflash"
  proof (rule getBootcoreLayout_cong)
    show "length ?ff = length fullflash" using fits assms(2,3) by simp
    fix i assume "layout_bytes i"
    then show "?ff ! i = fullflash ! i"
      using layout_fields_apart(2) [OF v] fits assms(2,3) by (auto simp: nth_blit)
  qed
  then show ?thesis
    using layout_fields_apart(1) [OF v] fits(2) layout_version_known [OF v] assms(1) by simp
qed

text \<open>C25. The identity read from an image with a parsed store: the read never fails, and the
  identity is consistent.  The vendor is a known one, the IMEI is empty or fifteen digits, the SKEY
  is absent or four bytes, HASH is absent or sixteen bytes, and a BKEY is only reported when its
  MD5 is the HASH.\<close>

theorem fullflash_info_consistent:
  assumes "eeprom_wf e"
  shows "case getFullflashInfo e fullflash of
    Inl err \<Rightarrow> False | Inr None \<Rightarrow> True | Inr (Some info) \<Rightarrow> info_ok info"
proof (cases "getBootcoreLayout fullflash")
  case None
  then show ?thesis by (simp add: getFullflashInfo_def)
next
  case (Some bootcore)
  show ?thesis by (rule getFullflashInfo_cases [OF assms Some]) simp_all
qed

section \<open>Witnesses\<close>

text \<open>An erased image with a version 2.0 boot core, a model and a vendor.\<close>

definition sample_bootcore :: "u8 list" where
  "sample_bootcore =
     blit (blit (replicate 0x90000 0xFF) 0x200 [0, 2, 0x4C, 0x53]) BOOTCORE_MAGIC_OFFSET (le_bytes BOOTCORE_MAGIC)"

definition sample_fullflash :: "u8 list" where
  "sample_fullflash =
     blit (blit sample_bootcore MODEL_OFFSET [0x45, 0x4C, 0x37, 0x31, 0, 0, 0, 0, 0, 0, 0, 0, 0, 0, 0, 0])
       VENDOR_OFFSET [0x53, 0x49, 0x45, 0x4D, 0x45, 0x4E, 0x53, 0, 0, 0, 0, 0, 0, 0, 0, 0]"

lemmas sample_defs = sample_fullflash_def sample_bootcore_def MODEL_OFFSET_def VENDOR_OFFSET_def
  BOOTCORE_MAGIC_OFFSET_def

lemma length_sample_bootcore [simp]: "length sample_bootcore = 0x90000"
  unfolding sample_bootcore_def BOOTCORE_MAGIC_OFFSET_def by simp

lemma length_sample_fullflash [simp]: "length sample_fullflash = 0x90000"
  unfolding sample_fullflash_def MODEL_OFFSET_def VENDOR_OFFSET_def by simp

lemma sample_layout:
  "getBootcoreLayout sample_fullflash
    = Some \<lparr>layout_version = \<lparr>version_major = 2, version_minor = 0\<rparr>, hashOffset = 0x238, imeiOffset = 0x65C\<rparr>"
proof -
  have magic: "readUInt32LE sample_fullflash 0x3C = BOOTCORE_MAGIC"
  proof -
    have "readUInt32LE sample_fullflash 0x3C = readUInt32LE (le_bytes BOOTCORE_MAGIC) 0"
      by (intro u32le.rd_cong) (simp add: sample_defs nth_blit)
    then show ?thesis by simp
  qed
  have word: "readUInt16LE sample_fullflash 0x202 = INTERFACE_MAGIC"
  proof -
    have "readUInt16LE sample_fullflash 0x202 = readUInt16LE [0, 2, 0x4C, 0x53] 2"
      by (intro u16le.rd_cong) (simp add: sample_defs nth_blit)
    also have "\<dots> = INTERFACE_MAGIC" unfolding INTERFACE_MAGIC_def by code_simp
    finally show ?thesis .
  qed
  have bytes: "sample_fullflash ! 0x200 = 0" "sample_fullflash ! 0x201 = 2"
    by (simp_all add: sample_defs nth_blit)
  show ?thesis
    by (simp add: getBootcoreLayout_def readBootcoreVersion_def INTERFACE_OFFSETS_def
        BOOTCORE_MAGIC_OFFSET_def magic word bytes layout_of_version_def Let_def)
qed

lemma sample_strings:
  "readString sample_fullflash VENDOR_OFFSET 16 = Some ''SIEMENS''"
  "readString sample_fullflash MODEL_OFFSET 16 = Some ''EL71''"
proof -
  have c: "chunk sample_fullflash VENDOR_OFFSET 16 = [0x53, 0x49, 0x45, 0x4D, 0x45, 0x4E, 0x53, 0, 0, 0, 0, 0, 0, 0, 0, 0]"
    "chunk sample_fullflash MODEL_OFFSET 16 = [0x45, 0x4C, 0x37, 0x31, 0, 0, 0, 0, 0, 0, 0, 0, 0, 0, 0, 0]"
    unfolding sample_fullflash_def
    by (simp_all add: chunk_blit_other MODEL_OFFSET_def VENDOR_OFFSET_def)
  have fit: "VENDOR_OFFSET + 16 \<le> length sample_fullflash" "MODEL_OFFSET + 16 \<le> length sample_fullflash"
    by (simp_all add: MODEL_OFFSET_def VENDOR_OFFSET_def)
  have decoded: "string_of_bytes (takeWhile (\<lambda>b. b \<noteq> 0) [0x53, 0x49, 0x45, 0x4D, 0x45, 0x4E, 0x53, 0, 0, 0, 0, 0, 0, 0, 0, 0]) = ''SIEMENS''"
    "string_of_bytes (takeWhile (\<lambda>b. b \<noteq> 0) [0x45, 0x4C, 0x37, 0x31, 0, 0, 0, 0, 0, 0, 0, 0, 0, 0, 0, 0]) = ''EL71''"
    by code_simp+
  show "readString sample_fullflash VENDOR_OFFSET 16 = Some ''SIEMENS''"
    and "readString sample_fullflash MODEL_OFFSET 16 = Some ''EL71''"
    unfolding readString_chunk c decoded by (simp_all add: MODEL_OFFSET_def VENDOR_OFFSET_def)
qed

theorem bootcore_layout_bounds_witness:
  "getBootcoreLayout (blit (blit sample_fullflash 0x238 (replicate 16 1)) 0x65C (replicate 15 2))
    = getBootcoreLayout sample_fullflash"
  using bootcore_layout_bounds [OF sample_layout, of "replicate 16 1" "replicate 15 2"]
  by (simp add: sample_layout)

theorem fullflash_info_consistent_witness:
  "case getFullflashInfo \<lparr>m_data = sample_fullflash, eeprom_layout = UNKNOWN_LAYOUT, m_blocks = Map.empty\<rparr>
     sample_fullflash of Inr (Some info) \<Rightarrow> info_ok info \<and> info_model info = ''EL71'' | _ \<Rightarrow> False"
proof -
  let ?e = "\<lparr>m_data = sample_fullflash, eeprom_layout = UNKNOWN_LAYOUT, m_blocks = Map.empty\<rparr>"
  have wf: "eeprom_wf ?e" by (simp add: eeprom_wf_def)
  have "\<exists>info. getFullflashInfo ?e sample_fullflash = Inr (Some info) \<and> info_model info = ''EL71''"
  proof -
    have none: "imei_from_block ?e b f i = Inr i" "skey_from_block ?e = Inr []"
      "bkey_from_blocks ?e [52, 320] h = Inr ([], h)" for b f i h
      by (simp_all add: imei_from_block_def skey_from_block_def hasBlock_def)
    have v: "is_vendor ''SIEMENS''" "''EL71'' \<noteq> ''''" by (simp_all add: is_vendor_def)
    show ?thesis
      unfolding getFullflashInfo_def sample_layout sample_strings option.case Let_def
      using v by (simp only: none ebind.simps prod.case simp_thms if_False sum.inject option.inject
          fullflash_info.select_convs ex_simps)
  qed
  then show ?thesis using fullflash_info_consistent [OF wf, of sample_fullflash] by auto
qed

end
