(* ===== verification/Recalc.thy ===== *)
theory Recalc
  imports Fullflash
begin

text \<open>
  src/siemens/recalc.cpp: the key blocks of a fullflash and the in-place recalculation.  The image
  is passed by reference and patched, so \<open>recalculateFullflash\<close> returns the image as it is when
  the function ends beside the way it ends: an exception, \<open>std::nullopt\<close> or a result.
\<close>

section \<open>The code\<close>

record keys =
  keys_imei :: string
  keys_esn :: u32
  keys_skey :: u32
  masterKeys :: "u32 list"
  verDown :: u8

record recalc_result =
  result_complete :: bool
  result_changed :: bool

record generated_block =
  generated_id :: u32
  generated_data :: "u8 list"
  required :: bool

definition BLOCK52_TAIL :: "u8 list" where
  "BLOCK52_TAIL = [
    0xff, 0x01, 0x00, 0x00, 0x01, 0x03, 0x00, 0x01, 0x00, 0x01, 0x00, 0x54, 0x00, 0x55, 0x00, 0x80,
    0x00, 0xd9, 0xd9, 0xf3, 0xbb, 0x3f, 0x70, 0x85, 0x83, 0x86, 0x91, 0xd8, 0xa0, 0xda, 0xc3, 0x95,
    0xa5, 0xa3, 0x4d, 0xd0, 0x4f, 0xcf, 0xe3, 0x50, 0x4a, 0x54, 0xa6, 0x34, 0x52, 0x60, 0x34, 0xd2,
    0xfb, 0x76, 0x69, 0x5d, 0xef, 0x36, 0x96, 0x56, 0x0f, 0xc0, 0x6d, 0xef, 0x38, 0x12, 0xb7, 0xc7,
    0x2f, 0xbf, 0xd6, 0xa0, 0xd5, 0x15, 0xe7, 0x13, 0x24, 0x14, 0x45, 0x40, 0x40, 0xf9, 0x69, 0x49,
    0x08, 0xb1, 0x3b, 0xed, 0x97, 0x9a, 0xef, 0x9f, 0x20, 0x63, 0xda, 0x07, 0xf8, 0x40, 0x3c, 0xeb,
    0x30, 0x32, 0x68, 0x08, 0x49, 0x86, 0xa2, 0x3b, 0x3e, 0x61, 0x21, 0xfe, 0x7b, 0xce, 0xd2, 0xad,
    0x3b, 0x02, 0x00, 0x5c, 0x41, 0x30, 0xa3, 0x8d, 0x52, 0x79, 0xf0, 0x97, 0x28, 0x4e, 0xfc, 0x18,
    0x6a, 0xe9, 0x5e, 0x0a, 0xb2, 0xbe, 0x4b, 0xa7, 0xa8, 0x58, 0x44, 0x28, 0x91, 0xf4, 0xbe, 0xec,
    0xef]"

definition buildImeiBlock :: "string \<Rightarrow> bool \<Rightarrow> u8 list" where
  "buildImeiBlock imei fullBlock =
     (let block = fold (\<lambda>index block.
            let digit = of_char (imei ! index) - 0x30
            in if index mod 2 \<noteq> 0
               then block[index div 2 := block ! (index div 2) OR push_bit 4 digit]
               else block[index div 2 := digit]) [0..<14] (replicate 10 0);
          block = block[7 := push_bit 4 (calculateImeiCheckDigit imei)];
          (xorEven, xorOdd) = imei_block_xors block;
          block = block[8 := if fullBlock then xorOdd else xorEven];
          block = block[9 := xorOdd XOR xorEven XOR 0xFF]
      in imeiCipherEncrypt block fullBlock)"

text \<open>Sum and XOR of \<open>n\<close> bytes from \<open>offset\<close>, as the checksum writer and the checksum check fold them.\<close>

definition checksum_loop :: "u8 list \<Rightarrow> nat \<Rightarrow> nat \<Rightarrow> u8 \<times> u8" where
  "checksum_loop data offset n =
     fold (\<lambda>index (sum, xorValue). (sum + data ! (offset + index), xorValue XOR data ! (offset + index)))
       [0..<n] (0, 0)"

definition writeChecksum :: "u8 list \<Rightarrow> nat \<Rightarrow> nat \<Rightarrow> u8 list" where
  "writeChecksum data offset n =
     (let (sum, xorValue) = checksum_loop data offset n
      in data[offset + n := sum, offset + n + 1 := xorValue])"

definition HEADER :: "u32 list" where
  "HEADER = [0x56605650, 0, 0x300, 0x670000, 0, 0xFFFFFFFF, 0xFFFFFFFF, 0x6462FF00, 0x56805670, 0]"

definition buildBlock5008 :: "string \<Rightarrow> u32 \<Rightarrow> u8 list" where
  "buildBlock5008 imei esn =
     (let block = replicate 0xE0 0;
          block = fold (\<lambda>index block. writeUInt32LE block (index * 4) (HEADER ! index)) [0..<10] block;
          block = blit block 0x28 (replicate 0xB8 0xFF);
          block = writeUInt32LE block 0xD8 0x50;
          block = writeUInt32LE block 0xDC 0;
          block = writeChecksum block 8 0x16;
          block = writeChecksum block 0x28 0xB0;
          block = writeUInt32LE block 0x00 (readUInt32LE block 0x00 XOR 0xBA1FE5D7);
          block = writeUInt32LE block 0x04 (readUInt32LE block 0x04 XOR 0xD95D2DFD);
          block = writeUInt32LE block 0x20 (readUInt32LE block 0x20 XOR 0xBA1FE5D7);
          block = writeUInt32LE block 0x24 (readUInt32LE block 0x24 XOR 0xD95D2DFD);
          key = buildEepromKey esn imei;
          block = cipherEncrypt block 0 0x20 key;
          block = cipherEncrypt block 0x20 0xC0 key
      in block)"

definition buildBlock5077 :: "string \<Rightarrow> u32 \<Rightarrow> u8 list" where
  "buildBlock5077 imei esn =
     (let block = replicate 0xE8 0xFF;
          block = writeUInt32LE block 0 0x56A05690;
          block = writeUInt32LE block 4 0;
          block = block[0xB := 0];
          block = writeUInt32LE block 0xE0 0x063DFF29;
          block = writeUInt32LE block 0xE4 0xF3800B06;
          block = writeChecksum block 8 0xD8;
          block = writeUInt32LE block 0 (readUInt32LE block 0 XOR 0xBA1FE5D7);
          block = writeUInt32LE block 4 (readUInt32LE block 4 XOR 0xD95D2DFD);
          key = buildEepromKey esn imei
      in cipherEncrypt block 0 (length block) key)"

definition master_entry :: "keys \<Rightarrow> u8 list \<Rightarrow> nat \<Rightarrow> u8 list \<Rightarrow> u8 list" where
  "master_entry keys packedImei index block =
     (let entry = 8 + index * 8;
          block = writeUInt32LE block entry (word_of_nat index XOR 0x77C5742D);
          block = writeUInt32LE block (entry + 4) 0xF49A4ADA;
          block = cipherEncrypt block entry 8 (buildCipherKey2 (masterKeys keys ! index) (keys_esn keys) packedImei)
      in cipherEncrypt block entry 8 (buildCipherKey1 (masterKeys keys ! index) (keys_esn keys) packedImei))"

definition buildBlock5121 :: "keys \<Rightarrow> u8 list" where
  "buildBlock5121 keys =
     (let packedImei = packImei (keys_imei keys);
          block = replicate (8 + 6 * 8) 0;
          block = writeUInt32LE block 0 0x77C5742D;
          block = writeUInt32LE block 4 0xF49A4ADA;
          block = cipherEncrypt block 0 8 (buildCipherKey1 (keys_skey keys) (keys_esn keys) packedImei)
      in fold (master_entry keys packedImei) [0..<length (masterKeys keys)] block)"

definition buildBlock5122 :: "u32 \<Rightarrow> u8 list" where
  "buildBlock5122 skey =
     (let block = writeUInt32LE (replicate 6 0) 0 skey in block[4 := 0x58, 5 := 0])"

definition buildBlock5123 :: "u8 list \<Rightarrow> bool \<Rightarrow> u8 list" where
  "buildBlock5123 block5121 shortVariant =
     (let block = replicate (if shortVariant then 0xC else 0x20) 0;
          block = writeUInt32LE block 0 (if shortVariant then 0xFFFFFF3F else 0xFFFF1F07)
      in blit block 4 (take 8 block5121))"

definition buildBlock52 :: "u8 list \<Rightarrow> u8 \<Rightarrow> u8 list" where
  "buildBlock52 bkey down =
     (let block = blit (replicate 0x122 0xFF) 0 bkey;
          block = block[16 := down]
      in blit block 17 BLOCK52_TAIL)"

definition buildBlock5468 :: "keys \<Rightarrow> u8 list \<Rightarrow> u8 list" where
  "buildBlock5468 keys bkey =
     (let block = blit (replicate 0x31 0) 0 bkey;
          block = block[16 := 0x58];
          packedEsn = writeUInt32LE (replicate 4 0) 0 (keys_esn keys);
          esnHash = md5 packedEsn;
          block = blit block 0x11 esnHash;
          imeiHash = md5 (bytes_of_string (keys_imei keys));
          block = blit block 0x21 (take 8 imeiHash);
          totalHash = md5 (take 0x29 block)
      in blit block 0x29 (take 8 totalHash))"

text \<open>The table of \<open>recalculateFullflash\<close> and the loop over it.\<close>

definition generated :: "u32 \<Rightarrow> u8 list \<Rightarrow> bool \<Rightarrow> generated_block" where
  "generated bid value req = \<lparr>generated_id = bid, generated_data = value, required = req\<rparr>"

definition generated_blocks :: "keys \<Rightarrow> u8 list \<Rightarrow> nat \<Rightarrow> generated_block list" where
  "generated_blocks keys bkey block5123Size =
     (let block5121 = buildBlock5121 keys
      in [generated 52 (buildBlock52 bkey (verDown keys)) True,
          generated 76 (buildImeiBlock (keys_imei keys) False) True,
          generated 320 bkey False,
          generated 5008 (buildBlock5008 (keys_imei keys) (keys_esn keys)) True,
          generated 5009 (buildImeiBlock (keys_imei keys) True) True,
          generated 5077 (buildBlock5077 (keys_imei keys) (keys_esn keys)) True,
          generated 5121 block5121 True,
          generated 5122 (buildBlock5122 (keys_skey keys)) True,
          generated 5123 (buildBlock5123 block5121 (block5123Size = 0xC)) True,
          generated 5468 (buildBlock5468 keys bkey) False])"

fun replace_blocks ::
  "generated_block list \<Rightarrow> eeprom \<Rightarrow> recalc_result \<Rightarrow> eeprom \<times> (eeprom_error + recalc_result)" where
  "replace_blocks [] e result = (e, Inr result)"
| "replace_blocks (g # rest) e result =
     (if \<not> hasBlock e (generated_id g)
      then replace_blocks rest e (if required g then result\<lparr>result_complete := False\<rparr> else result)
      else case getBlockSize e (generated_id g) of
        Inl err \<Rightarrow> (e, Inl err)
      | Inr blockSize \<Rightarrow>
          if blockSize \<noteq> length (generated_data g)
          then replace_blocks rest e (if required g then result\<lparr>result_complete := False\<rparr> else result)
          else (case writeBlock e (generated_id g) (generated_data g) of
              Inl err \<Rightarrow> (e, Inl err)
            | Inr (e', changed) \<Rightarrow>
                replace_blocks rest e' (if changed then result\<lparr>result_changed := True\<rparr> else result)))"

definition patch_field :: "u8 list \<Rightarrow> nat \<Rightarrow> u8 list \<Rightarrow> recalc_result \<Rightarrow> u8 list \<times> recalc_result" where
  "patch_field fullflash offset value result =
     (if chunk fullflash offset (length value) \<noteq> value
      then (blit fullflash offset value, result\<lparr>result_changed := True\<rparr>) else (fullflash, result))"

definition recalculateFullflash ::
  "u8 list \<Rightarrow> keys \<Rightarrow> u8 list \<times> (eeprom_error + recalc_result option)" where
  "recalculateFullflash fullflash keys =
     (case getBootcoreLayout fullflash of
        None \<Rightarrow> (fullflash, Inr None)
      | Some layout \<Rightarrow>
          let (bkey, hash) = calculateBkeyAndHash (keys_esn keys) (keys_skey keys)
          in if isErasedData fullflash (hashOffset layout) 16 then (fullflash, Inr None)
             else let result = \<lparr>result_complete = True, result_changed = False\<rparr>;
                      (fullflash, result) = patch_field fullflash (hashOffset layout) hash result;
                      (fullflash, result) = patch_field fullflash (imeiOffset layout)
                        (take 15 (bytes_of_string (keys_imei keys))) result
                  in (case parsePartitions fullflash of
                      Inl err \<Rightarrow> (fullflash, Inl err)
                    | Inr e \<Rightarrow>
                        let block5123Size = (if hasBlock e 5123 then
                              case getBlockSize e 5123 of Inl _ \<Rightarrow> 0 | Inr n \<Rightarrow> n else 0)
                        in (case replace_blocks (generated_blocks keys bkey block5123Size) e result of
                            (e', Inl err) \<Rightarrow> (m_data e', Inl err)
                          | (e', Inr result') \<Rightarrow> (m_data e', Inr (Some result')))))"

section \<open>The loop over the generated blocks\<close>

definition fits :: "eeprom \<Rightarrow> generated_block \<Rightarrow> bool" where
  "fits e g \<longleftrightarrow> block_size e (generated_id g) = Some (length (generated_data g))"

lemma replace_skip:
  assumes "\<not> fits e g"
  shows "replace_blocks (g # rest) e result
    = replace_blocks rest e (if required g then result\<lparr>result_complete := False\<rparr> else result)"
  using assms
  by (cases "m_blocks e (generated_id g)")
    (auto simp: fits_def block_size_def hasBlock_def getBlockSize_def getBlockMetadata_def)

lemma replace_write:
  assumes "eeprom_wf e" and "fits e g"
  obtains e' where "writeBlock e (generated_id g) (generated_data g) = Inr (e', m_data e' \<noteq> m_data e)"
    and "replace_blocks (g # rest) e result
      = replace_blocks rest e' (if m_data e' \<noteq> m_data e then result\<lparr>result_changed := True\<rparr> else result)"
proof -
  obtain e' where put: "writeBlock e (generated_id g) (generated_data g) = Inr (e', m_data e' \<noteq> m_data e)"
    using store.put_ok [OF assms(1) assms(2) [unfolded fits_def]] by blast
  have "replace_blocks (g # rest) e result
      = replace_blocks rest e' (if m_data e' \<noteq> m_data e then result\<lparr>result_changed := True\<rparr> else result)"
    using assms(2) put
    by (cases "m_blocks e (generated_id g)")
      (auto simp: fits_def block_size_def hasBlock_def getBlockSize_def getBlockMetadata_def)
  with put that show ?thesis by blast
qed

declare replace_blocks.simps(2) [simp del]

lemma fits_cong: "m_blocks e' = m_blocks e \<Longrightarrow> fits e' = fits e"
  by (rule ext) (simp add: fits_def block_size_def)

text \<open>
  What the loop leaves: a well-formed store with the same metadata, an unchanged store if it
  reports no change, and completeness exactly when every required block fits.
\<close>

lemma replace_blocks_total:
  assumes "eeprom_wf e"
  shows "\<exists>e' r. replace_blocks gs e result = (e', Inr r) \<and> eeprom_wf e' \<and> m_blocks e' = m_blocks e
    \<and> length (m_data e') = length (m_data e) \<and> (result_changed result \<longrightarrow> result_changed r)
    \<and> (\<not> result_changed r \<longrightarrow> e' = e)
    \<and> result_complete r = (result_complete result \<and> (\<forall>g \<in> set gs. required g \<longrightarrow> fits e g))"
  using assms
proof (induction gs arbitrary: e result)
  case Nil
  then show ?case by simp
next
  case (Cons g rest)
  show ?case
  proof (cases "fits e g")
    case False
    let ?r = "if required g then result\<lparr>result_complete := False\<rparr> else result"
    from Cons.IH [OF Cons.prems, of ?r] show ?thesis
      unfolding replace_skip [OF False] using False by (auto split: if_splits)
  next
    case True
    obtain e1 where put: "writeBlock e (generated_id g) (generated_data g) = Inr (e1, m_data e1 \<noteq> m_data e)"
      and eq: "replace_blocks (g # rest) e result = replace_blocks rest e1
        (if m_data e1 \<noteq> m_data e then result\<lparr>result_changed := True\<rparr> else result)"
      by (rule replace_write [OF Cons.prems True])
    have wf: "eeprom_wf e1" by (rule store.put_inv [OF Cons.prems put])
    have blocks: "m_blocks e1 = m_blocks e" by (rule writeBlock_blocks [OF put])
    have len: "length (m_data e1) = length (m_data e)" by (rule store.put_length [OF Cons.prems put])
    have same: "m_data e1 = m_data e \<Longrightarrow> e1 = e" by (rule store.put_same [OF Cons.prems put])
    let ?r = "if m_data e1 \<noteq> m_data e then result\<lparr>result_changed := True\<rparr> else result"
    from Cons.IH [OF wf, of ?r] True same show ?thesis
      unfolding eq fits_cong [OF blocks] by (auto simp: blocks len split: if_splits)
  qed
qed

text \<open>A block apart from all the blocks the loop writes is as before.\<close>

lemma replace_blocks_frame:
  assumes "eeprom_wf e" and "\<forall>g \<in> set gs. fits e g \<longrightarrow> blocks_apart e (generated_id g) k"
    and "replace_blocks gs e result = (e', r)"
  shows "readBlock e' k = readBlock e k"
  using assms
proof (induction gs arbitrary: e result)
  case Nil
  then show ?case by simp
next
  case (Cons g rest)
  show ?case
  proof (cases "fits e g")
    case False
    then show ?thesis using Cons.IH [OF Cons.prems(1)] Cons.prems by (simp add: replace_skip)
  next
    case True
    obtain e1 where put: "writeBlock e (generated_id g) (generated_data g) = Inr (e1, m_data e1 \<noteq> m_data e)"
      and eq: "replace_blocks (g # rest) e result = replace_blocks rest e1
        (if m_data e1 \<noteq> m_data e then result\<lparr>result_changed := True\<rparr> else result)"
      by (rule replace_write [OF Cons.prems(1) True])
    have apart: "blocks_apart e1 = blocks_apart e" by (rule store.put_apart [OF put])
    have fits: "fits e1 = fits e" by (rule fits_cong [OF writeBlock_blocks [OF put]])
    have "readBlock e' k = readBlock e1 k"
      using Cons.prems(2,3) unfolding eq
      by (intro Cons.IH [OF store.put_inv [OF Cons.prems(1) put]]) (simp_all add: apart fits)
    also have "\<dots> = readBlock e k"
      using Cons.prems(2) True by (intro store.get_put_apart [OF Cons.prems(1) put]) simp
    finally show ?thesis .
  qed
qed

text \<open>The blocks that fit are pairwise apart.\<close>

fun all_apart :: "eeprom \<Rightarrow> generated_block list \<Rightarrow> bool" where
  "all_apart e [] = True"
| "all_apart e (g # rest) = ((\<forall>g' \<in> set rest. fits e g \<and> fits e g' \<longrightarrow>
      blocks_apart e (generated_id g') (generated_id g)) \<and> all_apart e rest)"

lemma all_apart_cong: "m_blocks e' = m_blocks e \<Longrightarrow> all_apart e' = all_apart e"
proof (rule ext)
  fix gs assume "m_blocks e' = m_blocks e"
  then show "all_apart e' gs = all_apart e gs"
    using fits_cong [of e' e] blocks_apart_cong [of e' e] by (induction gs) simp_all
qed

lemma replace_blocks_reads:
  assumes "eeprom_wf e" and "all_apart e gs" and "replace_blocks gs e result = (e', r)"
    and "g \<in> set gs" and "fits e g"
  shows "readBlock e' (generated_id g) = Inr (generated_data g)"
  using assms
proof (induction gs arbitrary: e result)
  case Nil
  then show ?case by simp
next
  case (Cons h rest)
  show ?case
  proof (cases "fits e h")
    case False
    then show ?thesis using Cons.IH [OF Cons.prems(1)] Cons.prems by (auto simp: replace_skip)
  next
    case True
    obtain e1 where put: "writeBlock e (generated_id h) (generated_data h) = Inr (e1, m_data e1 \<noteq> m_data e)"
      and eq: "replace_blocks (h # rest) e result = replace_blocks rest e1
        (if m_data e1 \<noteq> m_data e then result\<lparr>result_changed := True\<rparr> else result)"
      by (rule replace_write [OF Cons.prems(1) True])
    have wf: "eeprom_wf e1" by (rule store.put_inv [OF Cons.prems(1) put])
    have blocks: "m_blocks e1 = m_blocks e" by (rule writeBlock_blocks [OF put])
    have apart: "all_apart e1 rest" using Cons.prems(2) by (simp add: all_apart_cong [OF blocks])
    show ?thesis
    proof (cases "g \<in> set rest")
      case True
      then show ?thesis
        using Cons.IH [OF wf apart _ True] Cons.prems(3,5) unfolding eq fits_cong [OF blocks] by blast
    next
      case False
      then have g: "g = h" using Cons.prems(4) by simp
      have "readBlock e' (generated_id h) = readBlock e1 (generated_id h)"
        using Cons.prems(2,3) True unfolding eq
        by (intro replace_blocks_frame [OF wf]) (auto simp: fits_cong [OF blocks] blocks_apart_cong [OF blocks])
      then show ?thesis using store.get_put [OF Cons.prems(1) put] g by simp
    qed
  qed
qed


section \<open>The generated blocks\<close>

lemma length_imei_cipher: "length d = 10 \<Longrightarrow> length (imeiCipherEncrypt d fullBlock) = 10"
  by (simp add: imeiCipherEncrypt_rounds imei_rounds_length)

lemma length_fold_update:
  "(\<And>i d. length (f i d) = length d) \<Longrightarrow> length (fold f is d) = length d"
  by (induction "is" arbitrary: d) auto

lemma length_buildImeiBlock [simp]: "length (buildImeiBlock imei fullBlock) = 10"
  unfolding buildImeiBlock_def Let_def split_beta
  by (rule length_imei_cipher) (simp add: length_fold_update)

lemma length_writeChecksum [simp]: "length (writeChecksum data offset n) = length data"
  by (simp add: writeChecksum_def split_beta)

lemma length_header_loop [simp]:
  "length (fold (\<lambda>index block. writeUInt32LE block (index * 4) (HEADER ! index)) is block) = length block"
  by (rule length_fold_update) simp

lemma length_buildBlock5008 [simp]: "length (buildBlock5008 imei esn) = 0xE0"
  unfolding buildBlock5008_def Let_def by simp

lemma length_buildBlock5077 [simp]: "length (buildBlock5077 imei esn) = 0xE8"
  unfolding buildBlock5077_def Let_def by simp

lemma length_master_entry [simp]: "length (master_entry keys imei index block) = length block"
  by (simp add: master_entry_def Let_def)

lemma length_buildBlock5121 [simp]: "length (buildBlock5121 keys) = 56"
  unfolding buildBlock5121_def Let_def by (simp add: length_fold_update)

lemma length_buildBlock5122 [simp]: "length (buildBlock5122 skey) = 6"
  by (simp add: buildBlock5122_def)

lemma length_buildBlock5123 [simp]: "length (buildBlock5123 (buildBlock5121 keys) short) = (if short then 0xC else 0x20)"
  by (simp add: buildBlock5123_def)

lemma length_BLOCK52_TAIL [simp]: "length BLOCK52_TAIL = 145"
  by (simp add: BLOCK52_TAIL_def)

lemma length_buildBlock52 [simp]: "length bkey = 16 \<Longrightarrow> length (buildBlock52 bkey down) = 0x122"
  by (simp add: buildBlock52_def)

lemma length_buildBlock5468 [simp]: "length bkey = 16 \<Longrightarrow> length (buildBlock5468 keys bkey) = 0x31"
  by (simp add: buildBlock5468_def Let_def)

lemma length_bkey_hash [simp]:
  "length (fst (calculateBkeyAndHash esn skey)) = 16" "length (snd (calculateBkeyAndHash esn skey)) = 16"
  by (simp_all add: calculateBkeyAndHash_def Let_def)

text \<open>The blocks a complete image must have, with their sizes.\<close>

definition required_sizes :: "(u32 \<times> nat list) list" where
  "required_sizes = [(52, [0x122]), (76, [10]), (5008, [0xE0]), (5009, [10]), (5077, [0xE8]),
     (5121, [56]), (5122, [6]), (5123, [0xC, 0x20])]"

lemma generated_required:
  assumes bkey: "length bkey = 16"
    and n: "n = (case block_size e 5123 of None \<Rightarrow> 0 | Some n \<Rightarrow> n)"
  shows "(\<forall>g \<in> set (generated_blocks keys bkey n). required g \<longrightarrow> fits e g) \<longleftrightarrow>
    (\<forall>(bid, sizes) \<in> set required_sizes. \<exists>s \<in> set sizes. block_size e bid = Some s)"
  using bkey n
  by (auto simp: generated_blocks_def generated_def Let_def fits_def required_sizes_def split: option.splits)

section \<open>The recalculation\<close>

lemma patch_field_blit:
  assumes "offset + length value \<le> length ff"
  shows "fst (patch_field ff offset value result) = blit ff offset value"
    and "\<not> result_changed (snd (patch_field ff offset value result)) \<Longrightarrow> blit ff offset value = ff"
    and "result_complete (snd (patch_field ff offset value result)) = result_complete result"
    and "result_changed result \<Longrightarrow> result_changed (snd (patch_field ff offset value result))"
  using blit_chunk_id [OF assms _ refl] by (auto simp: patch_field_def split: if_splits)

text \<open>The image with the boot-core fields replaced.\<close>

definition patched :: "u8 list \<Rightarrow> bootcore_layout \<Rightarrow> keys \<Rightarrow> u8 list" where
  "patched ff layout keys =
     blit (blit ff (hashOffset layout) (snd (calculateBkeyAndHash (keys_esn keys) (keys_skey keys))))
       (imeiOffset layout) (take 15 (bytes_of_string (keys_imei keys)))"

definition first_result :: "u8 list \<Rightarrow> bootcore_layout \<Rightarrow> keys \<Rightarrow> recalc_result" where
  "first_result ff layout keys =
     (let hash = snd (calculateBkeyAndHash (keys_esn keys) (keys_skey keys));
          (ff', result) = patch_field ff (hashOffset layout) hash
            \<lparr>result_complete = True, result_changed = False\<rparr>
      in snd (patch_field ff' (imeiOffset layout) (take 15 (bytes_of_string (keys_imei keys))) result))"

lemma patched_fits:
  assumes "getBootcoreLayout ff = Some layout"
  shows "length (patched ff layout keys) = length ff"
    and "result_complete (first_result ff layout keys)"
    and "\<not> result_changed (first_result ff layout keys) \<Longrightarrow> patched ff layout keys = ff"
proof -
  let ?hash = "snd (calculateBkeyAndHash (keys_esn keys) (keys_skey keys))"
  let ?imei = "take 15 (bytes_of_string (keys_imei keys))"
  let ?r0 = "\<lparr>result_complete = True, result_changed = False\<rparr>"
  have h: "hashOffset layout + length ?hash \<le> length ff" and i: "imeiOffset layout + 15 \<le> length ff"
    using assms by (auto elim: getBootcoreLayout_Some)
  have i': "imeiOffset layout + length ?imei \<le> length (blit ff (hashOffset layout) ?hash)"
    using h i by simp
  show "length (patched ff layout keys) = length ff"
    using h i' by (simp add: patched_def)
  note p1 = patch_field_blit [OF h, of ?r0]
  note p2 = patch_field_blit [OF i']
  have fr: "first_result ff layout keys = snd (patch_field (blit ff (hashOffset layout) ?hash) (imeiOffset layout) ?imei
      (snd (patch_field ff (hashOffset layout) ?hash ?r0)))"
    by (simp add: first_result_def Let_def split_beta p1(1))
  show "result_complete (first_result ff layout keys)" by (simp add: fr p2(3) p1(3))
  show "patched ff layout keys = ff" if "\<not> result_changed (first_result ff layout keys)"
    using that p2(2,4) p1(2) unfolding fr patched_def by metis
qed

lemma block5123_size:
  "(if hasBlock e 5123 then case getBlockSize e 5123 of Inl x \<Rightarrow> 0 | Inr n \<Rightarrow> n else 0)
    = (case block_size e 5123 of None \<Rightarrow> 0 | Some n \<Rightarrow> n)"
  by (cases "m_blocks e 5123") (simp_all add: hasBlock_def getBlockSize_def getBlockMetadata_def block_size_def)

lemma recalculate_unfold:
  assumes layout: "getBootcoreLayout ff = Some layout"
    and hash: "\<not> isErasedData ff (hashOffset layout) 16"
  shows "recalculateFullflash ff keys =
    (case parsePartitions (patched ff layout keys) of
       Inl err \<Rightarrow> (patched ff layout keys, Inl err)
     | Inr e \<Rightarrow>
         (case replace_blocks (generated_blocks keys
                (fst (calculateBkeyAndHash (keys_esn keys) (keys_skey keys)))
                (case block_size e 5123 of None \<Rightarrow> 0 | Some n \<Rightarrow> n)) e (first_result ff layout keys) of
            (e', Inl err) \<Rightarrow> (m_data e', Inl err)
          | (e', Inr r) \<Rightarrow> (m_data e', Inr (Some r))))"
proof -
  let ?hash = "snd (calculateBkeyAndHash (keys_esn keys) (keys_skey keys))"
  let ?imei = "take 15 (bytes_of_string (keys_imei keys))"
  have h: "hashOffset layout + length ?hash \<le> length ff" and i: "imeiOffset layout + 15 \<le> length ff"
    using layout by (auto elim: getBootcoreLayout_Some)
  have i': "imeiOffset layout + length ?imei \<le> length (blit ff (hashOffset layout) ?hash)"
    using h i by simp
  show ?thesis
    unfolding recalculateFullflash_def layout option.case block5123_size
    using hash
    by (simp only: Let_def split_beta patched_def first_result_def patch_field_blit(1) [OF h]
        patch_field_blit(1) [OF i'] if_False fst_conv snd_conv)
qed


lemma recalculate_runs:
  assumes layout: "getBootcoreLayout ff = Some layout" and hash: "\<not> isErasedData ff (hashOffset layout) 16"
    and parse: "parsePartitions (patched ff layout keys) = Inr e"
    and gs: "gs = generated_blocks keys (fst (calculateBkeyAndHash (keys_esn keys) (keys_skey keys)))
      (case block_size e 5123 of None \<Rightarrow> 0 | Some n \<Rightarrow> n)"
  obtains e' r where "recalculateFullflash ff keys = (m_data e', Inr (Some r))"
    and "replace_blocks gs e (first_result ff layout keys) = (e', Inr r)"
    and "eeprom_wf e'" and "m_blocks e' = m_blocks e" and "length (m_data e') = length ff"
    and "\<not> result_changed r \<Longrightarrow> m_data e' = ff"
    and "result_complete r \<longleftrightarrow> (\<forall>g \<in> set gs. required g \<longrightarrow> fits e g)"
proof -
  have wf: "eeprom_wf e" and data: "m_data e = patched ff layout keys"
    using parsePartitions_wf [OF parse] by simp_all
  obtain e' r where run: "replace_blocks gs e (first_result ff layout keys) = (e', Inr r)"
    and wf': "eeprom_wf e'" "m_blocks e' = m_blocks e" "length (m_data e') = length (m_data e)"
    and mono: "result_changed (first_result ff layout keys) \<longrightarrow> result_changed r"
    and same: "\<not> result_changed r \<longrightarrow> e' = e"
    and compl: "result_complete r = (result_complete (first_result ff layout keys)
      \<and> (\<forall>g \<in> set gs. required g \<longrightarrow> fits e g))"
    using replace_blocks_total [OF wf, of gs "first_result ff layout keys"] by blast
  have "recalculateFullflash ff keys = (m_data e', Inr (Some r))"
    using run by (simp add: recalculate_unfold [OF layout hash] parse gs [symmetric])
  moreover have "length (m_data e') = length ff"
    using wf'(3) data patched_fits(1) [OF layout] by simp
  moreover have "m_data e' = ff" if "\<not> result_changed r"
    using that mono same data patched_fits(3) [OF layout] by auto
  moreover have "result_complete r \<longleftrightarrow> (\<forall>g \<in> set gs. required g \<longrightarrow> fits e g)"
    using compl patched_fits(2) [OF layout] by simp
  ultimately show ?thesis using that run wf'(1,2) by blast
qed

section \<open>The IMEI block\<close>

definition imei_pair :: "string \<Rightarrow> nat \<Rightarrow> u8" where
  "imei_pair imei k = imei_digit imei (2 * k) OR push_bit 4 (imei_digit imei (2 * k + 1))"

text \<open>The ten bytes before encryption.\<close>

definition imei_plain :: "string \<Rightarrow> bool \<Rightarrow> u8 list" where
  "imei_plain imei fullBlock =
     (let p = imei_pair imei; c = push_bit 4 (calculateImeiCheckDigit imei);
          xorEven = p 0 XOR p 2 XOR p 4 XOR p 6; xorOdd = p 1 XOR p 3 XOR p 5 XOR c
      in [p 0, p 1, p 2, p 3, p 4, p 5, p 6, c, if fullBlock then xorOdd else xorEven,
          xorOdd XOR xorEven XOR 0xFF])"

lemma upt_0_14: "[0..<14] = [0, 1, 2, 3, 4, 5, 6, 7, 8, 9, 10, 11, 12, 13 :: nat]"
  by (simp add: upt_rec)

lemma replicate_10: "replicate 10 x = [x, x, x, x, x, x, x, x, x, x]"
  by (simp add: eval_nat_numeral)

lemma imei_block_xors_list:
  "imei_block_xors [b0, b1, b2, b3, b4, b5, b6, b7, b8, b9]
    = (b0 XOR b2 XOR b4 XOR b6, b1 XOR b3 XOR b5 XOR b7)"
  by (simp add: imei_block_xors_def upt_0_8 xor.assoc)

lemma imei_digit_loop:
  "fold (\<lambda>index block.
       let digit = of_char (imei ! index) - 0x30
       in if index mod 2 \<noteq> 0
          then block[index div 2 := block ! (index div 2) OR push_bit 4 digit]
          else block[index div 2 := digit]) [0..<14] (replicate 10 0)
    = [imei_pair imei 0, imei_pair imei 1, imei_pair imei 2, imei_pair imei 3, imei_pair imei 4,
       imei_pair imei 5, imei_pair imei 6, 0, 0, 0]"
  by (simp add: upt_0_14 replicate_10 imei_pair_def imei_digit_def)

lemma buildImeiBlock_plain:
  "buildImeiBlock imei fullBlock = imeiCipherEncrypt (imei_plain imei fullBlock) fullBlock"
  unfolding buildImeiBlock_def imei_digit_loop
  by (simp add: Let_def imei_block_xors_list imei_plain_def)

lemma length_imei_plain [simp]: "length (imei_plain imei fullBlock) = 10"
  by (simp add: imei_plain_def Let_def)

lemma imei_char: "isDigit (imei ! i) \<Longrightarrow> char_of (48 + unat (imei_digit imei i)) = imei ! i"
proof -
  assume d: "isDigit (imei ! i)"
  have "unat (imei_digit imei i) = digit_value (imei ! i)"
    unfolding imei_digit_value [OF d] by (rule digit_word_less(2) [OF digit_value_less [OF d]])
  then have "48 + unat (imei_digit imei i) = code_of (imei ! i)"
    using d by (simp add: isDigit_def digit_value_def)
  then show ?thesis by (simp add: code_of_def)
qed

lemma digit_at_most_9: "isDigit (imei ! i) \<Longrightarrow> \<not> 9 < imei_digit imei i"
proof -
  assume d: "isDigit (imei ! i)"
  have "unat (imei_digit imei i) = digit_value (imei ! i)"
    unfolding imei_digit_value [OF d] by (rule digit_word_less(2) [OF digit_value_less [OF d]])
  then show ?thesis using digit_value_less [OF d] by (simp add: word_less_nat_alt)
qed

lemma imei_pair_nibbles:
  assumes "isDigit (imei ! (2 * k))" and "isDigit (imei ! (2 * k + 1))"
  shows "imei_pair imei k AND 0xF = imei_digit imei (2 * k)"
    and "drop_bit 4 (imei_pair imei k) = imei_digit imei (2 * k + 1)"
  unfolding imei_pair_def
  using assms by (simp_all only: low_nibble_pack high_nibble_pack imei_digit_less)

lemma decode_pair:
  assumes "isDigit (imei ! (2 * k))" and "isDigit (imei ! (2 * k + 1))" and "data ! k = imei_pair imei k"
  shows "decode_digits data (k # rest) value = decode_digits data rest (value @ [imei ! (2 * k), imei ! (2 * k + 1)])"
  using assms digit_at_most_9 [OF assms(1)] digit_at_most_9 [OF assms(2)]
  by (simp add: imei_pair_nibbles [simplified] Let_def imei_char [simplified])

lemma decode_pairs:
  assumes "\<And>i. i < 14 \<Longrightarrow> isDigit (imei ! i)" and "\<And>k. k < 7 \<Longrightarrow> data ! k = imei_pair imei k"
  shows "n \<le> 7 \<Longrightarrow> decode_digits data [7 - n..<7] value
    = Some (value @ map (\<lambda>i. imei ! i) [2 * (7 - n)..<14])"
proof (induction n arbitrary: "value")
  case 0
  then show ?case by simp
next
  case (Suc n)
  let ?k = "7 - Suc n"
  have k: "?k < 7" "Suc ?k = 7 - n" "Suc (Suc (2 * ?k)) = 2 * (7 - n)" using Suc.prems by auto
  have l: "[?k..<7] = ?k # [7 - n..<7]" using k(1,2) by (metis upt_conv_Cons)
  have "[2 * ?k..<14] = 2 * ?k # [Suc (2 * ?k)..<14]"
    and "[Suc (2 * ?k)..<14] = Suc (2 * ?k) # [Suc (Suc (2 * ?k))..<14]"
    by (rule upt_conv_Cons, use k(1) in linarith)+
  then have r: "[2 * ?k..<14] = 2 * ?k # (2 * ?k + 1) # [2 * (7 - n)..<14]"
    by (simp only: k(3) [symmetric] Suc_eq_plus1)
  have "decode_digits data [?k..<7] value
      = decode_digits data [7 - n..<7] (value @ [imei ! (2 * ?k), imei ! (2 * ?k + 1)])"
    unfolding l using k(1) by (intro decode_pair assms) auto
  also have "\<dots> = Some ((value @ [imei ! (2 * ?k), imei ! (2 * ?k + 1)]) @ map (\<lambda>i. imei ! i) [2 * (7 - n)..<14])"
    using Suc.prems by (intro Suc.IH) simp
  finally show ?case by (simp only: r list.map append_assoc append.simps)
qed

lemma check_digit_take14: "14 \<le> length imei \<Longrightarrow> calculateImeiCheckDigit (take 14 imei) = calculateImeiCheckDigit imei"
  unfolding calculateImeiCheckDigit_def Let_def
  by (rule arg_cong [where f = "\<lambda>s. ucast ((10 - s mod 10) mod 10)"], rule List.fold_cong)
    (simp_all del: upt_rec_numeral)

lemma imei_plain_nth: "k < 7 \<Longrightarrow> imei_plain imei fullBlock ! k = imei_pair imei k"
proof -
  assume "k < 7"
  then have "k \<in> {0, 1, 2, 3, 4, 5, 6}" by simp presburger
  then show ?thesis by (auto simp: imei_plain_def Let_def)
qed

lemma check_digit_nibble:
  fixes c :: u8
  assumes "c < 16"
  shows "push_bit 4 c AND 0xF = 0" and "drop_bit 4 (push_bit 4 c) = c"
  using low_nibble_pack [of 0 c] high_nibble_pack [of 0 c] assms by simp_all

section \<open>The encrypted records\<close>

lemma blit_blit_adjacent:
  "off + length xs + length ys \<le> length d \<Longrightarrow> blit (blit d off xs) (off + length xs) ys = blit d off (xs @ ys)"
  by (intro nth_equalityI) (auto simp: nth_blit nth_append)

lemma write_two_words:
  "off + 8 \<le> length d \<Longrightarrow>
    writeUInt32LE (writeUInt32LE d off v) (off + 4) w = blit d off (le_bytes v @ le_bytes w)"
  using blit_blit_adjacent [of off "le_bytes v" "le_bytes w" d] by (simp add: writeUInt32LE_blit)

lemma encrypt_blit:
  "off + length xs \<le> length d \<Longrightarrow> n = length xs \<Longrightarrow>
    cipherEncrypt (blit d off xs) off n key = blit d off (scalar_cipher True (md4 key) xs)"
  by (simp add: cipherEncrypt_blit blit_chunk_back)

lemma decrypt_whole:
  "cipherDecrypt xs 0 (length xs) key = scalar_cipher False (md4 key) xs"
  by (simp add: cipherDecrypt_blit)

lemma decrypt_scalar:
  assumes "n = length xs"
  shows "cipherDecrypt (scalar_cipher True (md4 key) xs) 0 n key = xs"
  using scalar_cipher_inverse [of True "md4 key" xs]
    decrypt_whole [of "scalar_cipher True (md4 key) xs" key] assms by simp

text \<open>The eight bytes of the marker and of a master-code entry, before and after encryption.\<close>

definition marker_plain :: "u32 \<Rightarrow> u8 list" where
  "marker_plain w = le_bytes w @ le_bytes 0xF49A4ADA"

lemma length_marker_plain [simp]: "length (marker_plain w) = 8"
  by (simp add: marker_plain_def)

definition master_cipher :: "keys \<Rightarrow> nat \<Rightarrow> u8 list" where
  "master_cipher keys index =
     scalar_cipher True (md4 (buildCipherKey1 (masterKeys keys ! index) (keys_esn keys) (packImei (keys_imei keys))))
       (scalar_cipher True (md4 (buildCipherKey2 (masterKeys keys ! index) (keys_esn keys) (packImei (keys_imei keys))))
         (marker_plain (word_of_nat index XOR 0x77C5742D)))"

lemma length_master_cipher [simp]: "length (master_cipher keys index) = 8"
  by (simp add: master_cipher_def)

lemma master_entry_blit:
  assumes "8 + index * 8 + 8 \<le> length block"
  shows "master_entry keys (packImei (keys_imei keys)) index block = blit block (8 + index * 8) (master_cipher keys index)"
  using assms unfolding master_entry_def Let_def master_cipher_def write_two_words [OF assms]
  by (simp add: marker_plain_def [symmetric] encrypt_blit)

lemma master_loop:
  assumes "8 + n * 8 \<le> length block"
  shows "let b = fold (master_entry keys (packImei (keys_imei keys))) [0..<n] block
    in length b = length block \<and> chunk b 0 8 = chunk block 0 8 \<and>
      (\<forall>i < n. chunk b (8 + i * 8) 8 = master_cipher keys i)"
  using assms
proof (induction n)
  case 0
  then show ?case by simp
next
  case (Suc n)
  let ?b = "fold (master_entry keys (packImei (keys_imei keys))) [0..<n] block"
  have ih: "length ?b = length block" "chunk ?b 0 8 = chunk block 0 8"
    "\<And>i. i < n \<Longrightarrow> chunk ?b (8 + i * 8) 8 = master_cipher keys i"
    using Suc by (simp_all add: Let_def)
  have room: "8 + n * 8 + 8 \<le> length ?b" using Suc.prems ih(1) by simp
  have step: "fold (master_entry keys (packImei (keys_imei keys))) [0..<Suc n] block
      = blit ?b (8 + n * 8) (master_cipher keys n)"
    using master_entry_blit [OF room] by simp
  have "chunk (blit ?b (8 + n * 8) (master_cipher keys n)) (8 + i * 8) 8 = master_cipher keys i"
    if "i < Suc n" for i
  proof (cases "i = n")
    case True
    then show ?thesis using room by simp
  next
    case False
    then have i: "i < n" using that by simp
    have "chunk (blit ?b (8 + n * 8) (master_cipher keys n)) (8 + i * 8) 8 = chunk ?b (8 + i * 8) 8"
      using room i by (intro chunk_blit_other) auto
    then show ?thesis using ih(3) [OF i] by simp
  qed
  moreover have "chunk (blit ?b (8 + n * 8) (master_cipher keys n)) 0 8 = chunk block 0 8"
    using room ih(2) by (subst chunk_blit_other) auto
  ultimately show ?case unfolding step Let_def using room ih(1) by simp
qed

lemma block5121_chunks:
  assumes "length (masterKeys keys) = 6"
  shows "chunk (buildBlock5121 keys) 0 8 = scalar_cipher True
      (md4 (buildCipherKey1 (keys_skey keys) (keys_esn keys) (packImei (keys_imei keys)))) (marker_plain 0x77C5742D)"
    and "i < 6 \<Longrightarrow> chunk (buildBlock5121 keys) (8 + i * 8) 8 = master_cipher keys i"
proof -
  let ?k = "buildCipherKey1 (keys_skey keys) (keys_esn keys) (packImei (keys_imei keys))"
  let ?z = "replicate (8 + 6 * 8) 0 :: u8 list"
  have first: "cipherEncrypt (writeUInt32LE (writeUInt32LE ?z 0 0x77C5742D) 4 0xF49A4ADA) 0 8 ?k
      = blit ?z 0 (scalar_cipher True (md4 ?k) (marker_plain 0x77C5742D))"
    using write_two_words [of 0 ?z "0x77C5742D" "0xF49A4ADA"]
    by (simp add: marker_plain_def [symmetric] encrypt_blit)
  let ?b = "blit ?z 0 (scalar_cipher True (md4 ?k) (marker_plain 0x77C5742D))"
  have b: "buildBlock5121 keys = fold (master_entry keys (packImei (keys_imei keys))) [0..<6] ?b"
    unfolding buildBlock5121_def Let_def first assms ..
  have loop: "chunk (buildBlock5121 keys) 0 8 = chunk ?b 0 8"
    "\<forall>i < 6. chunk (buildBlock5121 keys) (8 + i * 8) 8 = master_cipher keys i"
    using master_loop [of 6 ?b keys] unfolding b Let_def by simp_all
  show "chunk (buildBlock5121 keys) 0 8 = scalar_cipher True (md4 ?k) (marker_plain 0x77C5742D)"
    unfolding loop(1) by simp
  show "i < 6 \<Longrightarrow> chunk (buildBlock5121 keys) (8 + i * 8) 8 = master_cipher keys i"
    using loop(2) by blast
qed

lemma block5468_parts:
  assumes "length bkey = 16"
  shows "let block = buildBlock5468 keys bkey in
    length block = 0x31 \<and> chunk block 0 16 = bkey \<and> block ! 16 = 0x58
    \<and> chunk block 0x11 16 = md5 (le_bytes (keys_esn keys))
    \<and> chunk block 0x21 8 = take 8 (md5 (bytes_of_string (keys_imei keys)))
    \<and> chunk block 0x29 8 = take 8 (md5 (take 0x29 block))"
proof -
  let ?esn = "md5 (le_bytes (keys_esn keys))" and ?imei = "take 8 (md5 (bytes_of_string (keys_imei keys)))"
  define b1 where "b1 = bkey @ [0x58] @ ?esn @ ?imei"
  have l1: "length b1 = 0x29" using assms(1) by (simp add: b1_def)
  have packed: "writeUInt32LE (replicate 4 0) 0 (keys_esn keys) = le_bytes (keys_esn keys)"
    by (simp add: writeUInt32LE_blit)
  have z: "replicate 0x31 0 = replicate 16 0 @ [0] @ replicate 16 0 @ replicate 8 0 @ replicate 8 (0 :: u8)"
    by (simp add: eval_nat_numeral)
  have s1: "blit (replicate 0x31 0) 0 bkey = bkey @ [0] @ replicate 16 0 @ replicate 8 0 @ replicate 8 0"
    unfolding z using assms(1) blit_append [of "[]" 0 "replicate 16 0" bkey] by simp
  have s2: "(bkey @ [0] @ replicate 16 0 @ replicate 8 0 @ replicate 8 0)[16 := 0x58]
      = (bkey @ [0x58]) @ replicate 16 0 @ replicate 8 0 @ replicate 8 0"
    using assms(1) by (simp add: list_update_append)
  have s3: "blit ((bkey @ [0x58]) @ replicate 16 0 @ replicate 8 0 @ replicate 8 0) 0x11 ?esn
      = (bkey @ [0x58] @ ?esn) @ replicate 8 0 @ replicate 8 0"
    using assms(1) by (subst blit_append) simp_all
  have s4: "blit ((bkey @ [0x58] @ ?esn) @ replicate 8 0 @ replicate 8 0) 0x21 ?imei = b1 @ replicate 8 0 @ []"
    using assms(1) by (subst blit_append) (simp_all add: b1_def)
  have s5: "blit (b1 @ replicate 8 0 @ []) 0x29 (take 8 (md5 b1)) = b1 @ take 8 (md5 b1) @ []"
    using l1 by (subst blit_append) simp_all
  have block: "buildBlock5468 keys bkey = b1 @ take 8 (md5 b1)"
    unfolding buildBlock5468_def Let_def packed s1 s2 s3 s4
    using s5 l1 by simp
  show ?thesis
    unfolding block Let_def using assms(1) l1 by (simp add: chunk_def b1_def nth_append)
qed

lemma block5123_chunk: "chunk (buildBlock5123 block shortVariant) 4 8 = take 8 block" if "8 \<le> length block"
  using that by (simp add: buildBlock5123_def)

lemma recalculate_outcome:
  "case recalculateFullflash fullflash keys of (fullflash', outcome) \<Rightarrow>
     length fullflash' = length fullflash \<and>
     (case outcome of
        Inl err \<Rightarrow> \<not> is_oob err
      | Inr None \<Rightarrow> fullflash' = fullflash
      | Inr (Some result) \<Rightarrow> result_changed result \<or> fullflash' = fullflash)"
proof (cases "getBootcoreLayout fullflash")
  case None
  then show ?thesis by (simp add: recalculateFullflash_def)
next
  case layout: (Some layout)
  show ?thesis
  proof (cases "isErasedData fullflash (hashOffset layout) 16")
    case True
    then show ?thesis using layout by (simp add: recalculateFullflash_def split_beta)
  next
    case hash: False
    show ?thesis
    proof (cases "parsePartitions (patched fullflash layout keys)")
      case (Inl err)
      have "never is_oob (parsePartitions (patched fullflash layout keys))"
        unfolding parsePartitions_def by (rule scan_loop_safe)
      then show ?thesis
        using Inl patched_fits(1) [OF layout] by (simp add: recalculate_unfold [OF layout hash])
    next
      case (Inr e)
      show ?thesis
        by (rule recalculate_runs [OF layout hash Inr refl]) auto
    qed
  qed
qed

section \<open>Properties\<close>

text \<open>C9. Recalculation on any byte sequence: the image keeps its size; an exception is one of the
  EEPROM parser's own and never an access outside the image; when nothing was done, or no change
  is reported, the image is exactly as it was.\<close>

theorem recalculate_safe:
  "case recalculateFullflash fullflash keys of (fullflash', outcome) \<Rightarrow>
     length fullflash' = length fullflash \<and>
     (case outcome of
        Inl err \<Rightarrow> \<not> is_oob err
      | Inr None \<Rightarrow> fullflash' = fullflash
      | Inr (Some result) \<Rightarrow> result_changed result \<or> fullflash' = fullflash)"
  by (rule recalculate_outcome)

text \<open>C3. What a successful recalculation leaves: the EEPROM of the patched image was parsed; the
  result is complete exactly when the eight required blocks exist with the sizes the firmware
  uses; and, where the blocks of the table share no bytes, every block of the table that exists
  with the size of its new value holds that value in the resulting image.\<close>

theorem recalculate_result:
  assumes "recalculateFullflash fullflash keys = (fullflash', Inr (Some result))"
  shows "\<exists>layout e.
    getBootcoreLayout fullflash = Some layout \<and> parsePartitions (patched fullflash layout keys) = Inr e \<and>
    (result_complete result \<longleftrightarrow>
       (\<forall>(bid, sizes) \<in> set required_sizes. \<exists>s \<in> set sizes. block_size e bid = Some s)) \<and>
    (let gs = generated_blocks keys (fst (calculateBkeyAndHash (keys_esn keys) (keys_skey keys)))
           (case block_size e 5123 of None \<Rightarrow> 0 | Some n \<Rightarrow> n)
     in all_apart e gs \<longrightarrow> (\<forall>g \<in> set gs. \<forall>blk. m_blocks e (generated_id g) = Some blk \<and>
          m_size blk = length (generated_data g) \<longrightarrow> block_bytes fullflash' blk = generated_data g))"
proof (cases "getBootcoreLayout fullflash")
  case None
  then show ?thesis using assms by (simp add: recalculateFullflash_def)
next
  case layout: (Some layout)
  have hash: "\<not> isErasedData fullflash (hashOffset layout) 16"
    using assms layout by (auto simp: recalculateFullflash_def split_beta)
  show ?thesis
  proof (cases "parsePartitions (patched fullflash layout keys)")
    case (Inl err)
    then show ?thesis using assms by (simp add: recalculate_unfold [OF layout hash])
  next
    case parse: (Inr e)
    define gs where "gs = generated_blocks keys (fst (calculateBkeyAndHash (keys_esn keys) (keys_skey keys)))
      (case block_size e 5123 of None \<Rightarrow> 0 | Some n \<Rightarrow> n)"
    obtain e' r where run: "recalculateFullflash fullflash keys = (m_data e', Inr (Some r))"
      "replace_blocks gs e (first_result fullflash layout keys) = (e', Inr r)"
      and wf: "eeprom_wf e'" "m_blocks e' = m_blocks e"
      and compl: "result_complete r \<longleftrightarrow> (\<forall>g \<in> set gs. required g \<longrightarrow> fits e g)"
      by (rule recalculate_runs [OF layout hash parse gs_def]) blast
    have out: "fullflash' = m_data e'" "result = r" using run(1) assms by simp_all
    have "block_bytes fullflash' blk = generated_data g"
      if "all_apart e gs" "g \<in> set gs" "m_blocks e (generated_id g) = Some blk"
        "m_size blk = length (generated_data g)" for g blk
    proof -
      have "fits e g" using that(3,4) by (simp add: fits_def block_size_def)
      then have "readBlock e' (generated_id g) = Inr (generated_data g)"
        using parsePartitions_wf [OF parse] that(1,2) run(2) by (auto intro: replace_blocks_reads)
      then show ?thesis using readBlock_bytes [OF wf(1)] that(3) wf(2) out(1) by simp
    qed
    moreover have "result_complete r \<longleftrightarrow>
        (\<forall>(bid, sizes) \<in> set required_sizes. \<exists>s \<in> set sizes. block_size e bid = Some s)"
      unfolding compl gs_def by (rule generated_required) simp_all
    ultimately show ?thesis
      using layout parse out(2) by (auto simp: gs_def [symmetric] Let_def)
  qed
qed

text \<open>The replacement loop is idempotent: run again over the store it left, with the same table,
  it writes nothing and reports no change, whatever the two results started from.\<close>

theorem replace_blocks_idempotent:
  assumes "eeprom_wf e" and "all_apart e gs" and "replace_blocks gs e result = (e', Inr r)"
    and "\<not> result_changed result'"
  shows "\<exists>r'. replace_blocks gs e' result' = (e', Inr r') \<and> \<not> result_changed r'"
proof -
  have wf': "eeprom_wf e'" and blocks: "m_blocks e' = m_blocks e"
    using replace_blocks_total [OF assms(1), of gs result] assms(3) by auto
  have reads: "readBlock e' (generated_id g) = Inr (generated_data g)" if "g \<in> set gs" "fits e' g" for g
    using replace_blocks_reads [OF assms(1-3)] that fits_cong [OF blocks] by auto
  have "\<exists>r'. replace_blocks hs e' result' = (e', Inr r') \<and> \<not> result_changed r'"
    if "set hs \<subseteq> set gs" "\<not> result_changed result'" for hs result'
    using that
  proof (induction hs arbitrary: result')
    case Nil
    then show ?case by simp
  next
    case (Cons g rest)
    show ?case
    proof (cases "fits e' g")
      case False
      then show ?thesis unfolding replace_skip [OF False] using Cons.prems by (intro Cons.IH) simp_all
    next
      case True
      have put: "writeBlock e' (generated_id g) (generated_data g) = Inr (e', False)"
        using Cons.prems(1) True by (intro store.put_get_same [OF wf'] reads) auto
      obtain e1 where put1: "writeBlock e' (generated_id g) (generated_data g) = Inr (e1, m_data e1 \<noteq> m_data e')"
        and eq: "replace_blocks (g # rest) e' result' = replace_blocks rest e1
          (if m_data e1 \<noteq> m_data e' then result'\<lparr>result_changed := True\<rparr> else result')"
        by (rule replace_write [OF wf' True])
      have "e1 = e'" using put1 unfolding put by (simp only: sum.inject prod.inject)
      then show ?thesis unfolding eq using Cons.prems by (simp only:) (intro Cons.IH, simp_all)
    qed
  qed
  from this [OF order_refl assms(4)] show ?thesis .
qed


text \<open>C24. The IMEI blocks 76 and 5009: for every IMEI whose first fourteen characters are digits, what
  the recalculation writes is decoded by the identity reader, in the same variant, to these
  fourteen digits followed by their check digit.\<close>

theorem imei_block_roundtrip:
  assumes "14 \<le> length imei" and "\<forall>i < 14. isDigit (imei ! i)"
  shows "decodeImeiBlock (buildImeiBlock imei fullBlock) fullBlock
    = Some (take 14 imei @ [char_of (48 + unat (calculateImeiCheckDigit imei))])"
proof -
  let ?p = "imei_plain imei fullBlock" and ?c = "calculateImeiCheckDigit imei"
  have data: "imeiCipherDecrypt (buildImeiBlock imei fullBlock) fullBlock = ?p"
    unfolding buildImeiBlock_plain by (rule imei.dec_enc) simp
  have list: "map (\<lambda>i. imei ! i) [0..<14] = take 14 imei"
    using assms(1) by (intro nth_equalityI) auto
  have digits: "decode_digits ?p [0..<7] '''' = Some (take 14 imei)"
    using decode_pairs [of imei ?p 7 "''''"] assms(2)
    by (simp add: list imei_plain_nth del: upt_rec_numeral)
  have "unat ?c < 10"
    using check_digit_nat [OF assms(1)] assms(2) by (simp add: mod_less_divisor)
  then have "?c < 16" by (simp add: word_less_nat_alt)
  note c = check_digit_nibble [OF this]
  have xors: "imei_block_xors ?p = (imei_pair imei 0 XOR imei_pair imei 2 XOR imei_pair imei 4 XOR imei_pair imei 6,
      imei_pair imei 1 XOR imei_pair imei 3 XOR imei_pair imei 5 XOR push_bit 4 ?c)"
    by (simp add: imei_plain_def Let_def imei_block_xors_list)
  have nth: "?p ! 7 = push_bit 4 ?c"
    "?p ! 8 = (if fullBlock then imei_pair imei 1 XOR imei_pair imei 3 XOR imei_pair imei 5 XOR push_bit 4 ?c
       else imei_pair imei 0 XOR imei_pair imei 2 XOR imei_pair imei 4 XOR imei_pair imei 6)"
    "?p ! 9 = (imei_pair imei 1 XOR imei_pair imei 3 XOR imei_pair imei 5 XOR push_bit 4 ?c)
      XOR (imei_pair imei 0 XOR imei_pair imei 2 XOR imei_pair imei 4 XOR imei_pair imei 6) XOR 0xFF"
    by (simp_all add: imei_plain_def Let_def)
  show ?thesis
    unfolding decodeImeiBlock_def data
    by (simp only: Let_def xors prod.case digits nth c option.case check_digit_take14 [OF assms(1)]
        length_buildImeiBlock simp_thms if_True if_False)
qed


text \<open>C26. The security blocks: under the keys of the phone, block 5121 decrypts to the SKEY marker and
  to the six indexed master-code markers (each under its two keys, in reverse order of the
  encryption), and block 5123 carries the same encrypted SKEY marker in both of its sizes.\<close>

theorem security_blocks:
  assumes "length (masterKeys keys) = 6"
  shows "let imei = packImei (keys_imei keys); block = buildBlock5121 keys in
    cipherDecrypt (take 8 block) 0 8 (buildCipherKey1 (keys_skey keys) (keys_esn keys) imei)
      = marker_plain 0x77C5742D
    \<and> (\<forall>index < 6. cipherDecrypt
        (cipherDecrypt (chunk block (8 + index * 8) 8) 0 8
          (buildCipherKey1 (masterKeys keys ! index) (keys_esn keys) imei)) 0 8
        (buildCipherKey2 (masterKeys keys ! index) (keys_esn keys) imei)
      = marker_plain (word_of_nat index XOR 0x77C5742D))
    \<and> chunk (buildBlock5123 block shortVariant) 4 8 = take 8 block"
  unfolding Let_def
proof (intro conjI allI impI)
  let ?imei = "packImei (keys_imei keys)" and ?block = "buildBlock5121 keys"
  have "take 8 ?block = chunk ?block 0 8" by (simp add: chunk_def)
  then show "cipherDecrypt (take 8 ?block) 0 8 (buildCipherKey1 (keys_skey keys) (keys_esn keys) ?imei)
      = marker_plain 0x77C5742D"
    using block5121_chunks(1) [OF assms(1)] by (simp add: decrypt_scalar)
next
  let ?imei = "packImei (keys_imei keys)" and ?block = "buildBlock5121 keys"
  fix index :: nat
  assume "index < 6"
  then show "cipherDecrypt
        (cipherDecrypt (chunk ?block (8 + index * 8) 8) 0 8
          (buildCipherKey1 (masterKeys keys ! index) (keys_esn keys) ?imei)) 0 8
        (buildCipherKey2 (masterKeys keys ! index) (keys_esn keys) ?imei)
      = marker_plain (word_of_nat index XOR 0x77C5742D)"
    using block5121_chunks(2) [OF assms(1)]
    by (simp add: master_cipher_def decrypt_scalar)
next
  let ?block = "buildBlock5121 keys"
  show "chunk (buildBlock5123 ?block shortVariant) 4 8 = take 8 ?block"
    by (simp add: buildBlock5123_def)
qed

text \<open>Block 5468: it starts with BKEY and the format byte, holds the MD5 of the ESN and half of the
  MD5 of the IMEI, and ends with half of the MD5 of everything before.\<close>

theorem block5468_contents:
  assumes "length bkey = 16"
  shows "let block = buildBlock5468 keys bkey in
    length block = 0x31 \<and> chunk block 0 16 = bkey \<and> block ! 16 = 0x58
    \<and> chunk block 0x11 16 = md5 (le_bytes (keys_esn keys))
    \<and> chunk block 0x21 8 = take 8 (md5 (bytes_of_string (keys_imei keys)))
    \<and> chunk block 0x29 8 = take 8 (md5 (take 0x29 block))"
  by (rule block5468_parts [OF assms])

section \<open>Witnesses\<close>

definition sample_keys :: keys where
  "sample_keys = \<lparr>keys_imei = ''490154203237518'', keys_esn = 0x12345678, keys_skey = 12345678,
     masterKeys = [11111111, 22222222, 33333333, 44444444, 55555555, 66666666], verDown = 1\<rparr>"

definition sample_input :: "u8 list" where
  "sample_input = blit sample_fullflash 0x238 (replicate 16 0)"

lemma sample_input_layout:
  "getBootcoreLayout sample_input
    = Some \<lparr>layout_version = \<lparr>version_major = 2, version_minor = 0\<rparr>, hashOffset = 0x238, imeiOffset = 0x65C\<rparr>"
proof -
  have "getBootcoreLayout sample_input = getBootcoreLayout sample_fullflash"
    by (rule getBootcoreLayout_cong) (auto simp: sample_input_def nth_blit layout_bytes_def)
  then show ?thesis by (simp add: sample_layout)
qed

lemma scan_none:
  assumes "\<And>k. k \<in> set ks \<Longrightarrow> readPartitionType (m_data e) X65 (k * PARTITION_STEP) = Inr UNKNOWN_PARTITION
      \<and> readPartitionType (m_data e) X85 (k * PARTITION_STEP) = Inr UNKNOWN_PARTITION"
  shows "scan_loop (map (\<lambda>k. k * PARTITION_STEP) ks) e = Inr e"
  using assms by (induction ks) (simp_all add: scanX65_def scanX85_def)

lemma readPartitionType_erased_X85:
  assumes "d ! (k * PARTITION_STEP + PARTITION_STEP - 32) = 0xFF"
  shows "readPartitionType d X85 (k * PARTITION_STEP) = Inr UNKNOWN_PARTITION"
proof (cases "k * PARTITION_STEP + PARTITION_STEP \<le> length d")
  case True
  let ?o = "k * PARTITION_STEP + PARTITION_STEP - 32"
  have o: "?o + 32 \<le> length d" using True by (simp add: PARTITION_STEP_def)
  then have "chunk d ?o 8 ! 0 = 0xFF" using assms by (subst nth_chunk) simp_all
  then have "chunk d ?o 8 \<noteq> EELITE_MAGIC \<and> chunk d ?o 8 \<noteq> EEFULL_MAGIC"
    by (auto simp: EELITE_MAGIC_def EEFULL_MAGIC_def)
  then show ?thesis
    using o by (simp add: readPartitionType_def Let_def X85_HEADER_SIZE_def fetch_bytes_def)
qed (simp add: readPartitionType_def Let_def X85_HEADER_SIZE_def PARTITION_STEP_def)

lemma sample_input_runs:
  "\<exists>ff' result. recalculateFullflash sample_input sample_keys = (ff', Inr (Some result))"
proof -
  let ?layout = "\<lparr>layout_version = \<lparr>version_major = 2, version_minor = 0\<rparr>, hashOffset = 0x238, imeiOffset = 0x65C\<rparr>"
  let ?d = "patched sample_input ?layout sample_keys"
  have len: "length ?d = 0x90000"
    using patched_fits(1) [OF sample_input_layout] by (simp add: sample_input_def)
  have keep: "?d ! i = sample_fullflash ! i" if "i < 0x200 \<or> 0x1000 \<le> i" for i
    using that by (auto simp: patched_def sample_input_def nth_blit sample_keys_def bytes_of_string_def)
  have erased: "sample_fullflash ! i = 0xFF" if "i < 0x3C \<or> 0x2000 \<le> i \<and> i < 0x8F000 \<or> 0x8FD00 \<le> i \<and> i < 0x90000" for i
    using that by (auto simp: sample_defs nth_blit)
  have none: "readPartitionType ?d X65 (k * PARTITION_STEP) = Inr UNKNOWN_PARTITION
      \<and> readPartitionType ?d X85 (k * PARTITION_STEP) = Inr UNKNOWN_PARTITION" if "k < 9" for k
  proof
    have "?d ! (k * PARTITION_STEP) = 0xFF"
      using that keep [of "k * PARTITION_STEP"] erased [of "k * PARTITION_STEP"]
      by (cases "k = 0") (auto simp: PARTITION_STEP_def)
    then show "readPartitionType ?d X65 (k * PARTITION_STEP) = Inr UNKNOWN_PARTITION"
      using that by (intro readPartitionType_erased) (auto simp: len PARTITION_STEP_def)
    have "k \<le> 7 \<or> k = 8" using that by linarith
    then show "readPartitionType ?d X85 (k * PARTITION_STEP) = Inr UNKNOWN_PARTITION"
      using keep [of "k * PARTITION_STEP + PARTITION_STEP - 32"]
        erased [of "k * PARTITION_STEP + PARTITION_STEP - 32"]
      by (intro readPartitionType_erased_X85) (auto simp: PARTITION_STEP_def)
  qed
  have "parsePartitions ?d = Inr \<lparr>m_data = ?d, eeprom_layout = UNKNOWN_LAYOUT, m_blocks = Map.empty\<rparr>"
    unfolding parsePartitions_def
    by (rule scan_none) (use none in \<open>auto simp: len PARTITION_STEP_def\<close>)
  moreover have "\<not> isErasedData sample_input 0x238 16"
  proof -
    have "chunk sample_input 0x238 16 = replicate 16 0" by (simp add: sample_input_def)
    moreover have "\<not> list_all (\<lambda>v. v = 0xFF) (replicate 16 (0 :: u8))" by code_simp
    ultimately show ?thesis by (simp add: isErasedData_def)
  qed
  ultimately show ?thesis
    using recalculate_runs [OF sample_input_layout _ _ refl, of sample_keys] by (metis bootcore_layout.select_convs(2))
qed

theorem recalculate_result_witness:
  "\<exists>fullflash' result e. recalculateFullflash sample_input sample_keys = (fullflash', Inr (Some result))
    \<and> (result_complete result \<longleftrightarrow>
       (\<forall>(bid, sizes) \<in> set required_sizes. \<exists>s \<in> set sizes. block_size e bid = Some s))"
proof -
  obtain ff' result where run: "recalculateFullflash sample_input sample_keys = (ff', Inr (Some result))"
    using sample_input_runs by blast
  show ?thesis using recalculate_result [OF run] run by blast
qed

theorem replace_blocks_idempotent_witness:
  "\<exists>e e' r r'. parsePartitions sample_image = Inr e
    \<and> replace_blocks [generated 52 [1, 2, 7, 4] True] e \<lparr>result_complete = True, result_changed = False\<rparr> = (e', Inr r)
    \<and> replace_blocks [generated 52 [1, 2, 7, 4] True] e' \<lparr>result_complete = True, result_changed = False\<rparr> = (e', Inr r')
    \<and> \<not> result_changed r'"
proof (rule sample_parse)
  fix e
  assume parse: "parsePartitions sample_image = Inr e" and wf: "eeprom_wf e"
  let ?gs = "[generated 52 [1, 2, 7, 4] True]" and ?r = "\<lparr>result_complete = True, result_changed = False\<rparr>"
  obtain e' r where run: "replace_blocks ?gs e ?r = (e', Inr r)"
    using replace_blocks_total [OF wf, of ?gs ?r] by blast
  have "all_apart e ?gs" "\<not> result_changed ?r" by simp_all
  from replace_blocks_idempotent [OF wf this(1) run this(2)] parse run show ?thesis by blast
qed

theorem imei_block_roundtrip_witness:
  "decodeImeiBlock (buildImeiBlock ''490154203237518'' True) True = Some ''490154203237518''"
proof -
  have h: "14 \<le> length ''490154203237518''" "\<forall>i<14. isDigit (''490154203237518'' ! i)"
    by code_simp+
  have c: "take 14 ''490154203237518'' @ [char_of (48 + unat (calculateImeiCheckDigit ''490154203237518''))]
      = ''490154203237518''"
    by code_simp
  show ?thesis using imei_block_roundtrip [OF h, of True] unfolding c .
qed

theorem security_blocks_witness:
  "cipherDecrypt (take 8 (buildBlock5121 sample_keys)) 0 8
     (buildCipherKey1 12345678 0x12345678 (packImei ''490154203237518'')) = marker_plain 0x77C5742D"
  using security_blocks [of sample_keys] by (simp add: sample_keys_def Let_def)

theorem block5468_contents_witness:
  "chunk (buildBlock5468 sample_keys (replicate 16 7)) 0 16 = replicate 16 7"
  using block5468_contents [of "replicate 16 7" sample_keys] by (simp add: Let_def)

end
