(* ===== verification/Bruteforce.thy ===== *)
theory Bruteforce
  imports Search Recalc
begin

text \<open>
  src/siemens/bruteforce.cpp: the batch matchers, the recovery methods and \<open>recoverEsn\<close>.  What one
  call of \<open>bruteForceEsn\<close> returned is the argument \<open>sweep\<close>; \<open>sweeps\<close> ties it to the step
  relation of the theory Search.  Each method is called at most once, so that a function of the
  method, the batch size and the matcher stands for every schedule.  The batch matchers are shown
  to try a scalar predicate in their lanes, so that the recovery decides whether any ESN explains the
  fullflash.
\<close>

section \<open>The code\<close>

datatype EsnRecoveryMethod =
  KNOWN_HASH | BLOCK_5468 | BKEY | HASH | BLOCK_5008 | BLOCK_5121 | BLOCK_5123 | BLOCK_5077

definition BLOCK5077_TAIL :: "u8 list" where
  "BLOCK5077_TAIL = [0x3D, 0x06, 0x06, 0x0B, 0x80, 0xF3]"

definition RECALCULATED_HASH :: "u8 list" where
  "RECALCULATED_HASH =
     [0x54, 0xF8, 0x0A, 0xC1, 0x2A, 0xCD, 0x94, 0xB2, 0xF5, 0xCF, 0xFB, 0x9B, 0xF7, 0xE4, 0xD4, 0x93]"

definition RECALCULATED_ESN :: u32 where
  "RECALCULATED_ESN = 0x12345678"

type_synonym esn_answer = "unit + bool \<times> u32"
type_synonym esn_progress = "(EsnRecoveryMethod \<Rightarrow> nat \<Rightarrow> bool) option"
type_synonym esn_runs = "EsnRecoveryMethod \<Rightarrow> nat \<Rightarrow> (u32 \<Rightarrow> u32 option) \<Rightarrow> esn_answer"

definition sweeps :: "nat \<Rightarrow> nat \<Rightarrow> esn_progress \<Rightarrow> esn_runs \<Rightarrow> bool" where
  "sweeps hardware threads callback sweep \<longleftrightarrow>
     (\<forall>meth batch m. 0 < batch \<longrightarrow>
        bruteForceEsn hardware threads batch (map_option (\<lambda>p. p meth) callback) m (sweep meth batch m))"

definition buildCipherKeyBatch :: "u8 list \<Rightarrow> nat \<Rightarrow> u32 \<Rightarrow> u8 list list" where
  "buildCipherKeyBatch key esnOffset first =
     map (\<lambda>lane. writeUInt32LE key esnOffset (first + word_of_nat lane)) [0..<CIPHER_BATCH_SIZE]"

definition hasValidChecksum :: "u8 list \<Rightarrow> nat \<Rightarrow> nat \<Rightarrow> bool" where
  "hasValidChecksum data offset n =
     (let (sum, xorValue) = checksum_loop data offset n
      in data ! (offset + n) = sum \<and> data ! (offset + n + 1) = xorValue)"

text \<open>A loop over the lanes that returns the candidate of the first lane that matches.\<close>

definition first_lane :: "nat \<Rightarrow> u32 \<Rightarrow> (nat \<Rightarrow> bool) \<Rightarrow> u32 option" where
  "first_lane batch first hit =
     map_option (\<lambda>lane. first + word_of_nat lane) (List.find hit [0..<batch])"

fun findMd5Match :: "md5_batch \<Rightarrow> u32 list \<Rightarrow> u32 \<Rightarrow> u32 option" where
  "findMd5Match (h0, h1, h2, h3) target first =
     first_lane MD5_BATCH_SIZE first (\<lambda>lane. h0 ! lane = target ! 0 \<and> h1 ! lane = target ! 1 \<and>
       h2 ! lane = target ! 2 \<and> h3 ! lane = target ! 3)"

definition read_target :: "u8 list \<Rightarrow> nat \<Rightarrow> u32 list" where
  "read_target wanted offset = map (\<lambda>index. readUInt32LE wanted (offset + index * 4)) [0..<4]"

definition lane_candidates :: "u32 \<Rightarrow> u32 list" where
  "lane_candidates first = map (\<lambda>lane. first + word_of_nat lane) [0..<MD5_BATCH_SIZE]"

definition esn_hash_matches :: "u32 list \<Rightarrow> u32 \<Rightarrow> u32 option" where
  "esn_hash_matches target first =
     (let blocks = replicate 16 (replicate MD5_BATCH_SIZE 0);
          blocks = blocks[0 := lane_candidates first];
          blocks = blocks[1 := replicate MD5_BATCH_SIZE 0x80];
          blocks = blocks[14 := replicate MD5_BATCH_SIZE 32]
      in findMd5Match (md5Batch blocks) target first)"

definition recoverEsnFromHash :: "esn_runs \<Rightarrow> u8 list \<Rightarrow> nat \<Rightarrow> EsnRecoveryMethod \<Rightarrow> esn_answer" where
  "recoverEsnFromHash sweep wanted offset meth =
     sweep meth MD5_BATCH_SIZE (esn_hash_matches (read_target wanted offset))"

definition bkey_matches :: "bool \<Rightarrow> u32 \<Rightarrow> u32 list \<Rightarrow> u32 \<Rightarrow> u32 option" where
  "bkey_matches useBkey skey target first =
     (let candidates = lane_candidates first;
          word2 = map (\<lambda>candidate. candidate XOR drop_bit 24 candidate XOR push_bit 8 skey) candidates;
          bkeyBlocks = replicate 16 (replicate MD5_BATCH_SIZE 0);
          bkeyBlocks = bkeyBlocks[1 := replicate MD5_BATCH_SIZE skey];
          bkeyBlocks = bkeyBlocks[4 := replicate MD5_BATCH_SIZE 0x80];
          bkeyBlocks = bkeyBlocks[14 := replicate MD5_BATCH_SIZE 128];
          bkeyBlocks = bkeyBlocks[0 := candidates, 2 := word2,
            3 := map (\<lambda>w. skey XOR drop_bit 24 skey XOR push_bit 8 w) word2];
          calculated = md5Batch bkeyBlocks;
          calculated = (if useBkey then calculated
            else case calculated of (c0, c1, c2, c3) \<Rightarrow>
              let hashBlocks = replicate 16 (replicate MD5_BATCH_SIZE 0);
                  hashBlocks = hashBlocks[0 := c0, 1 := c1, 2 := c2, 3 := c3];
                  hashBlocks = hashBlocks[4 := replicate MD5_BATCH_SIZE 0x80];
                  hashBlocks = hashBlocks[14 := replicate MD5_BATCH_SIZE 128]
              in md5Batch hashBlocks)
      in findMd5Match calculated target first)"

definition recoverEsnFromBkeyOrHash :: "esn_runs \<Rightarrow> fullflash_info \<Rightarrow> esn_answer" where
  "recoverEsnFromBkeyOrHash sweep info =
     (if length (info_skey info) \<noteq> 4 then Inr (False, 0)
      else let useBkey = (length (info_bkey info) = 16);
               wanted = (if useBkey then info_bkey info else info_hash info)
           in if length wanted \<noteq> 16 then Inr (False, 0)
              else let skey = readUInt32LE (info_skey info) 0;
                       meth = (if useBkey then BKEY else HASH)
                   in sweep meth MD5_BATCH_SIZE (bkey_matches useBkey skey (read_target wanted 0)))"

definition marker_matches :: "u8 list \<Rightarrow> u8 list \<Rightarrow> u32 \<Rightarrow> u32 option" where
  "marker_matches keyTemplate marker first =
     (let keys = buildCipherKeyBatch keyTemplate 4 first;
          data = concat (replicate CIPHER_BATCH_SIZE (take 8 marker));
          data = cipherDecryptBatch data 0 8 keys
      in first_lane CIPHER_BATCH_SIZE first (\<lambda>lane.
           readUInt32LE data (lane * 8) = 0x77C5742D \<and> readUInt32LE data (lane * 8 + 4) = 0xF49A4ADA))"

definition recoverEsnFromSecurityMarker ::
  "esn_runs \<Rightarrow> u8 list \<Rightarrow> string \<Rightarrow> u32 \<Rightarrow> EsnRecoveryMethod \<Rightarrow> esn_answer" where
  "recoverEsnFromSecurityMarker sweep marker imei skey meth =
     (if isErasedData marker 0 (length marker) then Inr (False, 0)
      else let imei8 = packImei imei; keyTemplate = buildCipherKey1 skey 0 imei8
           in sweep meth CIPHER_BATCH_SIZE (marker_matches keyTemplate marker))"

definition block5008_matches ::
  "u8 list \<Rightarrow> u8 list \<Rightarrow> u8 list \<Rightarrow> bool \<Rightarrow> u32 \<Rightarrow> u32 option" where
  "block5008_matches keyTemplate encrypted block5077 hasBlock5077 first =
     (let keys = buildCipherKeyBatch keyTemplate 0x30 first;
          data = concat (replicate CIPHER_BATCH_SIZE (take 0x20 encrypted));
          data = cipherDecryptBatch data 0 0x20 keys
      in first_lane CIPHER_BATCH_SIZE first (\<lambda>lane.
           if \<not> hasValidChecksum data (lane * 0x20 + 8) 0x16 then False
           else let fullData = cipherDecrypt encrypted 0x20 0xC0 (keys ! lane)
           in if \<not> hasValidChecksum fullData 0x28 0xB0 then False
           else if \<not> hasBlock5077 then True
           else let verificationData = cipherDecrypt block5077 0 (length block5077) (keys ! lane)
           in hasValidChecksum verificationData 8 0xD8))"

definition recoverEsnFromBlock5008 :: "esn_runs \<Rightarrow> u8 list \<Rightarrow> u8 list \<Rightarrow> string \<Rightarrow> esn_answer" where
  "recoverEsnFromBlock5008 sweep encrypted block5077 imei =
     (if length encrypted \<noteq> 0xE0 then Inr (False, 0)
      else if isErasedData encrypted 0 (length encrypted) then Inr (False, 0)
      else let hasBlock5077 = (length block5077 = 0xE8 \<and> \<not> isErasedData block5077 0 (length block5077));
               keyTemplate = buildEepromKey 0 imei
           in sweep BLOCK_5008 CIPHER_BATCH_SIZE (block5008_matches keyTemplate encrypted block5077 hasBlock5077))"

definition block5077_matches :: "u8 list \<Rightarrow> u8 list \<Rightarrow> u32 \<Rightarrow> u32 option" where
  "block5077_matches keyTemplate encrypted first =
     (let keys = buildCipherKeyBatch keyTemplate 0x30 first;
          data = concat (replicate CIPHER_BATCH_SIZE encrypted);
          data = cipherDecryptBatch data 0 0xE8 keys
      in first_lane CIPHER_BATCH_SIZE first (\<lambda>lane.
           if \<not> hasValidChecksum data (lane * 0xE8 + 8) 0xD8 then False
           else chunk data (lane * 0xE8 + 0xE2) (0xE8 - 0xE2) = BLOCK5077_TAIL))"

definition recoverEsnFromBlock5077 :: "esn_runs \<Rightarrow> u8 list \<Rightarrow> string \<Rightarrow> esn_answer" where
  "recoverEsnFromBlock5077 sweep encrypted imei =
     (if length encrypted \<noteq> 0xE8 then Inr (False, 0)
      else if isErasedData encrypted 0 (length encrypted) then Inr (False, 0)
      else let keyTemplate = buildEepromKey 0 imei
           in sweep BLOCK_5077 CIPHER_BATCH_SIZE (block5077_matches keyTemplate encrypted))"

section \<open>The order of the methods\<close>

datatype recover_error = ProgressThrew | BlockError eeprom_error

definition run_block :: "eeprom_error + 'a \<Rightarrow> recover_error + 'a" where
  "run_block m = (case m of Inl e \<Rightarrow> Inl (BlockError e) | Inr x \<Rightarrow> Inr x)"

text \<open>
  \<open>otherwise answer rest\<close>: the statement \<open>if (std::get<0>(result)) return result;\<close> and what
  follows it.
\<close>

definition otherwise :: "esn_answer \<Rightarrow> recover_error + bool \<times> u32 \<Rightarrow> recover_error + bool \<times> u32" where
  "otherwise answer rest =
     (case answer of Inl _ \<Rightarrow> Inl ProgressThrew
      | Inr (ok, esn) \<Rightarrow> if ok then Inr (True, esn) else rest)"

definition block_or_empty :: "eeprom \<Rightarrow> u32 \<Rightarrow> eeprom_error + u8 list" where
  "block_or_empty e bid = (if hasBlock e bid then readBlock e bid else Inr [])"

definition from_block5468 :: "esn_runs \<Rightarrow> eeprom \<Rightarrow> recover_error + bool \<times> u32 \<Rightarrow> recover_error + bool \<times> u32" where
  "from_block5468 sweep e rest =
     (if \<not> hasBlock e 5468 then rest
      else ebind (run_block (readBlock e 5468)) (\<lambda>block.
        if length block = 0x31 \<and> block ! 16 = 0x58
        then otherwise (recoverEsnFromHash sweep block 17 BLOCK_5468) rest
        else rest))"

definition from_block5008 ::
  "esn_runs \<Rightarrow> eeprom \<Rightarrow> fullflash_info \<Rightarrow> u8 list \<Rightarrow> recover_error + bool \<times> u32 \<Rightarrow> recover_error + bool \<times> u32" where
  "from_block5008 sweep e info block5077 rest =
     (if \<not> hasBlock e 5008 then rest
      else ebind (run_block (readBlock e 5008)) (\<lambda>block.
        otherwise (recoverEsnFromBlock5008 sweep block block5077 (info_imei info)) rest))"

definition from_markers ::
  "esn_runs \<Rightarrow> eeprom \<Rightarrow> fullflash_info \<Rightarrow> u8 list \<Rightarrow> recover_error + bool \<times> u32 \<Rightarrow> recover_error + bool \<times> u32" where
  "from_markers sweep e info block5121 rest =
     (if length (info_skey info) \<noteq> 4 then rest
      else let skey = readUInt32LE (info_skey info) 0;
               last = (if \<not> hasBlock e 5123 then rest
                 else ebind (run_block (readBlock e 5123)) (\<lambda>block.
                   if length block \<ge> 12
                   then otherwise (recoverEsnFromSecurityMarker sweep (chunk block 4 8) (info_imei info) skey BLOCK_5123) rest
                   else rest))
           in if length block5121 \<ge> 8
              then otherwise (recoverEsnFromSecurityMarker sweep (take 8 block5121) (info_imei info) skey BLOCK_5121) last
              else last)"

definition from_block5077 ::
  "esn_runs \<Rightarrow> fullflash_info \<Rightarrow> u8 list \<Rightarrow> recover_error + bool \<times> u32 \<Rightarrow> recover_error + bool \<times> u32" where
  "from_block5077 sweep info block5077 rest =
     (if block5077 = [] then rest
      else otherwise (recoverEsnFromBlock5077 sweep block5077 (info_imei info)) rest)"

definition recoverEsn ::
  "esn_progress \<Rightarrow> esn_runs \<Rightarrow> eeprom \<Rightarrow> fullflash_info \<Rightarrow> recover_error + bool \<times> u32" where
  "recoverEsn callback sweep e info =
     (if info_hash info = RECALCULATED_HASH
      then (if case callback of Some throws \<Rightarrow> throws KNOWN_HASH 0 \<or> throws KNOWN_HASH 100 | None \<Rightarrow> False
            then Inl ProgressThrew else Inr (True, RECALCULATED_ESN))
      else from_block5468 sweep e (otherwise (recoverEsnFromBkeyOrHash sweep info)
        (if length (info_imei info) \<noteq> 15 then Inr (False, 0)
         else ebind (run_block (block_or_empty e 5077)) (\<lambda>block5077.
           from_block5008 sweep e info block5077
             (ebind (run_block (block_or_empty e 5121)) (\<lambda>block5121.
               from_markers sweep e info block5121
                 (from_block5077 sweep info block5077 (Inr (False, 0)))))))))"

section \<open>A batch matcher tries a predicate in its lanes\<close>

lemma find_map_eq: "List.find P (map f xs) = map_option f (List.find (\<lambda>x. P (f x)) xs)"
  by (induction xs) auto

lemma first_lane_lane_match:
  assumes "\<And>lane. lane < batch \<Longrightarrow> hit lane = P (first + word_of_nat lane)"
  shows "first_lane batch first hit = lane_match batch P first"
proof -
  have "List.find hit [0..<batch] = List.find (\<lambda>lane. P (first + word_of_nat lane)) [0..<batch]"
    using assms by (intro find_cong) auto
  then show ?thesis by (simp add: first_lane_def lane_match_def find_map_eq)
qed

section \<open>One-block messages\<close>

lemma length_rfc_digest: "length (rfc_digest ws) = 4 * length ws"
  by (induction ws) (simp_all add: rfc_digest_def)

lemma rfc_digest_word:
  assumes "i < length ws"
  shows "readUInt32LE (rfc_digest ws) (i * 4) = ws ! i"
proof -
  have "ws = take i ws @ ws ! i # drop (Suc i) ws" using assms by (rule id_take_nth_drop)
  then have "rfc_digest ws = rfc_digest (take i ws) @ le_bytes (ws ! i) @ rfc_digest (drop (Suc i) ws)"
    unfolding rfc_digest_def by (metis concat.simps(2) concat_append list.simps(9) map_append)
  then show ?thesis using assms by (simp add: readUInt32LE_mid length_rfc_digest)
qed

lemma md5_one_block:
  assumes "rfc_pad m = rfc_digest ws" and "length ws = 16"
  shows "md5 m = md5_result (md5_compressBlock MD5_INITIAL_STATE ws)"
proof -
  have "map (\<lambda>i. readUInt32LE (rfc_digest ws) (0 * 64 + i * 4)) [0..<16] = ws"
    using assms(2) rfc_digest_word by (intro nth_equalityI) (simp_all del: upt_rec_numeral)
  then show ?thesis
    by (simp add: md5_def md5_message_rfc_pad assms length_rfc_digest del: upt_rec_numeral)
qed

lemma pad_4: "[0x80] @ replicate 51 0 @ map (\<lambda>i. ucast (drop_bit (8 * i) (of_nat 32 :: u64))) [0..<8]
    = rfc_digest (0x80 # replicate 12 0 @ [32, 0])"
  by code_simp

lemma pad_16: "[0x80] @ replicate 39 0 @ map (\<lambda>i. ucast (drop_bit (8 * i) (of_nat 128 :: u64))) [0..<8]
    = rfc_digest (0x80 # replicate 9 0 @ [128, 0])"
  by code_simp

lemma rfc_digest_append: "rfc_digest (xs @ ys) = rfc_digest xs @ rfc_digest ys"
  by (simp add: rfc_digest_def)

lemma md5_word: "md5 (le_bytes v) = md5_result (md5_compressBlock MD5_INITIAL_STATE
    ([v, 0x80] @ replicate 12 0 @ [32, 0]))"
proof (rule md5_one_block)
  have "rfc_pad (le_bytes v) = rfc_digest [v] @ rfc_digest (0x80 # replicate 12 0 @ [32, 0])"
    unfolding pad_4 [symmetric] rfc_pad_def by (simp add: rfc_digest_def del: upt_rec_numeral)
  then show "rfc_pad (le_bytes v) = rfc_digest ([v, 0x80] @ replicate 12 0 @ [32, 0])"
    by (simp add: rfc_digest_append [symmetric])
qed simp

lemma md5_four_words: "md5 (rfc_digest [a, b, c, d]) = md5_result (md5_compressBlock MD5_INITIAL_STATE
    ([a, b, c, d, 0x80] @ replicate 9 0 @ [128, 0]))"
proof (rule md5_one_block)
  have "rfc_pad (rfc_digest [a, b, c, d]) = rfc_digest [a, b, c, d] @ rfc_digest (0x80 # replicate 9 0 @ [128, 0])"
    unfolding pad_16 [symmetric] rfc_pad_def by (simp add: length_rfc_digest del: upt_rec_numeral)
  then show "rfc_pad (rfc_digest [a, b, c, d]) = rfc_digest ([a, b, c, d, 0x80] @ replicate 9 0 @ [128, 0])"
    by (simp add: rfc_digest_append [symmetric])
qed simp

lemma bkey_message_words:
  "bkey_message esn skey = rfc_digest [esn, skey, bkey_word2 esn skey, bkey_word3 esn skey]"
  by (simp add: bkey_message_def rfc_digest_def)

lemma md5_result_words: "md5_result (a, b, c, d) = rfc_digest [a, b, c, d]"
  using md5_result_digest [of "[a, b, c, d]"] by (simp add: regs_tuple_def)

lemma md5_lane_words: "md5_lane l (h0, h1, h2, h3) = (h0 ! l, h1 ! l, h2 ! l, h3 ! l)"
  by (simp add: md5_lane_def)

lemma rfc_digest_inject: "length xs = length ys \<Longrightarrow> rfc_digest xs = rfc_digest ys \<longleftrightarrow> xs = ys"
  by (induction xs ys rule: list_induct2) (auto simp: rfc_digest_def le_bytes_inject)

lemma read_target_digest:
  assumes "offset + 16 \<le> length wanted"
  shows "rfc_digest (read_target wanted offset) = chunk wanted offset 16"
proof -
  have w: "le_bytes (readUInt32LE wanted (offset + k)) = chunk wanted (offset + k) 4" if "k \<le> 12" for k
    using assms that by (intro le_bytes_readUInt32LE) simp
  have "rfc_digest (read_target wanted offset) = chunk wanted (offset + 0) 4 @ chunk wanted (offset + 4) 4
      @ chunk wanted (offset + 8) 4 @ chunk wanted (offset + 12) 4"
    using w [of 0] w [of 4] w [of 8] w [of 12] by (simp add: rfc_digest_def read_target_def upt_rec)
  also have "\<dots> = chunk wanted offset 16"
    using assms by (intro nth_equalityI) (auto simp: nth_append add.assoc)
  finally show ?thesis .
qed

lemma length_read_target [simp]: "length (read_target wanted offset) = 4"
  by (simp add: read_target_def)

lemma four_words_eq:
  "length ts = 4 \<Longrightarrow> [a, b, c, d] = ts \<longleftrightarrow> a = ts ! 0 \<and> b = ts ! 1 \<and> c = ts ! 2 \<and> d = ts ! 3"
  by (auto simp: length_Suc_conv eval_nat_numeral)

text \<open>The comparison of the four digest words with the target is the comparison of the digests.\<close>

lemma findMd5Match_lanes:
  assumes room: "offset + 16 \<le> length wanted"
    and lanes: "\<And>l. l < MD5_BATCH_SIZE \<Longrightarrow> md5_result (md5_lane l h) = digest (first + word_of_nat l)"
  shows "findMd5Match h (read_target wanted offset) first
    = lane_match MD5_BATCH_SIZE (\<lambda>esn. digest esn = chunk wanted offset 16) first"
proof -
  obtain h0 h1 h2 h3 where h: "h = (h0, h1, h2, h3)" by (cases h)
  let ?t = "read_target wanted offset"
  have "(h0 ! l = ?t ! 0 \<and> h1 ! l = ?t ! 1 \<and> h2 ! l = ?t ! 2 \<and> h3 ! l = ?t ! 3)
      = (digest (first + word_of_nat l) = chunk wanted offset 16)" if "l < MD5_BATCH_SIZE" for l
  proof -
    have "digest (first + word_of_nat l) = rfc_digest [h0 ! l, h1 ! l, h2 ! l, h3 ! l]"
      using lanes [OF that] by (simp add: h md5_lane_words md5_result_words del: md5_result.simps)
    moreover have "(rfc_digest [h0 ! l, h1 ! l, h2 ! l, h3 ! l] = rfc_digest ?t) =
        ([h0 ! l, h1 ! l, h2 ! l, h3 ! l] = ?t)" by (rule rfc_digest_inject) simp
    moreover have "\<dots> = (h0 ! l = ?t ! 0 \<and> h1 ! l = ?t ! 1 \<and> h2 ! l = ?t ! 2 \<and> h3 ! l = ?t ! 3)"
      by (rule four_words_eq) simp
    ultimately show ?thesis by (simp add: read_target_digest [OF room])
  qed
  then show ?thesis unfolding h findMd5Match.simps by (rule first_lane_lane_match)
qed

lemma lane_word:
  assumes "length d = n" and "l < n"
  shows "map (\<lambda>w. (replicate 16 d)[0 := x0, 1 := x1, 2 := x2, 3 := x3, 4 := x4, 14 := x14] ! w ! l) [0..<16] =
    [x0 ! l, x1 ! l, x2 ! l, x3 ! l, x4 ! l] @ replicate 9 (d ! l) @ [x14 ! l, d ! l]"
  by (simp add: upt_rec eval_nat_numeral)

lemma lane_candidates_nth: "l < MD5_BATCH_SIZE \<Longrightarrow> lane_candidates first ! l = first + word_of_nat l"
  by (simp add: lane_candidates_def)

lemma esn_hash_matches_lanes:
  assumes "offset + 16 \<le> length wanted"
  shows "esn_hash_matches (read_target wanted offset)
    = lane_match MD5_BATCH_SIZE (\<lambda>esn. md5 (le_bytes esn) = chunk wanted offset 16)"
proof
  fix first :: u32
  let ?z = "replicate MD5_BATCH_SIZE 0 :: u32 list"
  let ?b = "(replicate 16 ?z)[0 := lane_candidates first, 1 := replicate MD5_BATCH_SIZE 0x80,
    2 := ?z, 3 := ?z, 4 := ?z, 14 := replicate MD5_BATCH_SIZE 32]"
  have b: "((replicate 16 ?z)[0 := lane_candidates first, 1 := replicate MD5_BATCH_SIZE 0x80])
      [14 := replicate MD5_BATCH_SIZE 32] = ?b"
    by (simp add: eval_nat_numeral)
  have "md5_result (md5_lane l (md5Batch ?b)) = md5 (le_bytes (first + word_of_nat l))"
    if "l < MD5_BATCH_SIZE" for l
    unfolding md5Batch_lane [OF that] md5_word lane_word [OF length_replicate that]
    using that by (simp add: lane_candidates_nth eval_nat_numeral del: md5_result.simps)
  then show "esn_hash_matches (read_target wanted offset) first
      = lane_match MD5_BATCH_SIZE (\<lambda>esn. md5 (le_bytes esn) = chunk wanted offset 16) first"
    unfolding esn_hash_matches_def Let_def b by (rule findMd5Match_lanes [OF assms])
qed

lemma four_word_block:
  assumes "l < MD5_BATCH_SIZE"
    and "x0 ! l = a" "x1 ! l = b" "x2 ! l = c" "x3 ! l = d"
  shows "md5_result (md5_lane l (md5Batch ((replicate 16 (replicate MD5_BATCH_SIZE 0))
      [0 := x0, 1 := x1, 2 := x2, 3 := x3, 4 := replicate MD5_BATCH_SIZE 0x80, 14 := replicate MD5_BATCH_SIZE 128])))
    = md5 (rfc_digest [a, b, c, d])"
  unfolding md5Batch_lane [OF assms(1)] md5_four_words lane_word [OF length_replicate assms(1)]
  using assms by (simp add: eval_nat_numeral del: md5_result.simps)

lemma bkey_matches_lanes:
  assumes room: "length wanted = 16"
  shows "bkey_matches useBkey skey (read_target wanted 0) = lane_match MD5_BATCH_SIZE (\<lambda>esn.
    (if useBkey then fst (calculateBkeyAndHash esn skey) else snd (calculateBkeyAndHash esn skey)) = wanted)"
proof
  fix first :: u32
  let ?z = "replicate 16 (replicate MD5_BATCH_SIZE 0) :: u32 list list"
  define w2 where "w2 = map (\<lambda>c. c XOR drop_bit 24 c XOR push_bit 8 skey) (lane_candidates first)"
  define w3 where "w3 = map (\<lambda>w. skey XOR drop_bit 24 skey XOR push_bit 8 w) w2"
  define c where "c = md5Batch (?z[0 := lane_candidates first, 1 := replicate MD5_BATCH_SIZE skey, 2 := w2, 3 := w3,
    4 := replicate MD5_BATCH_SIZE 0x80, 14 := replicate MD5_BATCH_SIZE 128])"
  have blocks: "?z[1 := replicate MD5_BATCH_SIZE skey, 4 := replicate MD5_BATCH_SIZE 0x80,
      14 := replicate MD5_BATCH_SIZE 128, 0 := lane_candidates first, 2 := w2, 3 := w3]
    = ?z[0 := lane_candidates first, 1 := replicate MD5_BATCH_SIZE skey, 2 := w2, 3 := w3,
      4 := replicate MD5_BATCH_SIZE 0x80, 14 := replicate MD5_BATCH_SIZE 128]"
    by (simp add: eval_nat_numeral)
  have bkey: "md5_result (md5_lane l c) = md5 (bkey_message (first + word_of_nat l) skey)"
    if "l < MD5_BATCH_SIZE" for l
    unfolding c_def bkey_message_words
    by (rule four_word_block [OF that])
      (use that in \<open>simp_all add: lane_candidates_nth w3_def w2_def bkey_word3_def bkey_word2_def lane_candidates_def\<close>)
  obtain c0 c1 c2 c3 where c4: "c = (c0, c1, c2, c3)" by (cases c)
  have hash: "md5_result (md5_lane l (md5Batch (?z[0 := c0, 1 := c1, 2 := c2, 3 := c3,
      4 := replicate MD5_BATCH_SIZE 0x80, 14 := replicate MD5_BATCH_SIZE 128])))
    = md5 (md5 (bkey_message (first + word_of_nat l) skey))" if "l < MD5_BATCH_SIZE" for l
    using four_word_block [OF that refl refl refl refl, of c0 c1 c2 c3] bkey [OF that]
    by (simp add: c4 md5_lane_words md5_result_words del: md5_result.simps)
  have whole: "0 + 16 \<le> length wanted" "chunk wanted 0 16 = wanted" using room by simp_all
  show "bkey_matches useBkey skey (read_target wanted 0) first = lane_match MD5_BATCH_SIZE (\<lambda>esn.
    (if useBkey then fst (calculateBkeyAndHash esn skey) else snd (calculateBkeyAndHash esn skey)) = wanted) first"
    unfolding bkey_matches_def Let_def w2_def [symmetric] w3_def [symmetric] blocks c_def [symmetric]
    using findMd5Match_lanes [OF whole(1) bkey] findMd5Match_lanes [OF whole(1) hash]
    by (simp add: c4 calculateBkeyAndHash_message whole(2))
qed

section \<open>Batches of encrypted copies\<close>

definition key_at :: "u8 list \<Rightarrow> nat \<Rightarrow> u32 \<Rightarrow> u8 list" where
  "key_at keyTemplate esnOffset esn = writeUInt32LE keyTemplate esnOffset esn"

lemma buildCipherKeyBatch_nth:
  "lane < CIPHER_BATCH_SIZE \<Longrightarrow>
    buildCipherKeyBatch key esnOffset first ! lane = key_at key esnOffset (first + word_of_nat lane)"
  by (simp add: buildCipherKeyBatch_def key_at_def)

lemma batch_lane_plain:
  assumes "lane < CIPHER_BATCH_SIZE" and "length enc = n"
  shows "chunk (cipherDecryptBatch (concat (replicate CIPHER_BATCH_SIZE enc)) 0 n
      (buildCipherKeyBatch key esnOffset first)) (lane * n) n
    = scalar_cipher False (md4 (key_at key esnOffset (first + word_of_nat lane))) enc"
proof -
  let ?d = "concat (replicate CIPHER_BATCH_SIZE enc)"
  have u: "\<forall>x \<in> set (replicate CIPHER_BATCH_SIZE enc). length x = n" using assms(2) by simp
  have "0 + CIPHER_BATCH_SIZE * n \<le> length ?d" using length_concat_uniform [OF u] by simp
  from cipherDecryptBatch_scalar [OF this assms(1)]
  show ?thesis
    using chunk_concat_uniform [OF u, of lane] assms(1) by (simp add: buildCipherKeyBatch_nth)
qed

lemma length_batch:
  "length (concat (replicate n enc)) = n * length enc"
  using length_concat_uniform [of "replicate n enc" "length enc"] by simp

lemma lane_room: "lane < CIPHER_BATCH_SIZE \<Longrightarrow> lane * n + n \<le> CIPHER_BATCH_SIZE * n"
  using mult_le_mono1 [of "Suc lane" CIPHER_BATCH_SIZE n] by simp

lemma checksum_loop_chunk:
  assumes "a + (off + n) \<le> length d" and "off + n \<le> m"
  shows "checksum_loop d (a + off) n = checksum_loop (chunk d a m) off n"
  unfolding checksum_loop_def
proof (rule fold_cong)
  fix i assume "i \<in> set [0..<n]"
  then show "(\<lambda>(sum, xorValue). (sum + d ! (a + off + i), xorValue XOR d ! (a + off + i)))
    = (\<lambda>(sum, xorValue). (sum + chunk d a m ! (off + i), xorValue XOR chunk d a m ! (off + i)))"
    using assms by (simp add: add.assoc)
qed simp_all

lemma hasValidChecksum_chunk:
  assumes "a + (off + n + 2) \<le> length d" and "off + n + 2 \<le> m"
  shows "hasValidChecksum d (a + off) n = hasValidChecksum (chunk d a m) off n"
  using checksum_loop_chunk [of a off n d m] assms
  by (simp add: hasValidChecksum_def add.assoc split: prod.split)

lemma chunk_chunk: "k + j \<le> n \<Longrightarrow> chunk (chunk d a n) k j = chunk d (a + k) j"
  by (simp add: chunk_def drop_take min_def add.commute)

section \<open>The keys of the candidates\<close>

lemma blit_commute:
  assumes "a + length xs \<le> b" and "b + length ys \<le> length d"
  shows "blit (blit d a xs) b ys = blit (blit d b ys) a xs"
  using assms by (intro nth_equalityI) (auto simp: nth_blit)

lemma key_at_blit: "esnOffset + 4 \<le> length key \<Longrightarrow> key_at key esnOffset esn = blit key esnOffset (le_bytes esn)"
  by (simp add: key_at_def writeUInt32LE_blit)

lemma key_at_eeprom: "key_at (buildEepromKey 0 imei) 0x30 esn = buildEepromKey esn imei"
proof -
  have "blit (blit (blit KEY_EEP 0x30 (le_bytes 0)) 0x38 (packImei imei)) 0x30 (le_bytes esn)
      = blit (blit (blit KEY_EEP 0x30 (le_bytes 0)) 0x30 (le_bytes esn)) 0x38 (packImei imei)"
    by (rule blit_commute [symmetric]) simp_all
  also have "\<dots> = blit (blit KEY_EEP 0x30 (le_bytes esn)) 0x38 (packImei imei)"
    by (simp add: blit_chunk_back)
  finally show ?thesis by (simp add: buildEepromKey_def key_at_blit writeUInt32LE_blit)
qed

lemma key_at_marker:
  assumes "length imei = 8"
  shows "key_at (buildCipherKey1 code 0 imei) 4 esn = buildCipherKey1 code esn imei"
proof -
  let ?k = "blit KEY_MK1 0 (le_bytes (code XOR 0x7F0BF23B))"
  have "blit (blit (blit ?k 4 (le_bytes 0)) 0x38 imei) 4 (le_bytes esn)
      = blit (blit (blit ?k 4 (le_bytes 0)) 4 (le_bytes esn)) 0x38 imei"
    by (rule blit_commute [symmetric]) (simp_all add: assms)
  also have "\<dots> = blit (blit ?k 4 (le_bytes esn)) 0x38 imei"
    by (simp add: blit_chunk_back)
  finally show ?thesis by (simp add: buildCipherKey1_def key_at_blit writeUInt32LE_blit assms)
qed

section \<open>What the block matchers decide\<close>

definition marker_ok :: "u8 list \<Rightarrow> u32 \<Rightarrow> string \<Rightarrow> u32 \<Rightarrow> bool" where
  "marker_ok marker skey imei esn \<longleftrightarrow>
     cipherDecrypt marker 0 8 (buildCipherKey1 skey esn (packImei imei)) = marker_plain 0x77C5742D"

definition block5077_checksum :: "u8 list \<Rightarrow> string \<Rightarrow> u32 \<Rightarrow> bool" where
  "block5077_checksum encrypted imei esn \<longleftrightarrow>
     hasValidChecksum (cipherDecrypt encrypted 0 0xE8 (buildEepromKey esn imei)) 8 0xD8"

definition block5077_ok :: "u8 list \<Rightarrow> string \<Rightarrow> u32 \<Rightarrow> bool" where
  "block5077_ok encrypted imei esn \<longleftrightarrow> block5077_checksum encrypted imei esn \<and>
     chunk (cipherDecrypt encrypted 0 0xE8 (buildEepromKey esn imei)) 0xE2 6 = BLOCK5077_TAIL"

text \<open>Block 5008 is encrypted in two runs that start the cipher anew.\<close>

definition block5008_plain :: "u8 list \<Rightarrow> string \<Rightarrow> u32 \<Rightarrow> u8 list" where
  "block5008_plain encrypted imei esn =
     cipherDecrypt (cipherDecrypt encrypted 0 0x20 (buildEepromKey esn imei)) 0x20 0xC0 (buildEepromKey esn imei)"

definition block5008_ok :: "u8 list \<Rightarrow> string \<Rightarrow> u32 \<Rightarrow> bool" where
  "block5008_ok encrypted imei esn \<longleftrightarrow> hasValidChecksum (block5008_plain encrypted imei esn) 8 0x16 \<and>
     hasValidChecksum (block5008_plain encrypted imei esn) 0x28 0xB0"

lemma marker_words:
  assumes "length d = 8"
  shows "readUInt32LE d 0 = v \<and> readUInt32LE d 4 = w \<longleftrightarrow> d = le_bytes v @ le_bytes w"
proof
  assume h: "readUInt32LE d 0 = v \<and> readUInt32LE d 4 = w"
  have "le_bytes v = chunk d 0 4" "le_bytes w = chunk d 4 4"
    using h assms le_bytes_readUInt32LE [of 0 d] le_bytes_readUInt32LE [of 4 d] by auto
  moreover have "d = chunk d 0 4 @ chunk d 4 4"
    using assms by (simp add: chunk_def)
  ultimately show "d = le_bytes v @ le_bytes w" by simp
next
  assume "d = le_bytes v @ le_bytes w"
  then show "readUInt32LE d 0 = v \<and> readUInt32LE d 4 = w"
    using readUInt32LE_mid [of "[]" 0 v "le_bytes w"] readUInt32LE_mid [of "le_bytes v" 4 w "[]"] by simp
qed

lemma decrypt_run: "length xs = n \<Longrightarrow> cipherDecrypt xs 0 n key = scalar_cipher False (md4 key) xs"
  using decrypt_whole [of xs key] by simp

lemma marker_matches_lanes:
  assumes "length marker = 8"
  shows "marker_matches (buildCipherKey1 skey 0 (packImei imei)) marker
    = lane_match CIPHER_BATCH_SIZE (marker_ok marker skey imei)"
proof
  fix first :: u32
  let ?k = "buildCipherKey1 skey 0 (packImei imei)"
  let ?d = "cipherDecryptBatch (concat (replicate CIPHER_BATCH_SIZE marker)) 0 8 (buildCipherKeyBatch ?k 4 first)"
  have "(readUInt32LE ?d (lane * 8) = 0x77C5742D \<and> readUInt32LE ?d (lane * 8 + 4) = 0xF49A4ADA)
      = marker_ok marker skey imei (first + word_of_nat lane)" if l: "lane < CIPHER_BATCH_SIZE" for lane
  proof -
    have room: "lane * 8 + 8 \<le> length ?d" using lane_room [OF l, of 8] by (simp add: length_batch assms)
    let ?c = "chunk ?d (lane * 8) 8"
    have "readUInt32LE ?d (lane * 8) = readUInt32LE ?c 0" "readUInt32LE ?d (lane * 8 + 4) = readUInt32LE ?c 4"
      using readUInt32LE_chunk [OF room, of 0] readUInt32LE_chunk [OF room, of 4] by simp_all
    moreover have "?c = cipherDecrypt marker 0 8 (buildCipherKey1 skey (first + word_of_nat lane) (packImei imei))"
      using batch_lane_plain [OF l assms, of ?k 4 first] by (simp add: decrypt_run assms key_at_marker)
    ultimately show ?thesis
      using marker_words [of ?c] room assms by (simp add: marker_ok_def marker_plain_def)
  qed
  then show "marker_matches ?k marker first = lane_match CIPHER_BATCH_SIZE (marker_ok marker skey imei) first"
    unfolding marker_matches_def Let_def by (simp add: assms first_lane_lane_match)
qed

lemma block5077_matches_lanes:
  assumes "length encrypted = 0xE8"
  shows "block5077_matches (buildEepromKey 0 imei) encrypted = lane_match CIPHER_BATCH_SIZE (block5077_ok encrypted imei)"
proof
  fix first :: u32
  let ?k = "buildEepromKey 0 imei"
  let ?d = "cipherDecryptBatch (concat (replicate CIPHER_BATCH_SIZE encrypted)) 0 0xE8 (buildCipherKeyBatch ?k 0x30 first)"
  have "(if \<not> hasValidChecksum ?d (lane * 0xE8 + 8) 0xD8 then False
      else chunk ?d (lane * 0xE8 + 0xE2) (0xE8 - 0xE2) = BLOCK5077_TAIL)
      = block5077_ok encrypted imei (first + word_of_nat lane)" if l: "lane < CIPHER_BATCH_SIZE" for lane
  proof -
    have room: "lane * 0xE8 + 0xE8 \<le> length ?d"
      using lane_room [OF l, of "0xE8"] by (simp add: length_batch assms)
    have plain: "chunk ?d (lane * 0xE8) 0xE8 = cipherDecrypt encrypted 0 0xE8 (buildEepromKey (first + word_of_nat lane) imei)"
      using batch_lane_plain [OF l assms, of ?k "0x30" first] by (simp add: decrypt_run assms key_at_eeprom)
    have "hasValidChecksum ?d (lane * 0xE8 + 8) 0xD8 = hasValidChecksum (chunk ?d (lane * 0xE8) 0xE8) 8 0xD8"
      using room by (intro hasValidChecksum_chunk) simp_all
    moreover have "chunk ?d (lane * 0xE8 + 0xE2) 6 = chunk (chunk ?d (lane * 0xE8) 0xE8) 0xE2 6"
      by (rule chunk_chunk [symmetric]) simp
    ultimately show ?thesis by (simp add: plain block5077_ok_def block5077_checksum_def)
  qed
  then show "block5077_matches ?k encrypted first = lane_match CIPHER_BATCH_SIZE (block5077_ok encrypted imei) first"
    unfolding block5077_matches_def Let_def by (rule first_lane_lane_match)
qed

lemma block5008_plain_parts:
  assumes "length encrypted = 0xE0"
  shows "length (block5008_plain encrypted imei esn) = 0xE0"
    and "chunk (block5008_plain encrypted imei esn) 0 0x20
      = scalar_cipher False (md4 (buildEepromKey esn imei)) (take 0x20 encrypted)"
    and "chunk (block5008_plain encrypted imei esn) 0x20 0xC0
      = chunk (cipherDecrypt encrypted 0x20 0xC0 (buildEepromKey esn imei)) 0x20 0xC0"
proof -
  let ?k = "buildEepromKey esn imei"
  let ?a = "scalar_cipher False (md4 ?k) (chunk encrypted 0 0x20)"
  let ?b = "scalar_cipher False (md4 ?k) (chunk encrypted 0x20 0xC0)"
  have one: "cipherDecrypt encrypted 0 0x20 ?k = blit encrypted 0 ?a"
    using assms by (intro cipherDecrypt_blit) simp
  have two: "block5008_plain encrypted imei esn = blit (blit encrypted 0 ?a) 0x20 ?b"
    unfolding block5008_plain_def one using assms
    by (subst cipherDecrypt_blit) (simp_all add: chunk_blit_other)
  show "length (block5008_plain encrypted imei esn) = 0xE0" using assms by (simp add: block5008_plain_def)
  show "chunk (block5008_plain encrypted imei esn) 0 0x20 = scalar_cipher False (md4 ?k) (take 0x20 encrypted)"
    unfolding two using assms by (subst chunk_blit_other) (simp_all add: chunk_def [of encrypted 0 "0x20"])
  show "chunk (block5008_plain encrypted imei esn) 0x20 0xC0 = chunk (cipherDecrypt encrypted 0x20 0xC0 ?k) 0x20 0xC0"
    unfolding two using assms by (simp add: cipherDecrypt_blit)
qed

lemma block5008_matches_lanes:
  assumes len: "length encrypted = 0xE0" and "present \<Longrightarrow> length block5077 = 0xE8"
  shows "block5008_matches (buildEepromKey 0 imei) encrypted block5077 present = lane_match CIPHER_BATCH_SIZE
    (\<lambda>esn. block5008_ok encrypted imei esn \<and> (present \<longrightarrow> block5077_checksum block5077 imei esn))"
proof
  fix first :: u32
  let ?k = "buildEepromKey 0 imei" and ?keys = "buildCipherKeyBatch (buildEepromKey 0 imei) 0x30 first"
  let ?d = "cipherDecryptBatch (concat (replicate CIPHER_BATCH_SIZE (take 0x20 encrypted))) 0 0x20 ?keys"
  have hit: "hasValidChecksum ?d (lane * 0x20 + 8) 0x16
        = hasValidChecksum (block5008_plain encrypted imei (first + word_of_nat lane)) 8 0x16"
      "hasValidChecksum (cipherDecrypt encrypted 0x20 0xC0 (?keys ! lane)) 0x28 0xB0
        = hasValidChecksum (block5008_plain encrypted imei (first + word_of_nat lane)) 0x28 0xB0"
      "?keys ! lane = buildEepromKey (first + word_of_nat lane) imei"
    if l: "lane < CIPHER_BATCH_SIZE" for lane
  proof -
    let ?p = "block5008_plain encrypted imei (first + word_of_nat lane)"
    have short: "length (take 0x20 encrypted) = 0x20" using len by simp
    show key: "?keys ! lane = buildEepromKey (first + word_of_nat lane) imei"
      by (simp add: buildCipherKeyBatch_nth [OF l] key_at_eeprom)
    have room: "lane * 0x20 + 0x20 \<le> length ?d"
      using lane_room [OF l, of "0x20"] by (simp add: length_batch len)
    have "hasValidChecksum ?d (lane * 0x20 + 8) 0x16 = hasValidChecksum (chunk ?d (lane * 0x20) 0x20) 8 0x16"
      using room by (intro hasValidChecksum_chunk) simp_all
    also have "chunk ?d (lane * 0x20) 0x20 = chunk ?p 0 0x20"
      using batch_lane_plain [OF l short, of ?k "0x30" first] by (simp add: key_at_eeprom block5008_plain_parts(2) [OF len])
    also have "hasValidChecksum (chunk ?p 0 0x20) 8 0x16 = hasValidChecksum ?p (0 + 8) 0x16"
      by (rule hasValidChecksum_chunk [symmetric]) (simp_all add: block5008_plain_parts(1) [OF len])
    finally show "hasValidChecksum ?d (lane * 0x20 + 8) 0x16 = hasValidChecksum ?p 8 0x16" by simp
    have "hasValidChecksum (cipherDecrypt encrypted 0x20 0xC0 (?keys ! lane)) (0x20 + 8) 0xB0
        = hasValidChecksum (chunk (cipherDecrypt encrypted 0x20 0xC0 (?keys ! lane)) 0x20 0xC0) 8 0xB0"
      by (rule hasValidChecksum_chunk) (simp_all add: len)
    also have "\<dots> = hasValidChecksum (chunk ?p 0x20 0xC0) 8 0xB0"
      by (simp only: key block5008_plain_parts(3) [OF len])
    also have "\<dots> = hasValidChecksum ?p (0x20 + 8) 0xB0"
      by (rule hasValidChecksum_chunk [symmetric]) (simp_all add: block5008_plain_parts(1) [OF len])
    finally show "hasValidChecksum (cipherDecrypt encrypted 0x20 0xC0 (?keys ! lane)) 0x28 0xB0
      = hasValidChecksum ?p 0x28 0xB0" by simp
  qed
  show "block5008_matches ?k encrypted block5077 present first = lane_match CIPHER_BATCH_SIZE
    (\<lambda>esn. block5008_ok encrypted imei esn \<and> (present \<longrightarrow> block5077_checksum block5077 imei esn)) first"
    unfolding block5008_matches_def Let_def
    by (rule first_lane_lane_match) (use hit assms(2) in \<open>auto simp: block5008_ok_def block5077_checksum_def\<close>)
qed

section \<open>What the recovery decides\<close>

text \<open>
  \<open>explains e info m esn\<close>: the data of method \<open>m\<close> is present and agrees with this ESN, in terms of
  the scalar hash and cipher.  \<open>block_value\<close> is the contents of a block, empty when there is none.
\<close>

definition block_value :: "eeprom \<Rightarrow> u32 \<Rightarrow> u8 list" where
  "block_value e bid = (case m_blocks e bid of None \<Rightarrow> [] | Some blk \<Rightarrow> block_bytes (m_data e) blk)"

definition present :: "u8 list \<Rightarrow> nat \<Rightarrow> bool" where
  "present block n \<longleftrightarrow> length block = n \<and> \<not> isErasedData block 0 n"

fun explains :: "eeprom \<Rightarrow> fullflash_info \<Rightarrow> EsnRecoveryMethod \<Rightarrow> u32 \<Rightarrow> bool" where
  "explains e info KNOWN_HASH esn \<longleftrightarrow> info_hash info = RECALCULATED_HASH \<and> esn = RECALCULATED_ESN"
| "explains e info BLOCK_5468 esn \<longleftrightarrow>
     (let block = block_value e 5468
      in length block = 0x31 \<and> block ! 16 = 0x58 \<and> md5 (le_bytes esn) = chunk block 17 16)"
| "explains e info BKEY esn \<longleftrightarrow> length (info_skey info) = 4 \<and> length (info_bkey info) = 16 \<and>
     fst (calculateBkeyAndHash esn (readUInt32LE (info_skey info) 0)) = info_bkey info"
| "explains e info HASH esn \<longleftrightarrow> length (info_skey info) = 4 \<and> length (info_bkey info) \<noteq> 16 \<and>
     length (info_hash info) = 16 \<and>
     snd (calculateBkeyAndHash esn (readUInt32LE (info_skey info) 0)) = info_hash info"
| "explains e info BLOCK_5008 esn \<longleftrightarrow> length (info_imei info) = 15 \<and> present (block_value e 5008) 0xE0 \<and>
     block5008_ok (block_value e 5008) (info_imei info) esn \<and>
     (present (block_value e 5077) 0xE8 \<longrightarrow> block5077_checksum (block_value e 5077) (info_imei info) esn)"
| "explains e info BLOCK_5121 esn \<longleftrightarrow> length (info_imei info) = 15 \<and> length (info_skey info) = 4 \<and>
     8 \<le> length (block_value e 5121) \<and> present (take 8 (block_value e 5121)) 8 \<and>
     marker_ok (take 8 (block_value e 5121)) (readUInt32LE (info_skey info) 0) (info_imei info) esn"
| "explains e info BLOCK_5123 esn \<longleftrightarrow> length (info_imei info) = 15 \<and> length (info_skey info) = 4 \<and>
     12 \<le> length (block_value e 5123) \<and> present (chunk (block_value e 5123) 4 8) 8 \<and>
     marker_ok (chunk (block_value e 5123) 4 8) (readUInt32LE (info_skey info) 0) (info_imei info) esn"
| "explains e info BLOCK_5077 esn \<longleftrightarrow> length (info_imei info) = 15 \<and> present (block_value e 5077) 0xE8 \<and>
     block5077_ok (block_value e 5077) (info_imei info) esn"

text \<open>
  The specification of the whole recovery: the first method in the order that explains some ESN
  settles the answer with an ESN it explains; when no method explains any, the answer is negative.
\<close>

fun decides :: "('m \<Rightarrow> u32 \<Rightarrow> bool) \<Rightarrow> 'm list \<Rightarrow> bool \<times> u32 \<Rightarrow> bool" where
  "decides E [] r \<longleftrightarrow> r = (False, 0)"
| "decides E (m # ms) r \<longleftrightarrow> (if \<exists>esn. E m esn then fst r \<and> E m (snd r) else decides E ms r)"

definition answers :: "(u32 \<Rightarrow> bool) \<Rightarrow> esn_answer \<Rightarrow> bool" where
  "answers P a \<longleftrightarrow> (case a of Inl _ \<Rightarrow> True | Inr (ok, v) \<Rightarrow> if ok then P v else \<forall>esn. \<not> P esn)"

lemma decides_skip: "(\<And>esn. \<not> E m esn) \<Longrightarrow> decides E ms r \<Longrightarrow> decides E (m # ms) r"
  by auto

lemma otherwise_decides:
  assumes "answers (E m) a" and "otherwise a rest = Inr r" and "rest = Inr r \<Longrightarrow> decides E ms r"
  shows "decides E (m # ms) r"
  using assms by (auto simp: answers_def otherwise_def split: sum.splits if_splits)

lemma answers_none: "(\<And>esn. \<not> P esn) \<Longrightarrow> answers P (Inr (False, 0))"
  by (simp add: answers_def)

lemma sweep_answers:
  assumes "sweeps hardware threads callback sweep" and "0 < batch"
  shows "answers P (sweep meth batch (lane_match batch P))"
proof (cases "sweep meth batch (lane_match batch P)")
  case (Inr r)
  obtain ok v where r: "r = (ok, v)" by (cases r)
  have "bruteForceEsn hardware threads batch (map_option (\<lambda>p. p meth) callback) (lane_match batch P) (Inr (ok, v))"
    using assms Inr r unfolding sweeps_def by metis
  then have "ok \<longleftrightarrow> (\<exists>esn. P esn)" "ok \<longrightarrow> P v"
    using brute.lanes_found_iff [OF assms(2)] brute.lanes_hit by (simp, cases ok) auto
  then show ?thesis by (auto simp: Inr r answers_def)
qed (simp add: answers_def)

lemma batch_sizes_pos [simp]: "0 < MD5_BATCH_SIZE" "0 < CIPHER_BATCH_SIZE"
  by (simp_all add: MD5_BATCH_SIZE_def CIPHER_BATCH_SIZE_def)

lemma block_or_empty_value: "eeprom_wf e \<Longrightarrow> block_or_empty e bid = Inr (block_value e bid)"
  by (simp add: block_or_empty_def hasBlock_def block_value_def readBlock_bytes split: option.split)

lemma readBlock_value: "eeprom_wf e \<Longrightarrow> hasBlock e bid \<Longrightarrow> readBlock e bid = Inr (block_value e bid)"
  by (auto simp: hasBlock_def block_value_def readBlock_bytes)

lemma no_block_value: "\<not> hasBlock e bid \<Longrightarrow> block_value e bid = []"
  by (simp add: hasBlock_def block_value_def)

lemma run_block_Inr [simp]: "run_block (Inr x) = Inr x"
  by (simp add: run_block_def)

lemma answers_sweepI:
  assumes "sweeps hardware threads callback sweep" and "0 < batch" and "m = lane_match batch P"
    and "\<And>esn. Q esn = P esn"
  shows "answers Q (sweep meth batch m)"
proof -
  have "Q = P" using assms(4) by (rule ext)
  then show ?thesis using sweep_answers [OF assms(1,2), of P meth] assms(3) by simp
qed

lemma decide_block5468:
  assumes sw: "sweeps hardware threads callback sweep" and wf: "eeprom_wf e"
    and run: "from_block5468 sweep e rest = Inr r" and rest: "rest = Inr r \<Longrightarrow> decides (explains e info) ms r"
  shows "decides (explains e info) (BLOCK_5468 # ms) r"
proof (cases "hasBlock e 5468 \<and> length (block_value e 5468) = 0x31 \<and> block_value e 5468 ! 16 = 0x58")
  case True
  let ?b = "block_value e 5468"
  have "answers (explains e info BLOCK_5468) (recoverEsnFromHash sweep ?b 17 BLOCK_5468)"
    unfolding recoverEsnFromHash_def
    by (rule answers_sweepI [OF sw _ esn_hash_matches_lanes]) (use True in \<open>simp_all add: Let_def\<close>)
  moreover have "otherwise (recoverEsnFromHash sweep ?b 17 BLOCK_5468) rest = Inr r"
    using run True by (simp add: from_block5468_def readBlock_value [OF wf])
  ultimately show ?thesis using rest by (rule otherwise_decides)
next
  case False
  then have "rest = Inr r" using run
    by (cases "hasBlock e 5468") (auto simp: from_block5468_def readBlock_value [OF wf] split: if_splits)
  moreover have "\<not> explains e info BLOCK_5468 esn" for esn
    using False no_block_value [of e 5468] by (auto simp: Let_def)
  ultimately show ?thesis using rest by (intro decides_skip; blast)
qed

lemma decide_keys:
  assumes sw: "sweeps hardware threads callback sweep"
    and run: "otherwise (recoverEsnFromBkeyOrHash sweep info) rest = Inr r"
    and rest: "rest = Inr r \<Longrightarrow> decides (explains e info) ms r"
  shows "decides (explains e info) (BKEY # HASH # ms) r"
proof -
  let ?a = "recoverEsnFromBkeyOrHash sweep info"
  consider (none) "length (info_skey info) \<noteq> 4 \<or> length (info_bkey info) \<noteq> 16 \<and> length (info_hash info) \<noteq> 16"
    | (bkey) "length (info_skey info) = 4" "length (info_bkey info) = 16"
    | (hash) "length (info_skey info) = 4" "length (info_bkey info) \<noteq> 16" "length (info_hash info) = 16"
    by blast
  then show ?thesis
  proof cases
    case none
    then have "rest = Inr r" using run by (auto simp: recoverEsnFromBkeyOrHash_def Let_def otherwise_def split: if_splits)
    moreover have "\<not> explains e info BKEY esn" "\<not> explains e info HASH esn" for esn using none by auto
    ultimately show ?thesis using rest by (intro decides_skip; blast)
  next
    case bkey
    have "answers (explains e info BKEY) ?a"
      using bkey unfolding recoverEsnFromBkeyOrHash_def
      by (simp add: Let_def) (rule answers_sweepI [OF sw _ bkey_matches_lanes], simp_all)
    moreover have "rest = Inr r \<Longrightarrow> decides (explains e info) (HASH # ms) r"
      using rest bkey by (intro decides_skip) simp_all
    ultimately show ?thesis using run by (blast intro: otherwise_decides)
  next
    case hash
    have "answers (explains e info HASH) ?a"
      using hash unfolding recoverEsnFromBkeyOrHash_def
      by (simp add: Let_def) (rule answers_sweepI [OF sw _ bkey_matches_lanes], simp_all)
    then have "decides (explains e info) (HASH # ms) r" using run rest by (rule otherwise_decides)
    moreover have "\<not> explains e info BKEY esn" for esn using hash by simp
    ultimately show ?thesis by (blast intro: decides_skip)
  qed
qed

lemma decide_block5008:
  assumes sw: "sweeps hardware threads callback sweep" and wf: "eeprom_wf e"
    and imei: "length (info_imei info) = 15"
    and run: "from_block5008 sweep e info (block_value e 5077) rest = Inr r"
    and rest: "rest = Inr r \<Longrightarrow> decides (explains e info) ms r"
  shows "decides (explains e info) (BLOCK_5008 # ms) r"
proof (cases "hasBlock e 5008 \<and> present (block_value e 5008) 0xE0")
  case True
  let ?b = "block_value e 5008" and ?v = "block_value e 5077"
  have b: "length ?b = 0xE0" "\<not> isErasedData ?b 0 0xE0" using True by (simp_all add: present_def)
  have p: "(length ?v = 0xE8 \<and> \<not> isErasedData ?v 0 (length ?v)) = present ?v 0xE8"
    by (auto simp: present_def)
  have lanes: "block5008_matches (buildEepromKey 0 (info_imei info)) ?b ?v (present ?v 0xE8) =
      lane_match CIPHER_BATCH_SIZE (\<lambda>esn. block5008_ok ?b (info_imei info) esn \<and>
        (present ?v 0xE8 \<longrightarrow> block5077_checksum ?v (info_imei info) esn))"
    by (rule block5008_matches_lanes [OF b(1)]) (simp add: present_def)
  have "recoverEsnFromBlock5008 sweep ?b ?v (info_imei info) = sweep BLOCK_5008 CIPHER_BATCH_SIZE
      (block5008_matches (buildEepromKey 0 (info_imei info)) ?b ?v (present ?v 0xE8))"
    using b unfolding recoverEsnFromBlock5008_def p by (simp add: Let_def)
  then have "answers (explains e info BLOCK_5008) (recoverEsnFromBlock5008 sweep ?b ?v (info_imei info))"
    using answers_sweepI [OF sw _ lanes, of "explains e info BLOCK_5008"] True imei by simp
  moreover have "otherwise (recoverEsnFromBlock5008 sweep ?b ?v (info_imei info)) rest = Inr r"
    using run True by (simp add: from_block5008_def readBlock_value [OF wf])
  ultimately show ?thesis using rest by (rule otherwise_decides)
next
  case False
  then have "rest = Inr r" using run
    by (cases "hasBlock e 5008")
      (auto simp: from_block5008_def readBlock_value [OF wf] recoverEsnFromBlock5008_def otherwise_def present_def
        split: if_splits)
  moreover have "\<not> explains e info BLOCK_5008 esn" for esn
    using False no_block_value [of e 5008] by (auto simp: present_def)
  ultimately show ?thesis using rest by (intro decides_skip; blast)
qed

text \<open>One marker: the guard, the erased check and the sweep.\<close>

lemma decide_marker:
  assumes sw: "sweeps hardware threads callback sweep"
    and E: "\<And>esn. explains e info meth esn \<longleftrightarrow> guard \<and> present marker 8 \<and> marker_ok marker skey (info_imei info) esn"
    and len: "guard \<Longrightarrow> length marker = 8"
    and run: "(if guard then otherwise (recoverEsnFromSecurityMarker sweep marker (info_imei info) skey meth) rest
      else rest) = Inr r"
    and rest: "rest = Inr r \<Longrightarrow> decides (explains e info) ms r"
  shows "decides (explains e info) (meth # ms) r"
proof (cases "guard \<and> present marker 8")
  case True
  have "answers (explains e info meth) (sweep meth CIPHER_BATCH_SIZE
      (marker_matches (buildCipherKey1 skey 0 (packImei (info_imei info))) marker))"
    by (rule answers_sweepI [OF sw _ marker_matches_lanes]) (use True len E in simp_all)
  then have "answers (explains e info meth) (recoverEsnFromSecurityMarker sweep marker (info_imei info) skey meth)"
    using True by (simp add: recoverEsnFromSecurityMarker_def present_def Let_def)
  moreover have "otherwise (recoverEsnFromSecurityMarker sweep marker (info_imei info) skey meth) rest = Inr r"
    using run True by simp
  ultimately show ?thesis using rest by (rule otherwise_decides)
next
  case False
  then have "rest = Inr r"
    using run len by (auto simp: recoverEsnFromSecurityMarker_def otherwise_def present_def split: if_splits)
  moreover have "\<not> explains e info meth esn" for esn using False E by blast
  ultimately show ?thesis using rest by (intro decides_skip; blast)
qed

lemma decide_markers:
  assumes sw: "sweeps hardware threads callback sweep" and wf: "eeprom_wf e"
    and imei: "length (info_imei info) = 15"
    and run: "from_markers sweep e info (block_value e 5121) rest = Inr r"
    and rest: "rest = Inr r \<Longrightarrow> decides (explains e info) ms r"
  shows "decides (explains e info) (BLOCK_5121 # BLOCK_5123 # ms) r"
proof (cases "length (info_skey info) = 4")
  case False
  then have "rest = Inr r" using run by (simp add: from_markers_def)
  moreover have "\<not> explains e info BLOCK_5121 esn" "\<not> explains e info BLOCK_5123 esn" for esn
    using False by simp_all
  ultimately show ?thesis using rest by (intro decides_skip; blast)
next
  case skey: True
  let ?skey = "readUInt32LE (info_skey info) 0" and ?m = "take 8 (block_value e 5121)"
  let ?n = "chunk (block_value e 5123) 4 8"
  define last where "last = (if 12 \<le> length (block_value e 5123)
    then otherwise (recoverEsnFromSecurityMarker sweep ?n (info_imei info) ?skey BLOCK_5123) rest else rest)"
  have last: "(if \<not> hasBlock e 5123 then rest
      else ebind (run_block (readBlock e 5123)) (\<lambda>block. if length block \<ge> 12
        then otherwise (recoverEsnFromSecurityMarker sweep (chunk block 4 8) (info_imei info) ?skey BLOCK_5123) rest
        else rest)) = last"
    using no_block_value [of e 5123] by (simp add: last_def readBlock_value [OF wf])
  have run': "(if 8 \<le> length (block_value e 5121)
      then otherwise (recoverEsnFromSecurityMarker sweep ?m (info_imei info) ?skey BLOCK_5121) last else last) = Inr r"
    using run skey unfolding from_markers_def by (simp only: last Let_def simp_thms if_False)
  have second: "decides (explains e info) (BLOCK_5123 # ms) r" if "last = Inr r"
    by (rule decide_marker [OF sw _ _ that [unfolded last_def] rest]) (use imei skey in auto)
  show ?thesis
    by (rule decide_marker [OF sw _ _ run' second]) (use imei skey in auto)
qed

lemma decide_block5077:
  assumes sw: "sweeps hardware threads callback sweep" and imei: "length (info_imei info) = 15"
    and run: "from_block5077 sweep info (block_value e 5077) rest = Inr r"
    and rest: "rest = Inr r \<Longrightarrow> decides (explains e info) ms r"
  shows "decides (explains e info) (BLOCK_5077 # ms) r"
proof (cases "present (block_value e 5077) 0xE8")
  case True
  let ?b = "block_value e 5077"
  have b: "length ?b = 0xE8" "\<not> isErasedData ?b 0 0xE8" "?b \<noteq> []" using True by (auto simp: present_def)
  have "answers (explains e info BLOCK_5077) (recoverEsnFromBlock5077 sweep ?b (info_imei info))"
    using answers_sweepI [OF sw _ block5077_matches_lanes [OF b(1)], of "explains e info BLOCK_5077"] b True imei
    by (simp add: recoverEsnFromBlock5077_def Let_def)
  moreover have "otherwise (recoverEsnFromBlock5077 sweep ?b (info_imei info)) rest = Inr r"
    using run b by (simp add: from_block5077_def)
  ultimately show ?thesis using rest by (rule otherwise_decides)
next
  case False
  then have "rest = Inr r" using run
    by (auto simp: from_block5077_def recoverEsnFromBlock5077_def otherwise_def present_def split: if_splits)
  moreover have "\<not> explains e info BLOCK_5077 esn" for esn using False by simp
  ultimately show ?thesis using rest by (intro decides_skip; blast)
qed

lemma recoverEsn_spec:
  assumes sw: "sweeps hardware threads callback sweep" and wf: "eeprom_wf e"
    and run: "recoverEsn callback sweep e info = Inr r"
  shows "decides (explains e info)
    [KNOWN_HASH, BLOCK_5468, BKEY, HASH, BLOCK_5008, BLOCK_5121, BLOCK_5123, BLOCK_5077] r"
proof (cases "info_hash info = RECALCULATED_HASH")
  case True
  then show ?thesis using run by (auto simp: recoverEsn_def split: if_splits)
next
  case False
  define slow where "slow = from_block5008 sweep e info (block_value e 5077)
    (from_markers sweep e info (block_value e 5121)
      (from_block5077 sweep info (block_value e 5077) (Inr (False, 0))))"
  define imei where "imei = (if length (info_imei info) \<noteq> 15 then Inr (False, 0) else slow)"
  have run': "from_block5468 sweep e (otherwise (recoverEsnFromBkeyOrHash sweep info) imei) = Inr r"
    using run False unfolding recoverEsn_def imei_def slow_def
    by (simp add: block_or_empty_value [OF wf] cong: if_cong del: ebind_Inr_iff)
  have tail: "decides (explains e info) [BLOCK_5008, BLOCK_5121, BLOCK_5123, BLOCK_5077] r" if "imei = Inr r"
  proof (cases "length (info_imei info) = 15")
    case True
    then have "slow = Inr r" using that by (simp add: imei_def)
    then show ?thesis unfolding slow_def
      by (intro decide_block5008 [OF sw wf True] decide_markers [OF sw wf True] decide_block5077 [OF sw True])
        (assumption | simp)+
  next
    case False
    then have "r = (False, 0)" using that by (simp add: imei_def)
    then show ?thesis using False by simp
  qed
  have "\<not> explains e info KNOWN_HASH esn" for esn using False by simp
  moreover have "decides (explains e info) [BLOCK_5468, BKEY, HASH, BLOCK_5008, BLOCK_5121, BLOCK_5123, BLOCK_5077] r"
    by (rule decide_block5468 [OF sw wf run' decide_keys [OF sw _ tail]])
  ultimately show ?thesis by (blast intro: decides_skip)
qed

section \<open>Without a callback nothing throws\<close>

lemma sweep_total:
  assumes "sweeps hardware threads None sweep" and "0 < batch"
  shows "\<exists>ok v. sweep meth batch m = Inr (ok, v)"
proof (cases "sweep meth batch m")
  case (Inl x)
  have "bruteForceEsn hardware threads batch None m (Inl ())"
    using assms Inl unfolding sweeps_def by (metis old.unit.exhaust option.map(1))
  then show ?thesis using bruteForceEsn_throws by blast
next
  case (Inr r)
  then show ?thesis by (cases r) simp
qed

lemma otherwise_total: "a = Inr (ok, v) \<Longrightarrow> is_ok rest \<Longrightarrow> is_ok (otherwise a rest)"
  by (simp add: otherwise_def)

lemma recoverEsn_ok:
  assumes sw: "sweeps hardware threads None sweep" and wf: "eeprom_wf e"
  shows "is_ok (recoverEsn None sweep e info)"
proof -
  have step: "is_ok (otherwise (if b then Inr (False, 0) else sweep meth batch m) rest)"
    if "0 < batch" "is_ok rest" for b meth batch m rest
    using sweep_total [OF sw, of batch meth m] that by (cases b) (auto simp: otherwise_def)
  have step2: "is_ok (otherwise (if b then Inr (False, 0) else if c then Inr (False, 0) else sweep meth batch m) rest)"
    if "0 < batch" "is_ok rest" for b c meth batch m rest
    using step [OF that, of "b \<or> c" meth m] by (cases b) simp_all
  have hash: "is_ok (otherwise (recoverEsnFromHash sweep w off meth) rest)" if "is_ok rest" for w off meth rest
    using step [OF _ that, of MD5_BATCH_SIZE False] by (simp add: recoverEsnFromHash_def)
  have keys: "is_ok (otherwise (recoverEsnFromBkeyOrHash sweep info) rest)" if "is_ok rest" for rest
    unfolding recoverEsnFromBkeyOrHash_def Let_def by (rule step2 [OF _ that]) simp
  have b5008: "is_ok (otherwise (recoverEsnFromBlock5008 sweep x y z) rest)" if "is_ok rest" for x y z rest
    unfolding recoverEsnFromBlock5008_def Let_def by (rule step2 [OF _ that]) simp
  have b5077: "is_ok (otherwise (recoverEsnFromBlock5077 sweep x z) rest)" if "is_ok rest" for x z rest
    unfolding recoverEsnFromBlock5077_def Let_def by (rule step2 [OF _ that]) simp
  have marker: "is_ok (otherwise (recoverEsnFromSecurityMarker sweep x y z meth) rest)" if "is_ok rest" for x y z meth rest
    unfolding recoverEsnFromSecurityMarker_def Let_def by (rule step [OF _ that]) simp
  show ?thesis
    unfolding recoverEsn_def from_block5468_def from_block5008_def from_markers_def from_block5077_def
    using hash keys b5008 b5077 marker
    by (simp add: block_or_empty_value [OF wf] readBlock_value [OF wf] Let_def)
qed

section \<open>The blocks that the recalculation writes\<close>

definition plain5008 :: "u8 list" where
  "plain5008 =
     (let block = replicate 0xE0 0;
          block = fold (\<lambda>index block. writeUInt32LE block (index * 4) (HEADER ! index)) [0..<10] block;
          block = blit block 0x28 (replicate 0xB8 0xFF);
          block = writeUInt32LE block 0xD8 0x50;
          block = writeUInt32LE block 0xDC 0;
          block = writeChecksum block 8 0x16;
          block = writeChecksum block 0x28 0xB0;
          block = writeUInt32LE block 0x00 (readUInt32LE block 0x00 XOR 0xBA1FE5D7);
          block = writeUInt32LE block 0x04 (readUInt32LE block 0x04 XOR 0xD95D2DFD);
          block = writeUInt32LE block 0x20 (readUInt32LE block 0x20 XOR 0xBA1FE5D7)
      in writeUInt32LE block 0x24 (readUInt32LE block 0x24 XOR 0xD95D2DFD))"

definition plain5077 :: "u8 list" where
  "plain5077 =
     (let block = replicate 0xE8 0xFF;
          block = writeUInt32LE block 0 0x56A05690;
          block = writeUInt32LE block 4 0;
          block = block[0xB := 0];
          block = writeUInt32LE block 0xE0 0x063DFF29;
          block = writeUInt32LE block 0xE4 0xF3800B06;
          block = writeChecksum block 8 0xD8;
          block = writeUInt32LE block 0 (readUInt32LE block 0 XOR 0xBA1FE5D7)
      in writeUInt32LE block 4 (readUInt32LE block 4 XOR 0xD95D2DFD))"

lemma plain5008_checks: "length plain5008 = 0xE0 \<and> hasValidChecksum plain5008 8 0x16 \<and> hasValidChecksum plain5008 0x28 0xB0"
  by code_simp

lemma plain5077_checks: "length plain5077 = 0xE8 \<and> hasValidChecksum plain5077 8 0xD8 \<and> chunk plain5077 0xE2 6 = BLOCK5077_TAIL"
  by code_simp

text \<open>The keys of src/main.cpp: the digest words of BKEY and of HASH.\<close>

lemma default_bkey_words:
  "md5_compressBlock MD5_INITIAL_STATE ([RECALCULATED_ESN, 12345678, bkey_word2 RECALCULATED_ESN 12345678,
      bkey_word3 RECALCULATED_ESN 12345678, 0x80] @ replicate 9 0 @ [128, 0]) =
    (0xE676220, 0x7F7A5309, 0x2A4679E0, 0x6881C90E)"
  by code_simp

lemma default_hash_words:
  "md5_compressBlock MD5_INITIAL_STATE ([0xE676220, 0x7F7A5309, 0x2A4679E0, 0x6881C90E, 0x80] @ replicate 9 0 @ [128, 0]) =
    (0xC10AF854, 0xB294CD2A, 0x9BFBCFF5, 0x93D4E4F7)"
  by code_simp

lemma default_hash_bytes: "rfc_digest [0xC10AF854, 0xB294CD2A, 0x9BFBCFF5, 0x93D4E4F7] = RECALCULATED_HASH"
  by code_simp

lemma known_hash: "snd (calculateBkeyAndHash RECALCULATED_ESN 12345678) = RECALCULATED_HASH"
  by (simp only: calculateBkeyAndHash_message snd_conv bkey_message_words md5_four_words default_bkey_words
      md5_result_words default_hash_words default_hash_bytes)


lemma decrypt_encrypt: "off + n \<le> length d \<Longrightarrow> cipherDecrypt (cipherEncrypt d off n key) off n key = d"
  using scalar_cipher_inverse [of True]
  by (simp add: cipherEncrypt_blit cipherDecrypt_blit blit_chunk_back)

lemma block5077_built: "block5077_ok (buildBlock5077 imei esn) imei esn"
proof -
  have "buildBlock5077 imei esn = cipherEncrypt plain5077 0 (length plain5077) (buildEepromKey esn imei)"
    unfolding buildBlock5077_def plain5077_def Let_def ..
  then have "cipherDecrypt (buildBlock5077 imei esn) 0 0xE8 (buildEepromKey esn imei) = plain5077"
    using plain5077_checks by (simp add: decrypt_encrypt)
  then show ?thesis using plain5077_checks by (simp add: block5077_ok_def block5077_checksum_def)
qed

lemma block5008_built: "block5008_ok (buildBlock5008 imei esn) imei esn"
proof -
  let ?k = "buildEepromKey esn imei" and ?b = "buildBlock5008 imei esn"
  have len: "length plain5008 = 0xE0" using plain5008_checks by simp
  have b: "?b = cipherEncrypt (cipherEncrypt plain5008 0 0x20 ?k) 0x20 0xC0 ?k"
    unfolding buildBlock5008_def plain5008_def Let_def ..
  have b_len: "length ?b = 0xE0" by (simp add: b len)
  note parts = block5008_plain_parts [OF b_len, of imei esn]
  let ?p = "block5008_plain ?b imei esn"
  have "take 0x20 ?b = scalar_cipher True (md4 ?k) (chunk plain5008 0 0x20)"
    unfolding b chunk_def [of _ 0 "0x20", simplified, symmetric]
    by (simp add: len cipherEncrypt_blit chunk_blit_other)
  then have c0: "chunk ?p 0 0x20 = chunk plain5008 0 0x20"
    using parts(2) scalar_cipher_inverse [of True] by simp
  have "cipherDecrypt ?b 0x20 0xC0 ?k = cipherEncrypt plain5008 0 0x20 ?k"
    unfolding b by (rule decrypt_encrypt) (simp add: len)
  then have c1: "chunk ?p 0x20 0xC0 = chunk plain5008 0x20 0xC0"
    using parts(3) by (simp add: len cipherEncrypt_blit chunk_blit_other)
  have "?p = plain5008"
  proof -
    have split: "d = chunk d 0 0x20 @ chunk d 0x20 0xC0" if "length d = 0xE0" for d :: "u8 list"
      using that by (simp add: chunk_def)
    show ?thesis using split [OF parts(1)] split [OF len] c0 c1 by simp
  qed
  then show ?thesis using plain5008_checks by (simp add: block5008_ok_def)
qed

lemma marker_built:
  assumes "length (masterKeys keys) = 6"
  shows "marker_ok (take 8 (buildBlock5121 keys)) (keys_skey keys) (keys_imei keys) (keys_esn keys)"
proof -
  have "take 8 (buildBlock5121 keys) = chunk (buildBlock5121 keys) 0 8" by (simp add: chunk_def)
  then show ?thesis unfolding marker_ok_def block5121_chunks(1) [OF assms]
    using block5121_chunks(1) [OF assms] by (simp add: decrypt_scalar)
qed

lemma block5123_built:
  assumes "length (masterKeys keys) = 6"
  shows "marker_ok (chunk (buildBlock5123 (buildBlock5121 keys) shortVariant) 4 8) (keys_skey keys)
    (keys_imei keys) (keys_esn keys)"
proof -
  have "8 \<le> length (buildBlock5121 keys)"
    using arg_cong [OF block5121_chunks(1) [OF assms], of length] by simp
  then show ?thesis using marker_built [OF assms] by (simp add: block5123_chunk)
qed

section \<open>Properties\<close>

lemma sweeps_sequential:
  "effectiveThreads hardware threads = 1 \<Longrightarrow> sweeps hardware threads None (\<lambda>meth. sequential_sweep)"
  by (simp add: sweeps_def sequential_sweep_runs)

lemma effectiveThreads_one: "effectiveThreads hardware 1 = 1" "effectiveThreads 1 0 = 1"
  by (simp_all add: effectiveThreads_def)

text \<open>C27. The batch matchers are the scalar hash and cipher tried on consecutive values: the packed MD5
  words of \<open>recoverEsnFromHash\<close> and \<open>recoverEsnFromBkeyOrHash\<close> and the interleaved decryptions of
  the security marker and of block 5077 accept a lane exactly when the scalar check accepts its ESN.
\<close>

theorem batch_matchers:
  assumes "offset + 16 \<le> length block" and "length wanted = 16" and "length marker = 8" and "length encrypted = 0xE8"
  shows "esn_hash_matches (read_target block offset)
      = lane_match MD5_BATCH_SIZE (\<lambda>esn. md5 (le_bytes esn) = chunk block offset 16)
    \<and> bkey_matches True skey (read_target wanted 0)
      = lane_match MD5_BATCH_SIZE (\<lambda>esn. fst (calculateBkeyAndHash esn skey) = wanted)
    \<and> bkey_matches False skey (read_target wanted 0)
      = lane_match MD5_BATCH_SIZE (\<lambda>esn. snd (calculateBkeyAndHash esn skey) = wanted)
    \<and> marker_matches (buildCipherKey1 skey 0 (packImei imei)) marker
      = lane_match CIPHER_BATCH_SIZE (marker_ok marker skey imei)
    \<and> block5077_matches (buildEepromKey 0 imei) encrypted
      = lane_match CIPHER_BATCH_SIZE (block5077_ok encrypted imei)"
  using esn_hash_matches_lanes [OF assms(1)] bkey_matches_lanes [OF assms(2), of True]
    bkey_matches_lanes [OF assms(2), of False] marker_matches_lanes [OF assms(3)]
    block5077_matches_lanes [OF assms(4)] by simp

theorem batch_matchers_witness:
  "esn_hash_matches (read_target (replicate 49 7) 17)
    = lane_match MD5_BATCH_SIZE (\<lambda>esn. md5 (le_bytes esn) = chunk (replicate 49 7) 17 16)"
proof -
  have h: "17 + 16 \<le> length (replicate 49 (7 :: u8))" "length (replicate 16 (7 :: u8)) = 16"
    "length (replicate 8 (7 :: u8)) = 8" "length (replicate 0xE8 (7 :: u8)) = 0xE8" by simp_all
  show ?thesis using batch_matchers [OF h] by blast
qed

text \<open>C1. What the ESN recovery answers, for every thread count, schedule and callback: the first method
  in the order of the code whose data some ESN explains settles the answer, with an ESN that
  explains it; the answer is negative only when no ESN explains the data of any method.
\<close>

theorem recoverEsn_decides:
  assumes "sweeps hardware threads callback sweep" and "parsePartitions data = Inr e"
    and "recoverEsn callback sweep e info = Inr r"
  shows "decides (explains e info)
    [KNOWN_HASH, BLOCK_5468, BKEY, HASH, BLOCK_5008, BLOCK_5121, BLOCK_5123, BLOCK_5077] r"
  using parsePartitions_wf [OF assms(2)] by (intro recoverEsn_spec [OF assms(1) _ assms(3)]) simp

lemma sample_store: "parsePartitions [] = Inr \<lparr>m_data = [], eeprom_layout = UNKNOWN_LAYOUT, m_blocks = Map.empty\<rparr>"
  by (simp add: parsePartitions_def PARTITION_STEP_def)

theorem recoverEsn_decides_witness:
  "decides (explains \<lparr>m_data = [], eeprom_layout = UNKNOWN_LAYOUT, m_blocks = Map.empty\<rparr>
      (empty_info\<lparr>info_imei := ''490154203237518'', info_skey := [1, 2, 3, 4]\<rparr>))
    [KNOWN_HASH, BLOCK_5468, BKEY, HASH, BLOCK_5008, BLOCK_5121, BLOCK_5123, BLOCK_5077] (False, 0)"
proof (rule recoverEsn_decides [OF sweeps_sequential [OF effectiveThreads_one(1)] sample_store])
  show "recoverEsn None (\<lambda>meth. sequential_sweep) \<lparr>m_data = [], eeprom_layout = UNKNOWN_LAYOUT, m_blocks = Map.empty\<rparr>
      (empty_info\<lparr>info_imei := ''490154203237518'', info_skey := [1, 2, 3, 4]\<rparr>) = Inr (False, 0)"
    by (simp add: recoverEsn_def empty_info_def RECALCULATED_HASH_def from_block5468_def hasBlock_def
        recoverEsnFromBkeyOrHash_def otherwise_def block_or_empty_def from_block5008_def from_markers_def
        from_block5077_def)
qed

text \<open>The recovery without a callback never throws on a parsed fullflash: it ends with an answer.
\<close>

theorem recoverEsn_total:
  assumes "sweeps hardware threads None sweep" and "parsePartitions data = Inr e"
  shows "\<exists>ok esn. recoverEsn None sweep e info = Inr (ok, esn)"
  using recoverEsn_ok [OF assms(1) conjunct1 [OF parsePartitions_wf [OF assms(2)]], of info]
  by (cases "recoverEsn None sweep e info") auto

theorem recoverEsn_total_witness:
  "\<exists>ok esn. recoverEsn None (\<lambda>meth. sequential_sweep)
    \<lparr>m_data = [], eeprom_layout = UNKNOWN_LAYOUT, m_blocks = Map.empty\<rparr> empty_info = Inr (ok, esn)"
  by (rule recoverEsn_total [OF sweeps_sequential [OF effectiveThreads_one(1)] sample_store])



end
