(* ===== verification/Process.thy ===== *)
theory Process
  imports Strings
begin

text \<open>
  src/utils/process.cpp, and the two searches of src/main.cpp for a board file and for the QEMU
  binary.  The platform that the code was compiled for is an argument, and so are the answers of the
  operating system (the path of the executable, which paths exist, what \<open>canonical\<close>, \<open>posix_spawnp\<close>
  or \<open>_spawnvp\<close>, and each \<open>waitpid\<close> return).
\<close>

datatype platform = Windows | MacOS | Linux | FreeBSD

definition isWindows :: "platform \<Rightarrow> bool" where
  "isWindows system \<longleftrightarrow> system = Windows"

section \<open>Environment and child process\<close>

text \<open>What a C function sees of a \<open>std::string\<close>.\<close>

definition c_str :: "string \<Rightarrow> string" where
  "c_str s = takeWhile (\<lambda>c. c \<noteq> CHR 0x00) s"

type_synonym process_environment = "string \<Rightarrow> string option"

text \<open>
  \<open>setenv\<close> refuses an empty name and one with an equals sign, and the result is not looked at.
  \<open>_putenv\<close> takes one string, the name up to the first equals sign, and an empty value removes the
  variable.  That Windows compares names without regard to case does not matter for the names used.
\<close>

definition putenv :: "process_environment \<Rightarrow> string \<Rightarrow> process_environment" where
  "putenv env entry =
     (let name = takeWhile (\<lambda>c. c \<noteq> CHR ''='') entry; v = drop (length name + 1) entry
      in if name = '''' \<or> name = entry then env
         else if v = '''' then env(name := None) else env(name \<mapsto> v))"

definition setEnvironmentVariable ::
  "platform \<Rightarrow> process_environment \<Rightarrow> string \<Rightarrow> string \<Rightarrow> process_environment" where
  "setEnvironmentVariable system env name value =
     (if isWindows system then putenv env (c_str (name @ ''='' @ value))
      else if c_str name = '''' \<or> CHR ''='' \<in> set (c_str name) then env else env(c_str name \<mapsto> c_str value))"

datatype wait_call = WaitInterrupted | WaitFailed | Exited u8 | Killed

datatype process_error = SpawnThrew | WaitThrew

text \<open>One answer per \<open>waitpid\<close>; None: the loop still runs when the answers are used up.\<close>

fun wait_loop :: "wait_call list \<Rightarrow> (process_error + int) option" where
  "wait_loop [] = None"
| "wait_loop (WaitInterrupted # rest) = wait_loop rest"
| "wait_loop (WaitFailed # rest) = Some (Inl WaitThrew)"
| "wait_loop (Exited status # rest) = Some (Inr (uint status))"
| "wait_loop (Killed # rest) = Some (Inr (- 1))"

text \<open>
  What the child gets as its arguments: on POSIX the vector; on Windows a process has one command
  line, which \<open>_spawnvp\<close> makes by joining the vector with spaces, without quotes, and the program
  is named apart from it.  The launcher's vector is never empty: the program is its first string.
\<close>

datatype child_arguments = ArgumentVector "string list" | CommandLine string string

definition pass_arguments :: "platform \<Rightarrow> string list \<Rightarrow> child_arguments" where
  "pass_arguments system args =
     (if isWindows system then CommandLine (hd args) (joinStrings args '' '') else ArgumentVector args)"

text \<open>
  The arguments of the child, if there is a child, and the result.  On Windows one call starts the
  child and waits for it; its result is the status of the child or -1, cast to \<open>int\<close>.
\<close>

record process_answers =
  spawn_works :: bool
  wait_calls :: "wait_call list"
  spawn_status :: int

definition executeProcess ::
  "platform \<Rightarrow> process_answers \<Rightarrow> string list \<Rightarrow> child_arguments option \<times> (process_error + int) option" where
  "executeProcess system os argv =
     (let args = pass_arguments system (map c_str argv)
      in if isWindows system then
           let result = (if spawn_works os then spawn_status os else - 1)
           in (if spawn_works os then Some args else None,
               Some (if result = - 1 then Inl SpawnThrew else Inr (sint (word_of_int result :: 32 word))))
         else if \<not> spawn_works os then (None, Some (Inl SpawnThrew))
         else (Some args, wait_loop (wait_calls os)))"

section \<open>Paths\<close>

text \<open>
  \<open>std::filesystem::path\<close>: \<open>parent_path\<close> of an absolute path, on Windows one with a drive letter, and
  \<open>operator/\<close> with a relative right side.
\<close>

definition is_separator :: "platform \<Rightarrow> char \<Rightarrow> bool" where
  "is_separator system c \<longleftrightarrow> c = CHR ''/'' \<or> isWindows system \<and> c = CHR 0x5C"

definition preferred_separator :: "platform \<Rightarrow> char" where
  "preferred_separator system = (if isWindows system then CHR 0x5C else CHR ''/'')"

definition is_root_name :: "platform \<Rightarrow> string \<Rightarrow> bool" where
  "is_root_name system p \<longleftrightarrow> isWindows system \<and> length p = 2 \<and> last p = CHR '':''"

definition parent_path :: "platform \<Rightarrow> string \<Rightarrow> string" where
  "parent_path system p =
     (let directory = rev (dropWhile (\<lambda>c. \<not> is_separator system c) (rev p));
          stripped = rev (dropWhile (is_separator system) (rev directory))
      in if stripped = '''' \<or> is_root_name system stripped then take (length stripped + 1) directory else stripped)"

definition path_append :: "platform \<Rightarrow> string \<Rightarrow> string \<Rightarrow> string" where
  "path_append system directory name =
     (if directory = '''' \<or> is_separator system (last directory) then directory @ name
      else directory @ [preferred_separator system] @ name)"

datatype path_error = ConfigurationNotFound string | BinaryNotFound | FilesystemThrew | UninitialisedBuffer

record path_answers =
  executable_link :: "string option"
  working_directory :: "string option"
  path_exists :: "string \<Rightarrow> bool"
  canonical_of :: "string \<Rightarrow> string option"

text \<open>\<open>MAX_PATH\<close> on Windows, \<open>PATH_MAX\<close> elsewhere.\<close>

definition PATH_MAX :: "platform \<Rightarrow> nat" where
  "PATH_MAX system = (case system of Windows \<Rightarrow> 260 | MacOS \<Rightarrow> 1024 | Linux \<Rightarrow> 4096 | FreeBSD \<Rightarrow> 1024)"

definition current_path :: "path_answers \<Rightarrow> path_error + string" where
  "current_path os = (case working_directory os of None \<Rightarrow> Inl FilesystemThrew | Some d \<Rightarrow> Inr d)"

text \<open>
  \<open>executable_link\<close> is the path the system knows.  \<open>GetModuleFileNameA\<close> and \<open>readlink\<close> cut it to the
  buffer, \<open>_NSGetExecutablePath\<close> and \<open>sysctl\<close> fail when it does not fit; the result of the first is
  not looked at, so that a failure leaves the buffer as it was.
\<close>

definition getExecutableDirectory :: "platform \<Rightarrow> path_answers \<Rightarrow> path_error + string" where
  "getExecutableDirectory system os =
     (case system of
        Windows \<Rightarrow>
          (case executable_link os of
             Some target \<Rightarrow> Inr (parent_path system (c_str (take (PATH_MAX system - 1) target)))
           | None \<Rightarrow> Inl UninitialisedBuffer)
      | Linux \<Rightarrow>
          (case executable_link os of
             Some target \<Rightarrow> Inr (parent_path system (c_str (take (PATH_MAX system - 1) target)))
           | None \<Rightarrow> current_path os)
      | _ \<Rightarrow>
          (case executable_link os of
             Some target \<Rightarrow>
               if length target < PATH_MAX system then Inr (parent_path system (c_str target)) else current_path os
           | None \<Rightarrow> current_path os))"

text \<open>The loop over the variants: the first that exists, as a canonical path.\<close>

fun first_existing :: "path_answers \<Rightarrow> string list \<Rightarrow> path_error \<Rightarrow> path_error + string" where
  "first_existing os [] err = Inl err"
| "first_existing os (path # rest) err =
     (if path_exists os path
      then (case canonical_of os path of None \<Rightarrow> Inl FilesystemThrew | Some p \<Rightarrow> Inr p)
      else first_existing os rest err)"

definition ends_with :: "string \<Rightarrow> string \<Rightarrow> bool" where
  "ends_with s tail \<longleftrightarrow> length tail \<le> length s \<and> drop (length s - length tail) s = tail"

definition starts_with :: "string \<Rightarrow> string \<Rightarrow> bool" where
  "starts_with s head \<longleftrightarrow> take (length head) s = head"

definition board_variants :: "platform \<Rightarrow> string \<Rightarrow> string \<Rightarrow> string list" where
  "board_variants system exeDir file_name =
     [path_append system exeDir (''../bsp/lib/data/board/'' @ file_name),
      path_append system exeDir (''../share/pmb887x-emu/boards/'' @ file_name),
      path_append system exeDir (''boards/'' @ file_name)]"

definition getBoardConfigPath :: "platform \<Rightarrow> path_answers \<Rightarrow> string \<Rightarrow> path_error + string" where
  "getBoardConfigPath system os device =
     (if ends_with device ''.toml'' \<or> ends_with device ''.TOML'' then Inr device
      else ebind (getExecutableDirectory system os) (\<lambda>exeDir.
        first_existing os (board_variants system exeDir (device @ ''.toml'')) (ConfigurationNotFound device)))"

definition qemu_variants :: "platform \<Rightarrow> string \<Rightarrow> string list" where
  "qemu_variants system exeDir =
     (if isWindows system then
        [path_append system exeDir ''qemu-build/qemu-system-arm.exe'',
         path_append system exeDir ''qemu/qemu-system-arm.exe'']
      else
        [path_append system exeDir ''qemu-install/bin/qemu-system-arm'',
         path_append system exeDir ''../share/pmb887x-emu/qemu/bin/qemu-system-arm'',
         path_append system exeDir ''qemu/bin/qemu-system-arm''])"

definition getQemuBinaryPath :: "platform \<Rightarrow> path_answers \<Rightarrow> path_error + string" where
  "getQemuBinaryPath system os =
     ebind (getExecutableDirectory system os) (\<lambda>exeDir. first_existing os (qemu_variants system exeDir) BinaryNotFound)"

section \<open>Facts\<close>

lemma c_str_plain [simp]: "CHR 0x00 \<notin> set s \<Longrightarrow> c_str s = s"
  by (auto simp: c_str_def intro: takeWhile_eq_all_conv [THEN iffD2])

definition answered :: "wait_call \<Rightarrow> (process_error + int) option" where
  "answered call = (case call of WaitInterrupted \<Rightarrow> None | WaitFailed \<Rightarrow> Some (Inl WaitThrew)
     | Exited status \<Rightarrow> Some (Inr (uint status)) | Killed \<Rightarrow> Some (Inr (- 1)))"

lemma wait_loop_first:
  "wait_loop calls = (case dropWhile (\<lambda>call. call = WaitInterrupted) calls of [] \<Rightarrow> None | call # _ \<Rightarrow> answered call)"
  by (induction calls rule: wait_loop.induct) (simp_all add: answered_def)

lemma wait_loop_None: "wait_loop calls = None \<longleftrightarrow> set calls \<subseteq> {WaitInterrupted}"
  by (induction calls rule: wait_loop.induct) auto

lemma wait_loop_range: "wait_loop calls = Some (Inr status) \<Longrightarrow> - 1 \<le> status \<and> status < 256"
proof (induction calls rule: wait_loop.induct)
  case (4 code rest)
  then have "status = uint code" by simp
  moreover have "0 \<le> uint code" by simp
  moreover have "uint code < 256" using uint_bounded [of code] by simp
  ultimately show ?case by linarith
qed auto

lemma first_existing_find:
  "first_existing os paths err = (case List.find (path_exists os) paths of
      None \<Rightarrow> Inl err
    | Some p \<Rightarrow> (case canonical_of os p of None \<Rightarrow> Inl FilesystemThrew | Some c \<Rightarrow> Inr c))"
  by (induction paths) auto

lemma joinStrings_split:
  "joinStrings (before @ (x @ s @ y) # later) s = joinStrings (before @ x # y # later) s"
  by (cases before) (simp_all add: joinStrings_Cons)

section \<open>Properties\<close>

text \<open>C37. Waiting for the child: on POSIX the child gets the whole argument vector, and the call returns
  as soon as some \<open>waitpid\<close> is not interrupted, with what the first such call says; only an endless
  row of interruptions keeps it waiting.  A status is the exit code of the child or -1 there, and
  on Windows, where the call always returns, a 32-bit number.\<close>

theorem executeProcess_waits:
  "executeProcess Linux (os\<lparr>spawn_works := True\<rparr>) argv = (Some (ArgumentVector (map c_str argv)),
      case dropWhile (\<lambda>call. call = WaitInterrupted) (wait_calls os) of [] \<Rightarrow> None | call # later \<Rightarrow> answered call)
   \<and> (snd (executeProcess system (os\<lparr>spawn_works := True\<rparr>) argv) = None \<longleftrightarrow>
       system \<noteq> Windows \<and> set (wait_calls os) \<subseteq> {WaitInterrupted})
   \<and> (case snd (executeProcess system os argv) of
        Some (Inr status) \<Rightarrow>
          if isWindows system then - (2 ^ 31) \<le> status \<and> status < 2 ^ 31 else - 1 \<le> status \<and> status < 256
      | _ \<Rightarrow> True)"
proof -
  have "- (2 ^ 31) \<le> sint w \<and> sint w < 2 ^ 31" for w :: "32 word"
    using sint_ge [of w] sint_lt [of w] by simp
  then show ?thesis
    using wait_loop_first [of "wait_calls os"] wait_loop_range [of "wait_calls os"] wait_loop_None [of "wait_calls os"]
    by (auto simp: executeProcess_def isWindows_def pass_arguments_def Let_def split: option.split sum.split)
qed



end
