(* ===== verification/Files.thy ===== *)
theory Files
  imports Process
begin

text \<open>
  src/utils/file.cpp and src/utils/temp_file.cpp, on each platform.  The disk is a map from
  canonical paths to files; the open descriptors are a map from numbers to the bytes of their
  anonymous file.  The answers of the operating system (what a call returned, and for a failed
  write how far it got) are arguments, so that every error path is a value of the model.  Windows
  only knows whether a file may be written: there a number stands for its owner's write bit.
\<close>

section \<open>The disk\<close>

record file_entry =
  contents :: "u8 list"
  permissions :: nat

type_synonym disk = "string \<Rightarrow> file_entry option"

text \<open>A file that cannot be opened and read to its end is absent from the disk a reader sees.\<close>

definition readFile :: "disk \<Rightarrow> string \<Rightarrow> u8 list option" where
  "readFile d path = map_option contents (d path)"

datatype write_outcome = OpenFails | StopsAfter nat | Written

text \<open>
  \<open>ofstream\<close> with \<open>trunc\<close>: an existing file keeps its permissions, a new one gets the \<open>umask\<close>
  default; a write that fails leaves a prefix.
\<close>

definition put_contents :: "disk \<Rightarrow> string \<Rightarrow> u8 list \<Rightarrow> disk" where
  "put_contents d path bytes =
     d(path \<mapsto> \<lparr>contents = bytes,
        permissions = (case d path of None \<Rightarrow> 0x1A4 | Some old \<Rightarrow> permissions old)\<rparr>)"

definition writeFile :: "write_outcome \<Rightarrow> disk \<Rightarrow> string \<Rightarrow> u8 list \<Rightarrow> disk \<times> bool" where
  "writeFile outcome d path data =
     (case outcome of
        OpenFails \<Rightarrow> (d, False)
      | StopsAfter n \<Rightarrow> (put_contents d path (take n data), False)
      | Written \<Rightarrow> (put_contents d path data, True))"

definition remove_file :: "bool \<Rightarrow> disk \<Rightarrow> string \<Rightarrow> disk" where
  "remove_file works d path = (if works then d(path := None) else d)"

section \<open>replaceFile\<close>

text \<open>
  The answers of one run: the canonical path, the name \<open>mkstemp\<close> or \<open>GetTempFileNameW\<close> filled in
  (both create the file, empty; the first makes it private), the outcome of the write, whether
  \<open>status\<close>, \<open>permissions\<close>, \<open>rename\<close> and \<open>remove\<close> succeed, and on Windows what \<open>ReplaceFileW\<close> did.
  Called without a name for a backup, it can fail in three ways: both files keep their names
  (\<open>ERROR_UNABLE_TO_REMOVE_REPLACED\<close> and most others), the target no longer exists
  (\<open>ERROR_UNABLE_TO_MOVE_REPLACEMENT\<close>), or it exists under another name
  (\<open>ERROR_UNABLE_TO_MOVE_REPLACEMENT_2\<close>).
\<close>

datatype replace_call = Replaced | Unchanged | TargetLost | TargetMoved string

record replace_answers =
  canonical_path :: "string option"
  replacement_path :: "string option"
  write_answer :: write_outcome
  status_works :: bool
  permissions_work :: bool
  rename_works :: bool
  replace_answer :: replace_call
  remove_works :: bool

definition createReplacementFile :: "platform \<Rightarrow> replace_answers \<Rightarrow> disk \<Rightarrow> (disk \<times> string) option" where
  "createReplacementFile system os d =
     map_option (\<lambda>name. (d(name \<mapsto> \<lparr>contents = [], permissions = (if isWindows system then 0x1A4 else 0x180)\<rparr>), name))
       (replacement_path os)"

definition rename_file :: "disk \<Rightarrow> string \<Rightarrow> string \<Rightarrow> disk" where
  "rename_file d source destination = d(destination := d source, source := None)"

definition copy_permissions :: "disk \<Rightarrow> string \<Rightarrow> string \<Rightarrow> disk" where
  "copy_permissions d source path =
     (case (d source, d path) of
        (Some s, Some f) \<Rightarrow> d(path \<mapsto> f\<lparr>permissions := permissions s\<rparr>)
      | _ \<Rightarrow> d)"

definition ReplaceFileW :: "replace_call \<Rightarrow> disk \<Rightarrow> string \<Rightarrow> string \<Rightarrow> disk \<times> bool" where
  "ReplaceFileW answer d target replacement =
     (case answer of
        Replaced \<Rightarrow> (rename_file d replacement target, True)
      | Unchanged \<Rightarrow> (d, False)
      | TargetLost \<Rightarrow> (d(target := None), False)
      | TargetMoved other \<Rightarrow> (rename_file d target other, False))"

text \<open>The last step: put the replacement in the place of the target.\<close>

definition install :: "platform \<Rightarrow> replace_answers \<Rightarrow> disk \<Rightarrow> string \<Rightarrow> string \<Rightarrow> disk \<times> bool" where
  "install system os d target replacement =
     (if isWindows system then ReplaceFileW (replace_answer os) d target replacement
      else if rename_works os then (rename_file d replacement target, True)
      else (d, False))"

text \<open>The disks after each call of the run, the last one first, and the result.\<close>

definition replaceFile :: "platform \<Rightarrow> replace_answers \<Rightarrow> disk \<Rightarrow> u8 list \<Rightarrow> disk list \<times> bool" where
  "replaceFile system os d data =
     (case canonical_path os of
        None \<Rightarrow> ([d], False)
      | Some target \<Rightarrow>
          (case createReplacementFile system os d of
             None \<Rightarrow> ([d], False)
           | Some (d1, replacement) \<Rightarrow>
               let (d2, wrote) = writeFile (write_answer os) d1 replacement data
               in if \<not> wrote then ([remove_file (remove_works os) d2 replacement, d2, d1, d], False)
                  else if \<not> status_works os
                  then ([remove_file (remove_works os) d2 replacement, d2, d1, d], False)
                  else if \<not> permissions_work os
                  then ([remove_file (remove_works os) d2 replacement, d2, d1, d], False)
                  else let d3 = copy_permissions d2 target replacement;
                           (d4, replaced) = install system os d3 target replacement
                  in if replaced then ([d4, d3, d2, d1, d], True)
                     else ([remove_file (remove_works os) d4 replacement, d4, d3, d2, d1, d], False)))"

text \<open>The answers with which the target is in its place or replaced, but never gone.\<close>

definition keeps_target :: "platform \<Rightarrow> replace_answers \<Rightarrow> bool" where
  "keeps_target system os \<longleftrightarrow> \<not> isWindows system \<or> replace_answer os = Replaced \<or> replace_answer os = Unchanged"

section \<open>writeDescriptor\<close>

datatype write_call = Wrote nat | Interrupted | Failed

text \<open>
  One answer per call of \<open>write\<close>; None: the loop still runs when the answers are used up.  The
  second component of the result is what the descriptor's file holds.
\<close>

fun writeDescriptor :: "write_call list \<Rightarrow> u8 list \<Rightarrow> nat \<Rightarrow> u8 list \<Rightarrow> (bool \<times> u8 list) option" where
  "writeDescriptor calls data already out =
     (if \<not> already < length data then Some (True, out)
      else case calls of
        [] \<Rightarrow> None
      | Interrupted # rest \<Rightarrow> writeDescriptor rest data already out
      | Failed # rest \<Rightarrow> Some (False, out)
      | Wrote written # rest \<Rightarrow>
          if written = 0 then Some (False, out)
          else writeDescriptor rest data (already + written) (out @ chunk data already written))"

declare writeDescriptor.simps [simp del]

section \<open>TempFileCopy\<close>

record temp_file_copy =
  m_fd :: int
  m_filePath :: string
  m_isTempFile :: bool

definition new_temp_file_copy :: temp_file_copy where
  "new_temp_file_copy = \<lparr>m_fd = - 1, m_filePath = '''', m_isTempFile = False\<rparr>"

record machine =
  the_disk :: disk
  descriptors :: "int \<Rightarrow> u8 list option"

text \<open>
  What \<open>memfd_create\<close> or \<open>mkstemp\<close> returned, the calls of \<open>write\<close>, and the answers of the temporary
  directory.  The fields of \<open>mkstemp\<close> are for macOS: the first answer of \<open>temp_directory_path\<close>, the
  characters it filled in, and whether \<open>unlink\<close> and the \<open>remove\<close> of the clean-up succeed.
\<close>

record create_answers =
  new_fd :: int
  mkstemp_directory :: "string option"
  mkstemp_suffix :: string
  unlink_works :: bool
  mkstemp_remove_works :: bool
  write_calls :: "write_call list"
  temp_directory :: "string option"
  random_number :: nat
  temp_write :: write_outcome
  temp_remove_works :: bool

datatype temp_error = AlreadyExists | CantCreate

fun to_string :: "nat \<Rightarrow> string" where
  "to_string n = (if n < 10 then [char_of (48 + n)] else to_string (n div 10) @ [char_of (48 + n mod 10)])"

declare to_string.simps [simp del]

definition close_fd :: "machine \<Rightarrow> int \<Rightarrow> machine" where
  "close_fd w fd = w\<lparr>descriptors := (descriptors w)(fd := None)\<rparr>"

text \<open>The part of \<open>create\<close> after the anonymous file: a named file in the temporary directory.\<close>

definition temp_path :: "platform \<Rightarrow> string \<Rightarrow> nat \<Rightarrow> string" where
  "temp_path system directory random =
     path_append system directory (''pmb887x-emu-'' @ to_string random @ ''.bin'')"

definition create_named ::
  "platform \<Rightarrow> create_answers \<Rightarrow> machine \<Rightarrow> temp_file_copy \<Rightarrow> u8 list
    \<Rightarrow> machine \<times> temp_file_copy \<times> (temp_error + string)" where
  "create_named system os w t data =
     (case temp_directory os of
        None \<Rightarrow> (w, t, Inl CantCreate)
      | Some directory \<Rightarrow>
          let path = temp_path system directory (random_number os);
              (d, ok) = writeFile (temp_write os) (the_disk w) path data
          in if \<not> ok
             then (w\<lparr>the_disk := remove_file (temp_remove_works os) d path\<rparr>, t\<lparr>m_filePath := ''''\<rparr>, Inl CantCreate)
             else (w\<lparr>the_disk := d\<rparr>, t\<lparr>m_filePath := path, m_isTempFile := True\<rparr>, Inr path))"

text \<open>
  The anonymous file: on Linux from \<open>memfd_create\<close>, on macOS a file of \<open>mkstemp\<close> whose name is
  removed at once (nothing has been written then, so that its bytes are those of the descriptor).
  \<open>Inl\<close>: the rest of \<open>create\<close> is to try a named file; None: \<open>write\<close> still runs.
\<close>

definition fd_path :: "int \<Rightarrow> string" where
  "fd_path fd = ''/dev/fd/'' @ to_string (nat fd)"

definition create_memfd ::
  "create_answers \<Rightarrow> machine \<Rightarrow> temp_file_copy \<Rightarrow> u8 list
    \<Rightarrow> ((machine \<times> temp_file_copy) + (machine \<times> temp_file_copy \<times> string)) option" where
  "create_memfd os w t data =
     (if new_fd os < 0 then Some (Inl (w, t\<lparr>m_fd := new_fd os\<rparr>))
      else case writeDescriptor (write_calls os) data 0 [] of
        None \<Rightarrow> None
      | Some (ok, out) \<Rightarrow>
          let w = w\<lparr>descriptors := (descriptors w)(new_fd os \<mapsto> out)\<rparr>
          in if ok
             then let path = fd_path (new_fd os)
                  in Some (Inr (w, t\<lparr>m_fd := new_fd os, m_filePath := path\<rparr>, path))
             else Some (Inl (close_fd w (new_fd os), t\<lparr>m_fd := - 1\<rparr>)))"

definition mkstemp_path :: "string \<Rightarrow> string \<Rightarrow> string" where
  "mkstemp_path directory suffix = path_append MacOS directory (''pmb887x-emu-'' @ suffix)"

definition create_mkstemp ::
  "create_answers \<Rightarrow> machine \<Rightarrow> temp_file_copy \<Rightarrow> u8 list
    \<Rightarrow> ((machine \<times> temp_file_copy) + (machine \<times> temp_file_copy \<times> string)) option" where
  "create_mkstemp os w t data =
     (case mkstemp_directory os of
        None \<Rightarrow> Some (Inl (w, t))
      | Some directory \<Rightarrow>
          if new_fd os < 0 then Some (Inl (w, t\<lparr>m_fd := new_fd os\<rparr>))
          else
            let name = mkstemp_path directory (mkstemp_suffix os);
                d = (the_disk w)(name \<mapsto> \<lparr>contents = [], permissions = 0x180\<rparr>);
                d = remove_file (unlink_works os) d name
            in case (if unlink_works os then writeDescriptor (write_calls os) data 0 [] else Some (False, [])) of
                 None \<Rightarrow> None
               | Some (ok, out) \<Rightarrow>
                   let w = w\<lparr>the_disk := d, descriptors := (descriptors w)(new_fd os \<mapsto> out)\<rparr>
                   in if ok
                      then let path = fd_path (new_fd os)
                           in Some (Inr (w, t\<lparr>m_fd := new_fd os, m_filePath := path\<rparr>, path))
                      else let w = close_fd w (new_fd os)
                           in Some (Inl (w\<lparr>the_disk := remove_file (mkstemp_remove_works os) d name\<rparr>,
                                t\<lparr>m_fd := - 1\<rparr>)))"

definition create_anonymous ::
  "platform \<Rightarrow> create_answers \<Rightarrow> machine \<Rightarrow> temp_file_copy \<Rightarrow> u8 list
    \<Rightarrow> ((machine \<times> temp_file_copy) + (machine \<times> temp_file_copy \<times> string)) option" where
  "create_anonymous system os w t data =
     (case system of
        Linux \<Rightarrow> create_memfd os w t data
      | MacOS \<Rightarrow> create_mkstemp os w t data
      | _ \<Rightarrow> Some (Inl (w, t)))"

definition create ::
  "platform \<Rightarrow> create_answers \<Rightarrow> machine \<Rightarrow> temp_file_copy \<Rightarrow> u8 list
    \<Rightarrow> (machine \<times> temp_file_copy \<times> (temp_error + string)) option" where
  "create system os w t data =
     (if m_filePath t \<noteq> '''' then Some (w, t, Inl AlreadyExists)
      else case create_anonymous system os w t data of
        None \<Rightarrow> None
      | Some (Inr (w, t, path)) \<Rightarrow> Some (w, t, Inr path)
      | Some (Inl (w, t)) \<Rightarrow> Some (create_named system os w t data))"

definition destroy :: "platform \<Rightarrow> bool \<Rightarrow> machine \<Rightarrow> temp_file_copy \<Rightarrow> machine" where
  "destroy system remove_ok w t =
     (let w = (if (system = Linux \<or> system = MacOS) \<and> m_fd t \<ge> 0 then close_fd w (m_fd t) else w)
      in if m_isTempFile t then w\<lparr>the_disk := remove_file remove_ok (the_disk w) (m_filePath t)\<rparr> else w)"

text \<open>What another process reads at a path: \<open>/dev/fd/n\<close> is the descriptor \<open>n\<close> it inherited.\<close>

definition visible_at :: "machine \<Rightarrow> temp_file_copy \<Rightarrow> u8 list option" where
  "visible_at w t = (if m_isTempFile t then readFile (the_disk w) (m_filePath t) else descriptors w (m_fd t))"

section \<open>Facts on the pieces\<close>

lemma remove_fresh: "d name = None \<Longrightarrow> remove_file works d name = d"
  by (auto simp: remove_file_def)

text \<open>The contract of the operations on one path: every other path keeps its file.\<close>

locale one_path =
  fixes step :: "disk \<Rightarrow> disk" and path :: string
  assumes other: "p \<noteq> path \<Longrightarrow> step d p = d p"
begin

lemma readFile_other: "p \<noteq> path \<Longrightarrow> readFile (step d) p = readFile d p"
  by (simp add: readFile_def other)

lemma undone: "d path = None \<Longrightarrow> remove_file True (step d) path = d"
  using other by (auto simp: remove_file_def)

lemma kept: "step d path = d path \<Longrightarrow> step d = d"
  by (rule ext) (metis other)

end

interpretation put: one_path "\<lambda>d. put_contents d path bytes" path for path bytes
  by unfold_locales (simp add: put_contents_def)

interpretation written_file: one_path "\<lambda>d. fst (writeFile outcome d path data)" path for outcome path data
  by unfold_locales (simp add: writeFile_def put.other split: write_outcome.split)

interpretation removed: one_path "\<lambda>d. remove_file works d path" path for works path
  by unfold_locales (simp add: remove_file_def)

lemma put_contents_other: "p \<noteq> path \<Longrightarrow> put_contents d path bytes p = d p"
  by (rule put.other)

lemma writeFile_other: "p \<noteq> path \<Longrightarrow> fst (writeFile outcome d path data) p = d p"
  by (rule written_file.other)

lemma writeFile_ok: "writeFile outcome d path data = (d', True) \<Longrightarrow> d' = put_contents d path data"
  by (auto simp: writeFile_def split: write_outcome.splits)

lemma remove_after_write:
  "d path = None \<Longrightarrow> remove_file True (fst (writeFile outcome d path data)) path = d"
  by (rule written_file.undone)

lemma writeDescriptor_whole:
  "already \<le> length data \<Longrightarrow> writeDescriptor calls data already out = Some (True, f) \<Longrightarrow> f = out @ drop already data"
proof (induction calls data already out rule: writeDescriptor.induct)
  case (1 calls data already out)
  show ?case
  proof (cases "already < length data")
    case False
    then show ?thesis using "1.prems" by (subst (asm) writeDescriptor.simps) simp
  next
    case more: True
    obtain call rest where calls: "calls = call # rest"
      using "1.prems" more by (cases calls) (simp_all add: writeDescriptor.simps [of "[]"])
    show ?thesis
    proof (cases call)
      case (Wrote written)
      then have "written \<noteq> 0" and
        run: "writeDescriptor rest data (already + written) (out @ chunk data already written) = Some (True, f)"
        using "1.prems" more calls by (simp_all add: writeDescriptor.simps [of "_ # _"] split: if_splits)
      show ?thesis
      proof (cases "already + written \<le> length data")
        case True
        then have "f = (out @ chunk data already written) @ drop (already + written) data"
          using "1.IH"(1) [OF _ calls Wrote \<open>written \<noteq> 0\<close>] more run by simp
        then show ?thesis by (simp add: chunk_def) (metis add.commute append_take_drop_id drop_drop)
      next
        case False
        then have "f = out @ chunk data already written"
          using run by (simp add: writeDescriptor.simps [of rest])
        then show ?thesis using False by (simp add: chunk_def)
      qed
    next
      case Interrupted
      then show ?thesis using 1 more calls by (simp add: writeDescriptor.simps [of "_ # _"])
    next
      case Failed
      then show ?thesis using "1.prems" more calls by (simp add: writeDescriptor.simps [of "_ # _"])
    qed
  qed
qed

definition productive :: "write_call \<Rightarrow> bool" where
  "productive call \<longleftrightarrow> (case call of Wrote n \<Rightarrow> 0 < n | _ \<Rightarrow> False)"

lemma productive_Wrote: "productive (Wrote n) \<longleftrightarrow> 0 < n"
  by (simp add: productive_def)

lemma writeDescriptor_returns:
  assumes "\<forall>call \<in> set calls. productive call \<or> call = Interrupted"
    and "length data - already \<le> length (filter productive calls)"
  shows "\<exists>f. writeDescriptor calls data already out = Some (True, f)"
  using assms
proof (induction calls arbitrary: already out)
  case Nil
  then show ?case by (simp add: writeDescriptor.simps)
next
  case (Cons call rest)
  show ?case
  proof (cases "already < length data")
    case False
    then show ?thesis by (simp add: writeDescriptor.simps)
  next
    case more: True
    show ?thesis
    proof (cases call)
      case (Wrote n)
      then have "0 < n" using Cons.prems(1) by (simp add: productive_def)
      moreover have "length data - (already + n) \<le> length (filter productive rest)"
        using Cons.prems(2) \<open>0 < n\<close> Wrote by (simp add: productive_Wrote)
      ultimately show ?thesis
        using Cons.IH [of "already + n"] Cons.prems(1) more Wrote by (simp add: writeDescriptor.simps [of "_ # _"])
    next
      case Interrupted
      then show ?thesis
        using Cons more by (simp add: writeDescriptor.simps [of "_ # _"] productive_def)
    next
      case Failed
      then show ?thesis using Cons.prems(1) by (simp add: productive_def)
    qed
  qed
qed

lemma temp_path_not_empty: "temp_path system directory n \<noteq> []"
  by (simp add: temp_path_def path_append_def)

lemma fd_path_not_empty: "fd_path fd \<noteq> []"
  by (simp add: fd_path_def)

lemma install_keeps:
  "keeps_target system os \<Longrightarrow>
    install system os d target replacement = (rename_file d replacement target, True) \<or>
    install system os d target replacement = (d, False)"
  by (auto simp: keeps_target_def install_def ReplaceFileW_def)

lemma to_string_not_empty: "to_string n \<noteq> []"
  by (subst to_string.simps) simp

lemma replaceFile_outcome:
  assumes exists: "\<And>t. canonical_path os = Some t \<Longrightarrow> d t \<noteq> None"
    and fresh: "\<And>n. replacement_path os = Some n \<Longrightarrow> d n = None"
    and keeps: "keeps_target system os"
    and run: "replaceFile system os d data = (ds, ok)"
  shows "(ok \<longrightarrow> (\<exists>t old. canonical_path os = Some t \<and> d t = Some old \<and>
        hd ds = d(t \<mapsto> \<lparr>contents = data, permissions = permissions old\<rparr>)))
    \<and> (\<not> ok \<and> remove_works os \<longrightarrow> hd ds = d)
    \<and> (\<forall>s \<in> set ds. \<forall>p. replacement_path os = Some p \<or> s p = d p \<or>
        (ok \<and> canonical_path os = Some p \<and> map_option contents (s p) = Some data))"
proof (cases "canonical_path os")
  case None
  then show ?thesis using run by (auto simp: replaceFile_def)
next
  case target: (Some t)
  then obtain old where old: "d t = Some old" using exists by blast
  show ?thesis
  proof (cases "replacement_path os")
    case None
    then show ?thesis using run target by (auto simp: replaceFile_def createReplacementFile_def)
  next
    case name: (Some n)
    have ne: "n \<noteq> t" "d n = None" using fresh [OF name] old by auto
    let ?d1 = "d(n \<mapsto> \<lparr>contents = [], permissions = (if isWindows system then 0x1A4 else 0x180)\<rparr>)"
    obtain d2 wrote where w: "writeFile (write_answer os) ?d1 n data = (d2, wrote)" by fastforce
    have d2: "p = n \<or> d2 p = d p" for p
      using writeFile_other [of p n "write_answer os" ?d1 data] w by auto
    have gone: "remove_file (remove_works os) x n = d" if "remove_works os" "\<And>p. p = n \<or> x p = d p" for x
      using that(1) ne by (intro ext) (use that(2) in \<open>auto simp: remove_file_def\<close>)
    have kept: "p = n \<or> remove_file (remove_works os) x n p = x p" for x p
      by (simp add: remove_file_def)
    show ?thesis
    proof (cases "wrote \<and> status_works os \<and> permissions_work os")
      case False
      then have "ds = [remove_file (remove_works os) d2 n, d2, ?d1, d]" "\<not> ok"
        using run target name w by (auto simp: replaceFile_def createReplacementFile_def Let_def split: if_splits)
      then show ?thesis using d2 gone [OF _ d2] kept [of _ d2] by (simp add: name) metis
    next
      case True
      then have new: "d2 n = Some \<lparr>contents = data, permissions = (if isWindows system then 0x1A4 else 0x180)\<rparr>"
        using writeFile_ok [of "write_answer os" ?d1 n data d2] w True by (simp add: put_contents_def)
      define d3 where "d3 = copy_permissions d2 t n"
      have d3: "d3 n = Some \<lparr>contents = data, permissions = permissions old\<rparr>" "\<And>p. p = n \<or> d3 p = d p"
        using d2 [of t] ne old new d2 by (auto simp: d3_def copy_permissions_def)
      have out: "(ds, ok) = (case install system os d3 t n of (d4, replaced) \<Rightarrow>
          if replaced then ([d4, d3, d2, ?d1, d], True)
          else ([remove_file (remove_works os) d4 n, d4, d3, d2, ?d1, d], False))"
        using run target name w True
        by (simp add: replaceFile_def createReplacementFile_def Let_def d3_def [symmetric])
      have renamed: "rename_file d3 n t = d(t \<mapsto> \<lparr>contents = data, permissions = permissions old\<rparr>)"
        using d3(1) ne by (intro ext) (use d3(2) in \<open>auto simp: rename_file_def\<close>)
      have d1: "p = n \<or> ?d1 p = d p" for p by simp
      from install_keeps [OF keeps, of d3 t n] show ?thesis
      proof
        assume "install system os d3 t n = (rename_file d3 n t, True)"
        then have ds: "ds = [rename_file d3 n t, d3, d2, ?d1, d]" "ok" using out by simp_all
        have "n = p \<or> x p = d p \<or> t = p \<and> map_option contents (x p) = Some data" if "x \<in> set ds" for x p
          using that d1 [of p] d2 [of p] d3(2) [of p] unfolding ds(1) renamed by (auto split: if_splits)
        then show ?thesis using ds target name old renamed by simp
      next
        assume "install system os d3 t n = (d3, False)"
        then have ds: "ds = [remove_file (remove_works os) d3 n, d3, d3, d2, ?d1, d]" "\<not> ok" using out by simp_all
        have "n = p \<or> x p = d p" if "x \<in> set ds" for x p
          using that d1 [of p] d2 [of p] d3(2) [of p] kept [of p d3] unfolding ds(1) by auto
        then show ?thesis using gone [OF _ d3(2)] ds name by simp
      qed
    qed
  qed
qed

text \<open>The clean-up of the first attempt on macOS: the name of the file is gone after it.\<close>

definition cleans_up :: "platform \<Rightarrow> create_answers \<Rightarrow> bool" where
  "cleans_up system os \<longleftrightarrow> system \<noteq> MacOS \<or> unlink_works os \<or> mkstemp_remove_works os"

lemma close_opened:
  "descriptors v fd = None \<Longrightarrow> close_fd (v\<lparr>descriptors := (descriptors v)(fd \<mapsto> f)\<rparr>) fd = v"
  by (simp add: close_fd_def fun_upd_idem)

lemma create_memfd_outcome:
  assumes fd: "descriptors w (new_fd os) = None"
    and run: "create_memfd os w t data = Some r"
  shows "r = Inl (w, t\<lparr>m_fd := - 1\<rparr>) \<or> new_fd os < 0 \<and> r = Inl (w, t\<lparr>m_fd := new_fd os\<rparr>) \<or>
    0 \<le> new_fd os \<and> r = Inr (w\<lparr>descriptors := (descriptors w)(new_fd os \<mapsto> data)\<rparr>,
      t\<lparr>m_fd := new_fd os, m_filePath := fd_path (new_fd os)\<rparr>, fd_path (new_fd os))"
proof (cases "new_fd os < 0")
  case True
  then show ?thesis using run by (simp add: create_memfd_def)
next
  case False
  then obtain ok f where wd: "writeDescriptor (write_calls os) data 0 [] = Some (ok, f)"
    using run by (auto simp: create_memfd_def split: option.splits)
  show ?thesis
  proof (cases ok)
    case True
    then have "f = data" using writeDescriptor_whole [of 0 data "write_calls os" "[]" f] wd by simp
    then show ?thesis using run False wd True by (simp add: create_memfd_def Let_def)
  next
    case ok: False
    then show ?thesis using run False wd close_opened [OF fd] by (simp add: create_memfd_def Let_def)
  qed
qed

text \<open>Where \<open>mkstemp\<close> made a new file, its name does not outlive the attempt.\<close>

lemma create_mkstemp_memfd:
  assumes new: "\<And>directory. mkstemp_directory os = Some directory \<Longrightarrow>
      the_disk w (mkstemp_path directory (mkstemp_suffix os)) = None"
    and "unlink_works os" and "mkstemp_directory os \<noteq> None"
  shows "create_mkstemp os w t data = create_memfd os w t data"
proof -
  obtain directory where d: "mkstemp_directory os = Some directory" using assms(3) by blast
  define n where "n = mkstemp_path directory (mkstemp_suffix os)"
  have none: "the_disk w n = None" unfolding n_def by (rule new [OF d])
  then have "remove_file True ((the_disk w)(n \<mapsto> x)) n = the_disk w" "remove_file works (the_disk w) n = the_disk w"
    for x works by (auto simp: remove_file_def)
  then show ?thesis
    using assms(2) d n_def [symmetric]
    by (auto simp: create_mkstemp_def create_memfd_def Let_def close_fd_def split: option.split)
qed

lemma create_anonymous_outcome:
  assumes fd: "descriptors w (new_fd os) = None"
    and new: "\<And>directory. system = MacOS \<Longrightarrow> mkstemp_directory os = Some directory \<Longrightarrow>
      the_disk w (mkstemp_path directory (mkstemp_suffix os)) = None"
    and clean: "cleans_up system os"
    and run: "create_anonymous system os w new_temp_file_copy data = Some r"
  shows "(\<exists>n < 0. r = Inl (w, new_temp_file_copy\<lparr>m_fd := n\<rparr>)) \<or>
    (system = Linux \<or> system = MacOS) \<and> 0 \<le> new_fd os \<and>
     r = Inr (w\<lparr>descriptors := (descriptors w)(new_fd os \<mapsto> data)\<rparr>,
      new_temp_file_copy\<lparr>m_fd := new_fd os, m_filePath := fd_path (new_fd os)\<rparr>, fd_path (new_fd os))"
proof -
  have minus: "(- 1 :: int) < 0" by simp
  have same: "new_temp_file_copy = new_temp_file_copy\<lparr>m_fd := - 1\<rparr>" by (simp add: new_temp_file_copy_def)
  have anonymous: ?thesis if "create_memfd os w new_temp_file_copy data = Some r" "system = Linux \<or> system = MacOS"
    using create_memfd_outcome [OF fd that(1)] minus that(2) by blast
  have mac: ?thesis if system: "system = MacOS"
  proof (cases "mkstemp_directory os = None \<or> unlink_works os \<or> new_fd os < 0")
    case True
    then consider "mkstemp_directory os = None" | "unlink_works os" "mkstemp_directory os \<noteq> None"
      | "new_fd os < 0" "mkstemp_directory os \<noteq> None" by fastforce
    then show ?thesis
    proof cases
      case 1
      then have "r = Inl (w, new_temp_file_copy)"
        using run system by (simp add: create_anonymous_def create_mkstemp_def)
      then show ?thesis using same minus by metis
    next
      case 2
      then show ?thesis
        using create_mkstemp_memfd [OF new [OF system]] run system
        by (intro anonymous) (simp_all add: create_anonymous_def)
    next
      case 3
      then show ?thesis using run system by (auto simp: create_anonymous_def create_mkstemp_def)
    qed
  next
    case False
    then obtain directory where d: "mkstemp_directory os = Some directory" by (cases "mkstemp_directory os") auto
    define n where "n = mkstemp_path directory (mkstemp_suffix os)"
    have none: "the_disk w n = None" unfolding n_def by (rule new [OF system d])
    have "mkstemp_remove_works os" using clean system False by (simp add: cleans_up_def)
    then have "r = Inl (w, new_temp_file_copy\<lparr>m_fd := - 1\<rparr>)"
      using run system False d none fd
      by (auto simp: create_anonymous_def create_mkstemp_def n_def [symmetric] Let_def close_fd_def
          remove_file_def fun_upd_idem)
    then show ?thesis using minus by blast
  qed
  show ?thesis
  proof (cases system)
    case Linux
    then show ?thesis using run by (intro anonymous) (simp_all add: create_anonymous_def)
  next
    case MacOS
    then show ?thesis by (rule mac)
  next
    case Windows
    then have "r = Inl (w, new_temp_file_copy)" using run by (simp add: create_anonymous_def)
    then show ?thesis using same minus by metis
  next
    case FreeBSD
    then have "r = Inl (w, new_temp_file_copy)" using run by (simp add: create_anonymous_def)
    then show ?thesis using same minus by metis
  qed
qed

lemma create_named_outcome:
  assumes t: "m_fd t < 0" "m_filePath t = ''''" "\<not> m_isTempFile t"
    and fresh: "\<And>directory. temp_directory os = Some directory \<Longrightarrow>
      the_disk w (temp_path system directory (random_number os)) = None"
    and run: "create_named system os w t data = (w', t', result)"
  shows "case result of
      Inr path \<Rightarrow> m_filePath t' = path \<and> visible_at w' t' = Some data \<and>
        create system os' w' t' data' = Some (w', t', Inl AlreadyExists) \<and> destroy system True w' t' = w
    | Inl err \<Rightarrow> err = CantCreate \<and> (temp_remove_works os \<longrightarrow> w' = w \<and> destroy system remove_ok w' t' = w)"
proof (cases "temp_directory os")
  case None
  then show ?thesis using run t by (auto simp: create_named_def destroy_def)
next
  case (Some directory)
  define p where "p = temp_path system directory (random_number os)"
  have none: "the_disk w p = None" unfolding p_def by (rule fresh [OF Some])
  obtain d ok where wr: "writeFile (temp_write os) (the_disk w) p data = (d, ok)" by fastforce
  have undo: "remove_file True d p = the_disk w"
    using remove_after_write [of "the_disk w" p, OF none, of "temp_write os" data] wr by simp
  show ?thesis
  proof (cases ok)
    case True
    then have out: "w' = w\<lparr>the_disk := d\<rparr>" "t' = t\<lparr>m_filePath := p, m_isTempFile := True\<rparr>" "result = Inr p"
      using run Some wr by (auto simp: create_named_def p_def [symmetric] Let_def)
    have "readFile d p = Some data"
      using writeFile_ok [of "temp_write os" "the_disk w" p data d] wr True
      by (simp add: readFile_def put_contents_def)
    then show ?thesis
      using out t undo temp_path_not_empty [of system directory "random_number os"]
      by (simp add: visible_at_def create_def destroy_def p_def [symmetric])
  next
    case False
    then have out: "w' = w\<lparr>the_disk := remove_file (temp_remove_works os) d p\<rparr>"
      "t' = t\<lparr>m_filePath := ''''\<rparr>" "result = Inl CantCreate"
      using run Some wr by (auto simp: create_named_def p_def [symmetric] Let_def)
    then show ?thesis using t undo by (auto simp: destroy_def)
  qed
qed

lemma temp_copy_outcome:
  assumes fd: "descriptors w (new_fd os) = None"
    and new: "\<And>directory. system = MacOS \<Longrightarrow> mkstemp_directory os = Some directory \<Longrightarrow>
      the_disk w (mkstemp_path directory (mkstemp_suffix os)) = None"
    and clean: "cleans_up system os"
    and fresh: "\<And>directory. temp_directory os = Some directory \<Longrightarrow>
      the_disk w (temp_path system directory (random_number os)) = None"
    and run: "create system os w new_temp_file_copy data = Some (w', t', result)"
  shows "case result of
      Inr path \<Rightarrow> m_filePath t' = path \<and> visible_at w' t' = Some data \<and>
        create system os' w' t' data' = Some (w', t', Inl AlreadyExists) \<and> destroy system True w' t' = w
    | Inl err \<Rightarrow> err = CantCreate \<and> (temp_remove_works os \<longrightarrow> w' = w \<and> destroy system remove_ok w' t' = w)"
proof -
  obtain r where r: "create_anonymous system os w new_temp_file_copy data = Some r"
    using run by (auto simp: create_def new_temp_file_copy_def split: option.splits)
  from create_anonymous_outcome [OF fd new clean r] show ?thesis
  proof
    assume "\<exists>n < 0. r = Inl (w, new_temp_file_copy\<lparr>m_fd := n\<rparr>)"
    then obtain n where n: "n < 0" "r = Inl (w, new_temp_file_copy\<lparr>m_fd := n\<rparr>)" by blast
    then have named: "create_named system os w (new_temp_file_copy\<lparr>m_fd := n\<rparr>) data = (w', t', result)"
      using run r by (simp add: create_def new_temp_file_copy_def)
    show ?thesis
      by (rule create_named_outcome [OF _ _ _ fresh named]) (simp_all add: n new_temp_file_copy_def)
  next
    assume a: "(system = Linux \<or> system = MacOS) \<and> 0 \<le> new_fd os \<and>
      r = Inr (w\<lparr>descriptors := (descriptors w)(new_fd os \<mapsto> data)\<rparr>,
        new_temp_file_copy\<lparr>m_fd := new_fd os, m_filePath := fd_path (new_fd os)\<rparr>, fd_path (new_fd os))"
    then have "w' = w\<lparr>descriptors := (descriptors w)(new_fd os \<mapsto> data)\<rparr>"
      "t' = new_temp_file_copy\<lparr>m_fd := new_fd os, m_filePath := fd_path (new_fd os)\<rparr>"
      "result = Inr (fd_path (new_fd os))"
      using run r by (simp_all add: create_def new_temp_file_copy_def)
    then show ?thesis
      using a close_opened [OF fd] fd_path_not_empty
      by (auto simp: visible_at_def create_def destroy_def new_temp_file_copy_def)
  qed
qed

section \<open>Properties\<close>


definition sample_answers :: "bool \<Rightarrow> replace_call \<Rightarrow> replace_answers" where
  "sample_answers works answer =
     \<lparr>canonical_path = Some ''/f'', replacement_path = Some ''/f.tmp.abc'', write_answer = Written,
      status_works = True, permissions_work = True, rename_works = works, replace_answer = answer, remove_works = True\<rparr>"

lemma sample_answers_fails:
  "snd (replaceFile Linux (sample_answers False answer) d data) = False"
  by (simp add: replaceFile_def sample_answers_def createReplacementFile_def writeFile_def install_def
      isWindows_def Let_def)


text \<open>C39. On Windows \<open>replaceFile\<close> can lose the file.  \<open>ReplaceFileW\<close> is called without a name for a
  backup, and its documentation says that it may then fail with the target gone and the
  replacement under its own name.  The code answers every failure by removing the replacement:
  both the old bytes and the new ones, complete on the disk a moment before, are gone, and all that
  the caller learns is that the file was not replaced.\<close>

theorem replaceFile_windows_loss:
  assumes target: "canonical_path os = Some t" "d t = Some old"
    and new: "replacement_path os = Some n" "d n = None"
    and works: "write_answer os = Written" "status_works os" "permissions_work os" "remove_works os"
    and lost: "replace_answer os = TargetLost"
  shows "case replaceFile Windows os d data of (disks, ok) \<Rightarrow>
    \<not> ok \<and> hd disks = d(t := None) \<and> readFile (disks ! 1) n = Some data"
proof -
  have "n \<noteq> t" using target new by auto
  then show ?thesis
    using assms
    by (auto simp: replaceFile_def createReplacementFile_def writeFile_def put_contents_def install_def
        ReplaceFileW_def copy_permissions_def remove_file_def isWindows_def readFile_def Let_def)
qed

theorem replaceFile_windows_loss_witness:
  "hd (fst (replaceFile Windows (sample_answers False TargetLost)
      [''/f'' \<mapsto> \<lparr>contents = [1], permissions = 0x1A4\<rparr>] [2, 3])) = Map.empty"
  using replaceFile_windows_loss [of "sample_answers False TargetLost" "''/f''"
      "[''/f'' \<mapsto> \<lparr>contents = [1], permissions = 0x1A4\<rparr>]" _ "''/f.tmp.abc''" "[2, 3]"]
  by (auto simp: sample_answers_def split: prod.splits)

text \<open>The loop of \<open>writeDescriptor\<close>: when it reports success the file has received exactly the
  bytes that were left, however the calls split them and however often they were interrupted; and
  it does report success as soon as the calls that are not interrupted each write something and
  there are as many of them as bytes left.\<close>

theorem writeDescriptor_correct:
  assumes "already \<le> length data"
  shows "(\<forall>f. writeDescriptor calls data already out = Some (True, f) \<longrightarrow> f = out @ drop already data)
    \<and> ((\<forall>call \<in> set calls. productive call \<or> call = Interrupted) \<and>
        length data - already \<le> length (filter productive calls) \<longrightarrow>
       writeDescriptor calls data already out = Some (True, out @ drop already data))"
  using writeDescriptor_whole [OF assms] writeDescriptor_returns [of calls data already out] by blast

theorem writeDescriptor_correct_witness:
  "writeDescriptor [Wrote 2, Interrupted, Wrote 1, Wrote 9] [1, 2, 3] 0 [] = Some (True, [1, 2, 3])"
  using writeDescriptor_correct [of 0 "[1, 2, 3]" "[Wrote 2, Interrupted, Wrote 1, Wrote 9]" "[]"]
  by (simp add: productive_def)


definition sample_create :: "bool \<Rightarrow> create_answers" where
  "sample_create works =
     \<lparr>new_fd = 5, mkstemp_directory = Some ''/tmp'', mkstemp_suffix = ''aaaaaa'', unlink_works = works,
      mkstemp_remove_works = True, write_calls = [Interrupted, Wrote 2], temp_directory = None, random_number = 0,
      temp_write = OpenFails, temp_remove_works = True\<rparr>"

lemma sample_create_runs:
  "\<exists>w' t'. create MacOS (sample_create True) \<lparr>the_disk = Map.empty, descriptors = Map.empty\<rparr>
     new_temp_file_copy [7, 8] = Some (w', t', Inr ''/dev/fd/5'')"
proof -
  have five: "to_string 5 = ''5''" by code_simp
  show ?thesis
    by (simp add: create_def create_anonymous_def create_mkstemp_def sample_create_def new_temp_file_copy_def Let_def
        writeDescriptor.simps fd_path_def five chunk_def)
qed


end
