(* ===== verification/Recovery.thy ===== *)
theory Recovery
  imports Bruteforce Esn Files
begin

text \<open>
  The end of src/siemens/fullflash.cpp: \<open>readFullflash\<close>, \<open>recoverIdentity\<close> and \<open>recoverOtp\<close>, which
  join the parser, the identity reader, the ESN cache and the ESN search.  The disk is the one of the
  theory Files; the cache reads and writes it as text.  The clock and the log are left out.  What the
  runs of the ESN search returned is the argument \<open>sweep\<close>, as in the theory Bruteforce.
\<close>

section \<open>The code\<close>

record identity =
  identity_esn :: string
  identity_imei :: string

record otp =
  otp0 :: string
  otp1 :: string

datatype recovery_failure =
    CantReadFullflash string
  | UnknownBootcore
  | UnknownFullflash
  | EsnNotFound
  | EepromThrew eeprom_error
  | SearchThrew recover_error
  | OtpThrew otp_error

record cache_library =
  toml_parser :: "string \<Rightarrow> toml_table option"
  toml_formatter :: "(string \<times> string) list \<Rightarrow> string"
  cache_writable :: "string \<Rightarrow> bool"

definition readFullflash :: "disk \<Rightarrow> string \<Rightarrow> recovery_failure + u8 list" where
  "readFullflash d path = (case readFile d path of None \<Rightarrow> Inl (CantReadFullflash path) | Some data \<Rightarrow> Inr data)"

text \<open>The disk as the text streams of src/siemens/esn.cpp see it.\<close>

definition texts :: "disk \<Rightarrow> files" where
  "texts d = (\<lambda>path. map_option (\<lambda>f. string_of_bytes (contents f)) (d path))"

text \<open>The try block around the cache: an exception leaves the disk as it is and becomes a warning.\<close>

definition cache_identity :: "cache_library \<Rightarrow> disk \<Rightarrow> string \<Rightarrow> fullflash_info \<Rightarrow> u32 \<Rightarrow> disk" where
  "cache_identity lib d path info esn =
     (case writeEsnCache (toml_formatter lib) (cache_writable lib) (texts d) path info esn of
        Inl _ \<Rightarrow> d
      | Inr files \<Rightarrow> (case files (path @ ''.esn'') of
          None \<Rightarrow> d
        | Some saved \<Rightarrow> put_contents d (path @ ''.esn'') (bytes_of_string saved)))"

definition recoverIdentity ::
  "cache_library \<Rightarrow> esn_runs \<Rightarrow> disk \<Rightarrow> string \<Rightarrow> u8 list \<Rightarrow> disk \<times> (recovery_failure + identity)" where
  "recoverIdentity lib sweep d path data =
     (case parsePartitions data of
        Inl err \<Rightarrow> (d, Inl (EepromThrew err))
      | Inr e \<Rightarrow>
          (case getFullflashInfo e data of
             Inl err \<Rightarrow> (d, Inl (EepromThrew err))
           | Inr None \<Rightarrow> (d, Inl UnknownFullflash)
           | Inr (Some info) \<Rightarrow>
               let canUseCache = (info_hash info \<noteq> []);
                   cached = (if canUseCache then readEsnCache (toml_parser lib) (texts d) path (info_hash info) else None)
               in (case cached of
                    Some esn \<Rightarrow> (d, Inr \<lparr>identity_esn = esnToHex esn, identity_imei = info_imei info\<rparr>)
                  | None \<Rightarrow>
                      (case recoverEsn None sweep e info of
                         Inl err \<Rightarrow> (d, Inl (SearchThrew err))
                       | Inr (ok, recoveredEsn) \<Rightarrow>
                           if \<not> ok then (d, Inl EsnNotFound)
                           else let d = (if canUseCache then cache_identity lib d path info recoveredEsn else d)
                                in (d, Inr \<lparr>identity_esn = esnToHex recoveredEsn, identity_imei = info_imei info\<rparr>)))))"

definition otp_of_identity :: "identity \<Rightarrow> otp_error + otp" where
  "otp_of_identity who =
     ebind (esnToOtp (identity_esn who)) (\<lambda>a. ebind (imeiToOtp (identity_imei who)) (\<lambda>b.
       Inr \<lparr>otp0 = a, otp1 = b\<rparr>))"

definition recoverOtp ::
  "cache_library \<Rightarrow> esn_runs \<Rightarrow> disk \<Rightarrow> string \<Rightarrow> disk \<times> (recovery_failure + otp option)" where
  "recoverOtp lib sweep d path =
     (case readFullflash d path of
        Inl err \<Rightarrow> (d, Inl err)
      | Inr data \<Rightarrow>
          (case getBootcoreLayout data of
             None \<Rightarrow> (d, Inl UnknownBootcore)
           | Some bootcore \<Rightarrow>
               if isErasedData data (hashOffset bootcore) 16 then (d, Inr None)
               else (case recoverIdentity lib sweep d path data of
                   (d', Inl err) \<Rightarrow> (d', Inl err)
                 | (d', Inr who) \<Rightarrow>
                     (case otp_of_identity who of
                        Inl err \<Rightarrow> (d', Inl (OtpThrew err))
                      | Inr otp \<Rightarrow> (d', Inr (Some otp))))))"

section \<open>The cache on the disk\<close>

lemma string_of_bytes_of_string [simp]: "string_of_bytes (bytes_of_string s) = s"
proof -
  have "char_of (unat (of_char c :: u8)) = c" for c :: char
  proof -
    have "(of_char c :: u8) = word_of_nat (of_char c)" by (simp add: of_nat_of_char)
    then have "unat (of_char c :: u8) = of_char c mod 256" by (simp only: unsigned_of_nat take_bit_eq_mod) simp
    then show ?thesis by simp
  qed
  then show ?thesis by (simp add: string_of_bytes_def bytes_of_string_def comp_def)
qed

interpretation cache: one_path "\<lambda>d. cache_identity lib d path info esn" "path @ ''.esn''" for lib path info esn
  by unfold_locales (simp add: cache_identity_def put.other split: sum.split option.split)

lemma cache_identity_frame: "p \<noteq> path @ ''.esn'' \<Longrightarrow> cache_identity lib d path info esn p = d p"
  by (rule cache.other)

lemma cache_identity_kept: "d (path @ ''.esn'') \<noteq> None \<Longrightarrow> cache_identity lib d path info esn = d"
  by (auto simp: cache_identity_def writeEsnCache_def texts_def)

lemma readFile_cong: "d' path = d path \<Longrightarrow> readFile d' path = readFile d path"
  by (simp add: readFile_def)

lemma writeEsnCache_reads:
  assumes toml: "\<And>kvs. distinct (map fst kvs) \<Longrightarrow> toml_parse (toml_format kvs @ [CHR 10]) = Some (map_of kvs)"
    and saved: "writeEsnCache toml_format writable fs path info esn = Inr fs'"
    and cache: "fs'' (path @ ''.esn'') = fs' (path @ ''.esn'')" and size16: "length (info_hash info) = 16"
  shows "readEsnCache toml_parse fs'' path (info_hash info) = Some esn"
proof -
  have "fs'' (path @ ''.esn'') = Some (toml_format
      [(''ESN'', esnToHex esn), (''IMEI'', info_imei info), (''HASH'', bytesToHex (info_hash info)),
       (''BKEY'', bytesToHex (info_bkey info)), (''SKEY'', bytesToHex (info_skey info))] @ [CHR 10])"
    using saved cache by (auto simp: writeEsnCache_def Let_def split: if_splits)
  then show ?thesis using size16 by (auto simp: readEsnCache_def toml)
qed

lemma cache_identity_reads:
  assumes toml: "\<And>kvs. distinct (map fst kvs) \<Longrightarrow> toml_parser lib (toml_formatter lib kvs @ [CHR 10]) = Some (map_of kvs)"
    and new: "d (path @ ''.esn'') = None" and "cache_writable lib (path @ ''.esn'')"
    and size16: "length (info_hash info) = 16"
  shows "readEsnCache (toml_parser lib) (texts (cache_identity lib d path info esn)) path (info_hash info) = Some esn"
proof -
  have none: "texts d (path @ ''.esn'') = None" using new by (simp add: texts_def)
  obtain fs' where saved: "writeEsnCache (toml_formatter lib) (cache_writable lib) (texts d) path info esn = Inr fs'"
    using assms(3) none by (simp add: writeEsnCache_def)
  have "texts (cache_identity lib d path info esn) (path @ ''.esn'') = fs' (path @ ''.esn'')"
    using saved none assms(3)
    by (auto simp: cache_identity_def texts_def put_contents_def writeEsnCache_def)
  with toml saved size16 show ?thesis by (intro writeEsnCache_reads) auto
qed

section \<open>One run\<close>

text \<open>The identity of a fullflash whose store and identity could be read, on each branch.\<close>

lemma recoverIdentity_known:
  assumes "parsePartitions data = Inr e" and "getFullflashInfo e data = Inr (Some info)" and "info_hash info \<noteq> []"
  shows "recoverIdentity lib sweep d path data =
    (case readEsnCache (toml_parser lib) (texts d) path (info_hash info) of
       Some esn \<Rightarrow> (d, Inr \<lparr>identity_esn = esnToHex esn, identity_imei = info_imei info\<rparr>)
     | None \<Rightarrow> (case recoverEsn None sweep e info of
         Inl err \<Rightarrow> (d, Inl (SearchThrew err))
       | Inr (ok, esn) \<Rightarrow> if \<not> ok then (d, Inl EsnNotFound)
           else (cache_identity lib d path info esn, Inr \<lparr>identity_esn = esnToHex esn, identity_imei = info_imei info\<rparr>)))"
  using assms by (auto simp: recoverIdentity_def Let_def split: option.split sum.split prod.split)

lemma recoverIdentity_frame:
  "recoverIdentity lib sweep d path data = (d', r) \<Longrightarrow> p \<noteq> path @ ''.esn'' \<Longrightarrow> d' p = d p"
  by (auto simp: recoverIdentity_def Let_def cache_identity_frame split: sum.splits option.splits prod.splits if_splits)

lemma recoverIdentity_kept:
  "recoverIdentity lib sweep d path data = (d', r) \<Longrightarrow> d (path @ ''.esn'') \<noteq> None \<Longrightarrow> d' = d"
  by (auto simp: recoverIdentity_def Let_def cache_identity_kept split: sum.splits option.splits prod.splits if_splits)

lemma otp_of_identity_hex:
  "otp_of_identity \<lparr>identity_esn = esnToHex esn, identity_imei = imei\<rparr> = Inr x \<longleftrightarrow>
    esnToOtp (esnToHex esn) = Inr (otp0 x) \<and> imeiToOtp imei = Inr (otp1 x)"
  by (cases x) (auto simp: otp_of_identity_def)

text \<open>What one run of \<open>recoverOtp\<close> with a result went through.\<close>

lemma recoverOtp_Some:
  assumes "recoverOtp lib sweep d path = (d', Inr (Some codes))"
  obtains data bootcore who where "readFile d path = Some data" "getBootcoreLayout data = Some bootcore"
    "\<not> isErasedData data (hashOffset bootcore) 16" "recoverIdentity lib sweep d path data = (d', Inr who)"
    "otp_of_identity who = Inr codes"
  using assms by (auto simp: recoverOtp_def readFullflash_def split: option.splits if_splits prod.splits sum.splits)

lemma recoverIdentity_Inr:
  assumes "recoverIdentity lib sweep d path data = (d', Inr who)"
  obtains e info where "parsePartitions data = Inr e" "getFullflashInfo e data = Inr (Some info)"
  using assms by (auto simp: recoverIdentity_def split: sum.splits option.splits)

lemma image_info:
  assumes "parsePartitions data = Inr e" and "getFullflashInfo e data = Inr (Some info)"
    and "getBootcoreLayout data = Some bootcore" and "\<not> isErasedData data (hashOffset bootcore) 16"
  shows "info_ok info \<and> length (info_hash info) = 16 \<and> info_hash info = chunk data (hashOffset bootcore) 16"
proof -
  have fits: "hashOffset bootcore + 16 \<le> length data" using assms(3) by (auto elim: getBootcoreLayout_Some)
  show ?thesis
    by (rule getFullflashInfo_cases [OF conjunct1 [OF parsePartitions_wf [OF assms(1)]] assms(3)])
      (use assms fits in auto)
qed

lemma recoverOtp_eeprom: "recoverOtp lib sweep d path = (d', Inl (EepromThrew err)) \<Longrightarrow> \<not> is_oob err"
proof -
  assume "recoverOtp lib sweep d path = (d', Inl (EepromThrew err))"
  then obtain data bootcore where layout: "getBootcoreLayout data = Some bootcore"
    and who: "recoverIdentity lib sweep d path data = (d', Inl (EepromThrew err))"
    by (auto simp: recoverOtp_def readFullflash_def split: option.splits if_splits prod.splits sum.splits)
  show ?thesis
  proof (cases "parsePartitions data")
    case (Inl err')
    have "never is_oob (parsePartitions data)" unfolding parsePartitions_def by (rule scan_loop_safe)
    then show ?thesis using who Inl by (simp add: recoverIdentity_def)
  next
    case (Inr e)
    have wf: "eeprom_wf e" using parsePartitions_wf [OF Inr] by simp
    show ?thesis
      by (rule getFullflashInfo_cases [OF wf layout])
        (use who Inr in \<open>auto simp: recoverIdentity_def Let_def split: option.splits sum.splits prod.splits if_splits\<close>)
  qed
qed

lemma recoverOtp_search:
  assumes "sweeps hardware 0 None sweep"
  shows "recoverOtp lib sweep d path \<noteq> (d', Inl (SearchThrew err))"
proof
  assume "recoverOtp lib sweep d path = (d', Inl (SearchThrew err))"
  then obtain data where who: "recoverIdentity lib sweep d path data = (d', Inl (SearchThrew err))"
    by (auto simp: recoverOtp_def readFullflash_def split: option.splits if_splits prod.splits sum.splits)
  then obtain e info where e: "parsePartitions data = Inr e" and "recoverEsn None sweep e info = Inl err"
    by (auto simp: recoverIdentity_def Let_def split: option.splits sum.splits prod.splits if_splits)
  then show False
    using recoverEsn_ok [OF assms conjunct1 [OF parsePartitions_wf [OF e]], of info] by simp
qed

lemma recoverOtp_frame:
  assumes "recoverOtp lib sweep d path = (d', r)"
  shows "p = path @ ''.esn'' \<or> d' p = d p" and "d (path @ ''.esn'') \<noteq> None \<Longrightarrow> d' = d"
proof -
  have "d' = d \<or> (\<exists>data x. recoverIdentity lib sweep d path data = (d', x))"
    using assms by (auto simp: recoverOtp_def split: sum.splits option.splits if_splits prod.splits)
  then have "d' p = d p" if "p \<noteq> path @ ''.esn''" using recoverIdentity_frame that by blast
  then show "p = path @ ''.esn'' \<or> d' p = d p" by argo
  show "d' = d" if "d (path @ ''.esn'') \<noteq> None"
    using \<open>d' = d \<or> _\<close> recoverIdentity_kept that by blast
qed

lemma decides_explains: "decides E ms (True, v) \<Longrightarrow> \<exists>m. E m v"
  by (induction ms) (auto split: if_splits)

lemma recoverOtp_explained:
  assumes sw: "sweeps hardware 0 None sweep" and run: "recoverOtp lib sweep d path = (d', Inr (Some codes))"
  shows "\<exists>data e info esn. readFile d path = Some data \<and> parsePartitions data = Inr e \<and>
     getFullflashInfo e data = Inr (Some info) \<and> esnToOtp (esnToHex esn) = Inr (otp0 codes) \<and>
     imeiToOtp (info_imei info) = Inr (otp1 codes) \<and>
     (readEsnCache (toml_parser lib) (texts d) path (info_hash info) = Some esn \<or> (\<exists>m. explains e info m esn))"
proof (rule recoverOtp_Some [OF run])
  fix data bootcore who
  assume data: "readFile d path = Some data" and layout: "getBootcoreLayout data = Some bootcore"
    and hash: "\<not> isErasedData data (hashOffset bootcore) 16"
    and who: "recoverIdentity lib sweep d path data = (d', Inr who)" and codes: "otp_of_identity who = Inr codes"
  obtain e info where e: "parsePartitions data = Inr e" and info: "getFullflashInfo e data = Inr (Some info)"
    by (rule recoverIdentity_Inr [OF who])
  have ne: "info_hash info \<noteq> []" using image_info [OF e info layout hash] by auto
  obtain esn where who': "who = \<lparr>identity_esn = esnToHex esn, identity_imei = info_imei info\<rparr>"
    and source: "readEsnCache (toml_parser lib) (texts d) path (info_hash info) = Some esn \<or>
      recoverEsn None sweep e info = Inr (True, esn)"
    using who by (auto simp: recoverIdentity_known [OF e info ne] split: option.splits sum.splits prod.splits if_splits)
  have "\<exists>m. explains e info m esn" if "recoverEsn None sweep e info = Inr (True, esn)"
    using recoverEsn_spec [OF sw conjunct1 [OF parsePartitions_wf [OF e]] that] by (rule decides_explains)
  then show ?thesis
    using data e info source codes unfolding who' otp_of_identity_hex by blast
qed

section \<open>A phone image\<close>

text \<open>An erased image with a boot core, names, an IMEI and the HASH that has a known ESN; its store is empty.\<close>

definition phone_image :: "u8 list" where
  "phone_image = blit (blit sample_fullflash 0x238 RECALCULATED_HASH) 0x65C (bytes_of_string ''490154203237518'')"

lemma length_hash [simp]: "length RECALCULATED_HASH = 16" by (simp add: RECALCULATED_HASH_def)

lemma length_phone_image [simp]: "length phone_image = 0x90000"
  by (simp add: phone_image_def bytes_of_string_def)

lemma phone_image_fields:
  "chunk phone_image 0x238 16 = RECALCULATED_HASH" "chunk phone_image 0x65C 15 = bytes_of_string ''490154203237518''"
  by (simp_all add: phone_image_def chunk_blit_other bytes_of_string_def)

lemma phone_image_layout: "getBootcoreLayout phone_image = getBootcoreLayout sample_fullflash"
  by (rule getBootcoreLayout_cong) (auto simp: layout_bytes_def phone_image_def nth_blit bytes_of_string_def)

lemma phone_image_strings: "readString phone_image VENDOR_OFFSET 16 = readString sample_fullflash VENDOR_OFFSET 16"
  "readString phone_image MODEL_OFFSET 16 = readString sample_fullflash MODEL_OFFSET 16"
  by (simp_all add: readString_chunk phone_image_def chunk_blit_other VENDOR_OFFSET_def MODEL_OFFSET_def bytes_of_string_def)

lemma phone_image_scan:
  assumes "k < 9"
  shows "readPartitionType phone_image X65 (k * PARTITION_STEP) = Inr UNKNOWN_PARTITION"
    and "readPartitionType phone_image X85 (k * PARTITION_STEP) = Inr UNKNOWN_PARTITION"
proof -
  have k: "k \<in> {0, 1, 2, 3, 4, 5, 6, 7, 8}" using assms by auto
  have start: "phone_image ! (k * 0x10000) = 0xFF \<and> phone_image ! (0xFFE0 + k * 0x10000) = 0xFF"
    using k by (auto simp: phone_image_def sample_defs nth_blit bytes_of_string_def)
  have magic: "fetch_bytes phone_image off 8 = Inr (0xFF # chunk phone_image (Suc off) 7)"
    if "off + 16 \<le> length phone_image" "phone_image ! off = 0xFF" for off
  proof -
    have "off < length phone_image" using that by simp
    then have "drop off phone_image = 0xFF # drop (Suc off) phone_image"
      using that(2) Cons_nth_drop_Suc by metis
    then have "take (Suc 7) (drop off phone_image) = 0xFF # take 7 (drop (Suc off) phone_image)" by simp
    then show ?thesis using that(1) by (simp add: fetch_bytes_def chunk_def)
  qed
  show "readPartitionType phone_image X65 (k * PARTITION_STEP) = Inr UNKNOWN_PARTITION"
    "readPartitionType phone_image X85 (k * PARTITION_STEP) = Inr UNKNOWN_PARTITION"
    using assms start magic [of "k * 0x10000"] magic [of "0xFFE0 + k * 0x10000"]
    by (simp_all add: readPartitionType_def Let_def PARTITION_STEP_def X65_HEADER_SIZE_def X85_HEADER_SIZE_def
        EELITE_MAGIC_def EEFULL_MAGIC_def)
qed

lemma phone_image_store: "parsePartitions phone_image
    = Inr \<lparr>m_data = phone_image, eeprom_layout = UNKNOWN_LAYOUT, m_blocks = Map.empty\<rparr>" (is "_ = Inr ?e")
proof -
  have "scan_loop (map (\<lambda>k. k * PARTITION_STEP) ks) ?e = Inr ?e" if "\<forall>k \<in> set ks. k < 9" for ks
    using that by (induction ks) (simp_all add: scanX65_def scanX85_def phone_image_scan)
  from this [of "[0..<9]"] show ?thesis by (simp add: parsePartitions_def PARTITION_STEP_def)
qed

definition phone_info :: fullflash_info where
  "phone_info = \<lparr>info_device = buildDeviceName ''EL71'', info_vendor = ''SIEMENS'', info_model = ''EL71'',
     info_version = \<lparr>version_major = 2, version_minor = 0\<rparr>, info_imei = ''490154203237518'', info_bkey = [],
     info_skey = [], info_hash = RECALCULATED_HASH\<rparr>"

lemma phone_info_fields: "info_hash phone_info = RECALCULATED_HASH" "info_imei phone_info = ''490154203237518''"
  "RECALCULATED_HASH \<noteq> []"
  by (simp_all add: phone_info_def RECALCULATED_HASH_def)

lemma phone_hash: "\<not> isErasedData phone_image 0x238 16"
  by (simp add: isErasedData_def phone_image_fields RECALCULATED_HASH_def)

lemma phone_image_info: "getFullflashInfo \<lparr>m_data = phone_image, eeprom_layout = UNKNOWN_LAYOUT, m_blocks = Map.empty\<rparr>
    phone_image = Inr (Some phone_info)" (is "getFullflashInfo ?e _ = _")
proof -
  have none: "imei_from_block ?e b f i = Inr i" "skey_from_block ?e = Inr []"
    "bkey_from_blocks ?e [52, 320] h = Inr ([], h)" for b f i h
    by (simp_all add: imei_from_block_def skey_from_block_def hasBlock_def)
  have v: "is_vendor ''SIEMENS''" "''EL71'' \<noteq> ''''" by (simp_all add: is_vendor_def)
  have digits: "list_all isDigit ''490154203237518''" by (simp add: isDigit_def code_of_def)
  show ?thesis
    using v digits phone_hash
    by (simp add: getFullflashInfo_def phone_image_layout sample_layout phone_image_strings sample_strings
      none phone_info_def Let_def phone_image_fields del: bkey_from_blocks.simps)
qed

definition phone_library :: cache_library where
  "phone_library = \<lparr>toml_parser = \<lambda>s. Some (map_of (unmark_table (length s) s)), toml_formatter = mark_table,
     cache_writable = \<lambda>_. True\<rparr>"

definition phone_disk :: disk where
  "phone_disk = [''EL71.bin'' \<mapsto> \<lparr>contents = phone_image, permissions = 0x1A4\<rparr>]"

lemma phone_run:
  "\<exists>d' codes. recoverOtp phone_library sweep phone_disk ''EL71.bin'' = (d', Inr (Some codes)) \<and>
     imeiToOtp ''490154203237518'' = Inr (otp1 codes)"
proof -
  obtain b where b: "imeiToOtp ''490154203237518'' = Inr b"
    by (auto simp: imeiToOtp_def isDigit_def code_of_def)
  have search: "recoverEsn None sweep e phone_info = Inr (True, RECALCULATED_ESN)" for e
    by (simp add: recoverEsn_def phone_info_def)
  have "readEsnCache (toml_parser phone_library) (texts phone_disk) ''EL71.bin'' RECALCULATED_HASH = None"
    by (simp add: readEsnCache_def texts_def phone_disk_def)
  then have "recoverIdentity phone_library sweep phone_disk ''EL71.bin'' phone_image
      = (cache_identity phone_library phone_disk ''EL71.bin'' phone_info RECALCULATED_ESN,
         Inr \<lparr>identity_esn = esnToHex RECALCULATED_ESN, identity_imei = ''490154203237518''\<rparr>)"
    using recoverIdentity_known [OF phone_image_store phone_image_info, of phone_library sweep phone_disk "''EL71.bin''"]
    by (simp add: search phone_info_fields)
  then show ?thesis
    using phone_hash b
    by (simp add: recoverOtp_def readFullflash_def readFile_def phone_disk_def phone_image_layout sample_layout
        otp_of_identity_def esnToOtp_esnToHex)
qed

section \<open>Properties\<close>

text \<open>C8. What \<open>recoverOtp\<close> gives for any file and any schedule of the search.  A result names an ESN
  and an IMEI: the ESN is the one the cache holds for the HASH of the image, or it explains the data
  of some recovery method, and the two OTP values are their images.  No failure is an access outside
  the image or an exception of the search.  Nothing but the cache file changes on the disk, and a
  cache file that exists is never overwritten.\<close>

theorem recoverOtp_answer:
  assumes "sweeps hardware 0 None sweep" and "recoverOtp lib sweep d path = (d', r)"
  shows "(case r of
       Inl (EepromThrew err) \<Rightarrow> \<not> is_oob err
     | Inl (SearchThrew err) \<Rightarrow> False
     | Inr (Some codes) \<Rightarrow> \<exists>data e info esn. readFile d path = Some data \<and> parsePartitions data = Inr e \<and>
         getFullflashInfo e data = Inr (Some info) \<and> esnToOtp (esnToHex esn) = Inr (otp0 codes) \<and>
         imeiToOtp (info_imei info) = Inr (otp1 codes) \<and>
         (readEsnCache (toml_parser lib) (texts d) path (info_hash info) = Some esn \<or>
          (\<exists>m. explains e info m esn))
     | _ \<Rightarrow> True)
    \<and> (\<forall>p. p \<noteq> path @ ''.esn'' \<longrightarrow> d' p = d p) \<and> (d (path @ ''.esn'') \<noteq> None \<longrightarrow> d' = d)"
proof (intro conjI allI impI)
  show "d' p = d p" if "p \<noteq> path @ ''.esn''" for p using recoverOtp_frame(1) [OF assms(2)] that by blast
  show "d' = d" if "d (path @ ''.esn'') \<noteq> None" by (rule recoverOtp_frame(2) [OF assms(2) that])
  show "case r of
       Inl (EepromThrew err) \<Rightarrow> \<not> is_oob err
     | Inl (SearchThrew err) \<Rightarrow> False
     | Inr (Some codes) \<Rightarrow> \<exists>data e info esn. readFile d path = Some data \<and> parsePartitions data = Inr e \<and>
         getFullflashInfo e data = Inr (Some info) \<and> esnToOtp (esnToHex esn) = Inr (otp0 codes) \<and>
         imeiToOtp (info_imei info) = Inr (otp1 codes) \<and>
         (readEsnCache (toml_parser lib) (texts d) path (info_hash info) = Some esn \<or>
          (\<exists>m. explains e info m esn))
     | _ \<Rightarrow> True"
  proof (cases r)
    case (Inl failure)
    have "\<not> is_oob err" if "failure = EepromThrew err" for err
      using recoverOtp_eeprom assms(2) Inl that by blast
    moreover have "failure \<noteq> SearchThrew err" for err
      using recoverOtp_search [OF assms(1)] assms(2) Inl by blast
    ultimately show ?thesis using Inl by (simp split: recovery_failure.split)
  next
    case (Inr result)
    then show ?thesis using recoverOtp_explained [OF assms(1)] assms(2) by (cases result) simp_all
  qed
qed

theorem recoverOtp_answer_witness:
  "\<exists>d' codes e info esn. recoverOtp phone_library (\<lambda>meth. sequential_sweep) phone_disk ''EL71.bin'' = (d', Inr (Some codes))
     \<and> getFullflashInfo e phone_image = Inr (Some info) \<and> esnToOtp (esnToHex esn) = Inr (otp0 codes)
     \<and> (\<exists>m. explains e info m esn) \<and> d' ''EL71.bin'' = phone_disk ''EL71.bin''"
proof -
  obtain d' codes where run: "recoverOtp phone_library (\<lambda>meth. sequential_sweep) phone_disk ''EL71.bin'' = (d', Inr (Some codes))"
    using phone_run by blast
  have none: "readEsnCache (toml_parser phone_library) (texts phone_disk) ''EL71.bin'' h = None" for h
    by (simp add: readEsnCache_def texts_def phone_disk_def)
  have image: "readFile phone_disk ''EL71.bin'' = Some phone_image" by (simp add: readFile_def phone_disk_def)
  show ?thesis
    using recoverOtp_answer [OF sweeps_sequential [OF effectiveThreads_one(2)] run] run none image by fastforce
qed

text \<open>C22. The cache makes recovery repeatable: after a run that recovered an OTP and could write the
  cache, every later run on the same disk gives the same OTP whatever its search would have
  returned, and changes nothing.  The TOML library is assumed to parse what it formats.\<close>

theorem recoverOtp_repeatable:
  assumes toml: "\<And>kvs. distinct (map fst kvs) \<Longrightarrow> toml_parser lib (toml_formatter lib kvs @ [CHR 10]) = Some (map_of kvs)"
    and new: "d (path @ ''.esn'') = None" and writable: "cache_writable lib (path @ ''.esn'')"
    and run: "recoverOtp lib sweep d path = (d', Inr (Some codes))"
  shows "recoverOtp lib sweep' d' path = (d', Inr (Some codes))"
proof (rule recoverOtp_Some [OF run])
  fix data bootcore who
  assume data: "readFile d path = Some data" and layout: "getBootcoreLayout data = Some bootcore"
    and hash: "\<not> isErasedData data (hashOffset bootcore) 16"
    and who: "recoverIdentity lib sweep d path data = (d', Inr who)" and codes: "otp_of_identity who = Inr codes"
  obtain e info where e: "parsePartitions data = Inr e" and info: "getFullflashInfo e data = Inr (Some info)"
    by (rule recoverIdentity_Inr [OF who])
  have size16: "length (info_hash info) = 16" using image_info [OF e info layout hash] by blast
  then have ne: "info_hash info \<noteq> []" by auto
  have none: "readEsnCache (toml_parser lib) (texts d) path (info_hash info) = None"
    using new by (simp add: readEsnCache_def texts_def)
  obtain esn where d': "d' = cache_identity lib d path info esn"
    and who': "who = \<lparr>identity_esn = esnToHex esn, identity_imei = info_imei info\<rparr>"
    using who by (auto simp: recoverIdentity_known [OF e info ne] none split: sum.splits prod.splits if_splits)
  have "readFile d' path = Some data"
    using data by (simp add: d' cache.readFile_other)
  moreover have "readEsnCache (toml_parser lib) (texts d') path (info_hash info) = Some esn"
    unfolding d' using toml new writable size16 by (intro cache_identity_reads) auto
  then have "recoverIdentity lib sweep' d' path data = (d', Inr who)"
    by (simp add: recoverIdentity_known [OF e info ne] who')
  ultimately show ?thesis
    using layout hash codes by (simp add: recoverOtp_def readFullflash_def)
qed

theorem recoverOtp_repeatable_witness:
  "\<exists>d' codes. recoverOtp phone_library (\<lambda>meth. sequential_sweep) phone_disk ''EL71.bin'' = (d', Inr (Some codes))
     \<and> recoverOtp phone_library (\<lambda>meth batch matcher. Inr (True, 7)) d' ''EL71.bin'' = (d', Inr (Some codes))"
proof -
  obtain d' codes where run: "recoverOtp phone_library (\<lambda>meth. sequential_sweep) phone_disk ''EL71.bin'' = (d', Inr (Some codes))"
    using phone_run by blast
  have "toml_parser phone_library (toml_formatter phone_library kvs @ [CHR 10]) = Some (map_of kvs)" for kvs
    using unmark_table_law [of kvs] by (simp add: phone_library_def)
  moreover have "phone_disk (''EL71.bin'' @ ''.esn'') = None" "cache_writable phone_library (''EL71.bin'' @ ''.esn'')"
    by (simp_all add: phone_disk_def phone_library_def)
  ultimately have "recoverOtp phone_library (\<lambda>meth batch matcher. Inr (True, 7)) d' ''EL71.bin'' = (d', Inr (Some codes))"
    by (intro recoverOtp_repeatable [OF _ _ _ run]) auto
  with run show ?thesis by blast
qed

end
