(* ===== verification/Qemu.thy ===== *)
theory Qemu
  imports Files
begin

text \<open>
  The command line of QEMU: src/qemu_args.cpp and the parts of src/main.cpp that declare the options
  of the launcher and turn their values into arguments and environment variables.  The argument
  parser is a library outside the repository: the table below is what the code gives to it, and
  \<open>program\<close> is what its accessors answer afterwards.
\<close>

section \<open>The options of the launcher\<close>

text \<open>An option takes one value, with a default or without, or is a flag (default false, implied true).\<close>

datatype argument_kind = Flag | Default string | Optional

type_synonym argument = "string list \<times> argument_kind"

definition DEFAULT_IMEI :: string where "DEFAULT_IMEI = ''490154203237518''"
definition DEFAULT_ESN :: string where "DEFAULT_ESN = ''12345678''"
definition FLASH_BANK_COUNT :: nat where "FLASH_BANK_COUNT = 4"

definition main_options :: "argument list" where
  "main_options = [([''-d'', ''--device''], Default ''''), ([''-f'', ''--fullflash''], Default ''''), ([''--rw''], Flag)]"

definition otp_options :: "argument list" where
  "otp_options =
    [([''--flash-otp0'', ''--flash-0-otp0''], Default ''''),
     ([''--flash-otp1'', ''--flash-0-otp1''], Default ''''),
     ([''--flash-otp0-file'', ''--flash-0-otp0-file''], Default ''''),
     ([''--flash-otp1-file'', ''--flash-0-otp1-file''], Default ''''),
     ([''--flash-efa-file'', ''--flash-0-efa-file''], Default '''')]
    @ concat (map (\<lambda>index. let pre = ''--flash-'' @ to_string index @ ''-'' in
        [([pre @ ''otp0''], Default ''''), ([pre @ ''otp1''], Default ''''), ([pre @ ''otp0-file''], Default ''''),
         ([pre @ ''otp1-file''], Default ''''), ([pre @ ''efa-file''], Default '''')]) [1..<FLASH_BANK_COUNT])
    @ [([''--siemens-esn''], Default DEFAULT_ESN), ([''--siemens-imei''], Default DEFAULT_IMEI),
       ([''--siemens-recalc''], Flag)]"

definition sim_options_table :: "argument list" where
  "sim_options_table =
    [([''--sim''], Default ''virtual''), ([''--sim-reader-name''], Default ''''), ([''--sim-imsi''], Default ''''),
     ([''--sim-operator''], Default ''00101''), ([''--sim-ki''], Default ''''), ([''--sim-pin1''], Default ''''),
     ([''--sim-pin2''], Default ''''), ([''--sim-puk1''], Default ''''), ([''--sim-puk2''], Default ''''),
     ([''--sim-storage''], Default '''')]"

definition run_options :: "argument list" where
  "run_options =
    [([''--startup''], Default ''ONLINE''), ([''--serial''], Optional), ([''--usartd''], Flag),
     ([''-W'', ''--wait-for-serial''], Flag), ([''--gdb''], Flag), ([''-D'', ''--trace''], Optional),
     ([''--trace-io''], Optional), ([''--trace-log''], Optional), ([''--trace-time''], Flag), ([''--headless''], Flag),
     ([''--qemu-monitor''], Optional), ([''--memory-timing''], Flag), ([''--qemu-accel''], Optional),
     ([''--qemu-icount''], Optional), ([''--qemu-run-with-gdb''], Flag), ([''-E'', ''--qemu-stop-on-exception''], Flag),
     ([''--qemu-debug''], Optional)]"

definition option_table :: "argument list" where
  "option_table = main_options @ otp_options @ sim_options_table @ run_options"

text \<open>The accessors: \<open>get<std::string>\<close>, \<open>get<bool>\<close>, \<open>present\<close> and \<open>is_used\<close>.\<close>

record parsed_program =
  get_string :: "string \<Rightarrow> string"
  get_bool :: "string \<Rightarrow> bool"
  present :: "string \<Rightarrow> string option"
  is_used :: "string \<Rightarrow> bool"

definition split_args :: "string list \<Rightarrow> string list \<times> string list" where
  "split_args argv =
     (let launcherArgs = takeWhile (\<lambda>arg. arg \<noteq> ''--'') argv
      in (launcherArgs, drop (length launcherArgs + 1) argv))"

section \<open>The SIM device\<close>

record sim_options =
  sim_source :: string
  readerName :: string
  imsi :: string
  operatorCode :: string
  ki :: string
  pin1 :: string
  pin2 :: string
  puk1 :: string
  puk2 :: string
  sim_storage :: string

definition readSimOptions :: "parsed_program \<Rightarrow> sim_options" where
  "readSimOptions program =
     \<lparr>sim_source = get_string program ''--sim'', readerName = get_string program ''--sim-reader-name'',
      imsi = get_string program ''--sim-imsi'', operatorCode = get_string program ''--sim-operator'',
      ki = get_string program ''--sim-ki'', pin1 = get_string program ''--sim-pin1'',
      pin2 = get_string program ''--sim-pin2'', puk1 = get_string program ''--sim-puk1'',
      puk2 = get_string program ''--sim-puk2'', sim_storage = get_string program ''--sim-storage''\<rparr>"

fun escapeQemuOptionValue :: "string \<Rightarrow> string" where
  "escapeQemuOptionValue [] = []"
| "escapeQemuOptionValue (c # rest) =
     (if c = CHR '','' then c # CHR '','' # escapeQemuOptionValue rest else c # escapeQemuOptionValue rest)"

definition appendQemuOption :: "string \<Rightarrow> string \<Rightarrow> string \<Rightarrow> string" where
  "appendQemuOption device name v =
     (if v \<noteq> '''' then device @ '','' @ name @ ''='' @ escapeQemuOptionValue v else device)"

definition getSimDevice :: "sim_options \<Rightarrow> string" where
  "getSimDevice sim =
     (if sim_source sim = ''virtual'' then
        let device = ''gsm-sim'';
            device = appendQemuOption device ''operator'' (operatorCode sim);
            device = appendQemuOption device ''imsi'' (imsi sim);
            device = appendQemuOption device ''ki'' (ki sim);
            device = appendQemuOption device ''pin1'' (pin1 sim);
            device = (if pin1 sim \<noteq> '''' then device @ '',pin1-enabled=on'' else device);
            device = appendQemuOption device ''pin2'' (pin2 sim);
            device = appendQemuOption device ''puk1'' (puk1 sim);
            device = appendQemuOption device ''puk2'' (puk2 sim);
            device = appendQemuOption device ''storage'' (sim_storage sim)
        in device
      else if sim_source sim = ''reader'' then appendQemuOption ''iso7816-host-card'' ''reader'' (readerName sim)
      else '''')"

section \<open>The command line\<close>

definition getQemuClockArguments :: "string option \<Rightarrow> string option \<Rightarrow> string list" where
  "getQemuClockArguments accel icount =
     (let defaultAccel = (if icount \<noteq> None then ''tcg'' else ''tcg,vcpu-timers=on,cross-page-links=on'');
          arguments = [''-accel'', case accel of Some a \<Rightarrow> a | None \<Rightarrow> defaultAccel]
      in case icount of Some i \<Rightarrow> arguments @ [''-icount'', i] | None \<Rightarrow> arguments)"

definition drive_arguments :: "bool \<Rightarrow> string \<Rightarrow> string list" where
  "drive_arguments rw fullflash =
     (if fullflash = '''' then []
      else if rw then [''-drive'', ''if=pflash,format=raw,file='' @ fullflash]
      else [''-drive'', ''if=pflash,readonly=on,format=raw,file='' @ fullflash])"

definition debug_channels :: "parsed_program \<Rightarrow> string list" where
  "debug_channels program =
     (case present program ''--trace'' of None \<Rightarrow> []
        | Some _ \<Rightarrow> let channels = get_string program ''--trace'' in [''log='' @ channels, ''io='' @ channels])
     @ (case present program ''--trace-io'' of None \<Rightarrow> [] | Some _ \<Rightarrow> [''io='' @ get_string program ''--trace-io''])
     @ (case present program ''--trace-log'' of None \<Rightarrow> [] | Some _ \<Rightarrow> [''log='' @ get_string program ''--trace-log''])
     @ (if get_bool program ''--trace-time'' then [''time=on''] else [])"

definition trace_arguments :: "parsed_program \<Rightarrow> string list" where
  "trace_arguments program =
     (let debugChannels = debug_channels program
      in if debugChannels \<noteq> [] then [''-debug-channels'', joinStrings debugChannels '',''] else [])"

definition serial_arguments :: "platform \<Rightarrow> parsed_program \<Rightarrow> string list" where
  "serial_arguments system program =
     (case present program ''--serial'' of
        Some _ \<Rightarrow> [''-serial'', get_string program ''--serial'']
      | None \<Rightarrow>
          if get_bool program ''--usartd'' then
            (if isWindows system then [''-serial'', ''tcp:127.0.0.1:11111''] else [''-serial'', ''unix:/tmp/siemens.sock''])
          else [])"

definition debug_arguments :: "parsed_program \<Rightarrow> string list" where
  "debug_arguments program =
     (let qemuDebug = ''cpu_reset,cpu_exit,guest_errors,unimp'' @
        (case present program ''--qemu-debug'' of None \<Rightarrow> '''' | Some _ \<Rightarrow> '','' @ get_string program ''--qemu-debug'')
      in [''-d'', qemuDebug])"

definition buildQemuArgs ::
  "platform \<Rightarrow> parsed_program \<Rightarrow> string \<Rightarrow> bool \<Rightarrow> string \<Rightarrow> sim_options \<Rightarrow> string list \<Rightarrow> string list" where
  "buildQemuArgs system program qemuBin rw fullflash sim extraQemuArgs =
     (if get_bool program ''--qemu-run-with-gdb'' then [''gdb'', ''--args''] else [])
     @ [qemuBin]
     @ getQemuClockArguments (present program ''--qemu-accel'') (present program ''--qemu-icount'')
     @ [''-machine'', ''pmb887x'']
     @ (if get_bool program ''--headless'' then [''-display'', ''none''] else [])
     @ drive_arguments rw fullflash
     @ trace_arguments program
     @ (let simDevice = getSimDevice sim in if simDevice \<noteq> '''' then [''-device'', simDevice] else [])
     @ (if get_bool program ''--gdb'' then [''-s'', ''-S''] else [])
     @ serial_arguments system program
     @ (case present program ''--qemu-monitor'' of None \<Rightarrow> []
          | Some _ \<Rightarrow> [''-monitor'', get_string program ''--qemu-monitor''])
     @ debug_arguments program
     @ extraQemuArgs"

section \<open>The flash banks\<close>

record flash_bank =
  bank_otp0 :: string
  bank_otp1 :: string
  bank_otp0File :: string
  bank_otp1File :: string
  bank_efaFile :: string

definition readFlashBank :: "parsed_program \<Rightarrow> nat \<Rightarrow> flash_bank" where
  "readFlashBank program index =
     (let pre = (if index = 0 then ''--flash-'' else ''--flash-'' @ to_string index @ ''-'')
      in \<lparr>bank_otp0 = get_string program (pre @ ''otp0''), bank_otp1 = get_string program (pre @ ''otp1''),
          bank_otp0File = get_string program (pre @ ''otp0-file''),
          bank_otp1File = get_string program (pre @ ''otp1-file''),
          bank_efaFile = get_string program (pre @ ''efa-file'')\<rparr>)"

definition bank_given :: "flash_bank \<Rightarrow> bool" where
  "bank_given bank \<longleftrightarrow> (bank_otp0 bank \<noteq> '''' \<or> bank_otp1 bank \<noteq> '''') \<or>
     (bank_otp0File bank \<noteq> '''' \<or> bank_otp1File bank \<noteq> '''') \<or> bank_efaFile bank \<noteq> ''''"

definition readFlashOptions :: "parsed_program \<Rightarrow> flash_bank list \<times> bool" where
  "readFlashOptions program =
     (let flashOptions = map (readFlashBank program) [0..<FLASH_BANK_COUNT]
      in (flashOptions, list_ex bank_given flashOptions))"

section \<open>The environment of QEMU\<close>

text \<open>The entries of \<open>qemuEnv\<close>; every key is assigned once.\<close>

definition start_environment :: "parsed_program \<Rightarrow> string \<Rightarrow> string \<Rightarrow> (string \<times> string) list" where
  "start_environment program board startup =
     [(''PMB887X_BOARD'', board), (''PMB887X_STARTUP'', startup)]
     @ (if get_bool program ''--qemu-stop-on-exception'' then [(''QEMU_ARM_STOP_ON_EXCP'', ''1'')] else [])
     @ (if get_bool program ''--wait-for-serial'' then [(''PMB887X_WAIT_FOR_SERIAL'', ''1'')] else [])
     @ (if get_bool program ''--memory-timing'' then [(''PMB887X_MEMORY_TIMING'', ''1'')] else [])"

definition bank_environment :: "nat \<Rightarrow> flash_bank \<Rightarrow> (string \<times> string) list" where
  "bank_environment index options =
     (let pre = ''PMB887X_FLASH'' @ to_string index @ ''_'' in
       (if bank_otp0 options \<noteq> '''' then [(pre @ ''OTP0'', bank_otp0 options)] else [])
       @ (if bank_otp1 options \<noteq> '''' then [(pre @ ''OTP1'', bank_otp1 options)] else [])
       @ (if bank_otp0File options \<noteq> '''' then [(pre @ ''OTP0_FILE'', bank_otp0File options)] else [])
       @ (if bank_otp1File options \<noteq> '''' then [(pre @ ''OTP1_FILE'', bank_otp1File options)] else [])
       @ (if bank_efaFile options \<noteq> '''' then [(pre @ ''EFA_FILE'', bank_efaFile options)] else []))"

definition flash_environment :: "flash_bank list \<Rightarrow> (string \<times> string) list" where
  "flash_environment flashOptions =
     concat (map (\<lambda>index. bank_environment index (flashOptions ! index)) [0..<FLASH_BANK_COUNT])"

section \<open>Option strings\<close>

text \<open>
  QEMU's option syntax, as the specification of the escaping: fields are separated by commas and a
  doubled comma is a comma of the field.
\<close>

fun put_char :: "char \<Rightarrow> string list \<Rightarrow> string list" where
  "put_char c [] = [[c]]"
| "put_char c (field # rest) = (c # field) # rest"

fun option_fields :: "string \<Rightarrow> string list" where
  "option_fields [] = [[]]"
| "option_fields [c] = (if c = CHR '','' then [[], []] else [[c]])"
| "option_fields (c # d # s) =
     (if c = CHR '','' then (if d = CHR '','' then put_char c (option_fields s) else [] # option_fields (d # s))
      else put_char c (option_fields (d # s)))"

definition put_front :: "string \<Rightarrow> string list \<Rightarrow> string list" where
  "put_front a fs = (a @ hd fs) # tl fs"

lemma option_fields_nonempty [simp]: "option_fields s \<noteq> []"
  by (cases s rule: option_fields.cases) (auto elim: put_char.elims)

lemma put_char_front: "fs \<noteq> [] \<Longrightarrow> put_char c fs = put_front [c] fs"
  by (cases fs) (simp_all add: put_front_def)

lemma option_fields_plain: "c \<noteq> CHR '','' \<Longrightarrow> option_fields (c # s) = put_front [c] (option_fields s)"
  by (cases s) (simp_all add: put_char_front put_front_def)

lemma option_fields_escaped: "option_fields (escapeQemuOptionValue a @ s) = put_front a (option_fields s)"
proof (induction a)
  case (Cons c a)
  then show ?case
    by (cases "c = CHR '',''") (simp_all add: option_fields_plain put_char_front put_front_def)
qed (simp add: put_front_def)

lemma option_fields_next: "s = '''' \<or> hd s \<noteq> CHR '','' \<Longrightarrow> option_fields (CHR '','' # s) = [] # option_fields s"
  by (cases s) auto

text \<open>Escaped fields joined by commas are read back, when no later field starts with a comma.\<close>

definition render :: "string \<Rightarrow> string list \<Rightarrow> string" where
  "render device fs = escapeQemuOptionValue device @ concat (map (\<lambda>f. '','' @ escapeQemuOptionValue f) fs)"

lemma escape_hd: "f \<noteq> '''' \<Longrightarrow> escapeQemuOptionValue f \<noteq> '''' \<and> hd (escapeQemuOptionValue f) = hd f"
  by (cases f) auto

lemma option_fields_render:
  "list_all (\<lambda>f. f \<noteq> '''' \<and> hd f \<noteq> CHR '','') fs \<Longrightarrow> option_fields (render device fs) = device # fs"
proof (induction fs arbitrary: device)
  case Nil
  then show ?case using option_fields_escaped [of device "[]"] by (simp add: render_def put_front_def)
next
  case (Cons f fs)
  have "render device (f # fs) = escapeQemuOptionValue device @ CHR '','' # render f fs"
    by (simp add: render_def)
  moreover have "hd (render f fs) \<noteq> CHR '',''"
    using Cons.prems escape_hd [of f] by (simp add: render_def)
  ultimately show ?case
    using Cons by (simp add: option_fields_escaped option_fields_next put_front_def)
qed

lemma escape_append: "escapeQemuOptionValue (a @ b) = escapeQemuOptionValue a @ escapeQemuOptionValue b"
  by (induction a) auto

lemma escape_plain: "CHR '','' \<notin> set a \<Longrightarrow> escapeQemuOptionValue a = a"
  by (induction a) auto

definition field :: "string \<Rightarrow> string \<Rightarrow> string list" where
  "field name v = (if v = '''' then [] else [name @ ''='' @ v])"

text \<open>The fields the SIM device is meant to have.\<close>

definition sim_fields :: "sim_options \<Rightarrow> string list" where
  "sim_fields sim =
     (if sim_source sim = ''virtual'' then
        [''gsm-sim''] @ field ''operator'' (operatorCode sim) @ field ''imsi'' (imsi sim) @ field ''ki'' (ki sim)
        @ field ''pin1'' (pin1 sim) @ (if pin1 sim = '''' then [] else [''pin1-enabled=on'']) @ field ''pin2'' (pin2 sim)
        @ field ''puk1'' (puk1 sim) @ field ''puk2'' (puk2 sim) @ field ''storage'' (sim_storage sim)
      else if sim_source sim = ''reader'' then [''iso7816-host-card''] @ field ''reader'' (readerName sim)
      else [''''])"

lemma append_render:
  assumes "CHR '','' \<notin> set name"
  shows "appendQemuOption (render device fs) name v = render device (fs @ field name v)"
  using assms by (simp add: appendQemuOption_def render_def field_def escape_append escape_plain)

lemma on_render: "render device fs @ '',pin1-enabled=on'' = render device (fs @ [''pin1-enabled=on''])"
  by (simp add: render_def)

lemma getSimDevice_render:
  "getSimDevice sim = render (hd (sim_fields sim)) (tl (sim_fields sim))"
proof -
  have plain: "render ''gsm-sim'' [] = ''gsm-sim''" "render ''iso7816-host-card'' [] = ''iso7816-host-card''"
    by (simp_all add: render_def)
  have first: "appendQemuOption ''gsm-sim'' name v = render ''gsm-sim'' (field name v)"
    "appendQemuOption ''iso7816-host-card'' name v = render ''iso7816-host-card'' (field name v)"
    if "CHR '','' \<notin> set name" for name v
    using append_render [OF that, of "''gsm-sim''" "[]" v] append_render [OF that, of "''iso7816-host-card''" "[]" v]
    by (simp_all only: plain append_Nil)
  show ?thesis
  proof (cases "sim_source sim = ''virtual'' \<or> sim_source sim = ''reader''")
    case True
    then show ?thesis
      by (auto simp: getSimDevice_def Let_def first append_render on_render sim_fields_def)
  next
    case False
    then show ?thesis by (simp add: getSimDevice_def sim_fields_def render_def)
  qed
qed

text \<open>The image path is put into the drive option as it is.\<close>

lemma concat_put_char: "concat (put_char c fs) = c # concat fs"
  by (cases fs) simp_all

lemma option_fields_length: "length (concat (option_fields s)) \<le> length s"
  by (induction s rule: option_fields.induct) (auto simp: concat_put_char)

lemma option_fields_shorter: "CHR '','' \<in> set s \<Longrightarrow> length (concat (option_fields s)) < length s"
proof (induction s rule: option_fields.induct)
  case (3 c d s)
  then show ?case
    using option_fields_length [of s] option_fields_length [of "d # s"]
    by (auto simp: concat_put_char split: if_splits)
qed (auto split: if_splits)

lemma option_fields_single: "option_fields s = [s] \<longleftrightarrow> CHR '','' \<notin> set s"
proof
  show "CHR '','' \<notin> set s" if "option_fields s = [s]" using option_fields_shorter [of s] that by auto
  show "option_fields s = [s]" if "CHR '','' \<notin> set s"
    using option_fields_escaped [of s "[]"] escape_plain [OF that] by (simp add: put_front_def)
qed

section \<open>Properties\<close>

text \<open>C31. Whatever the values of the SIM options are, commas included, QEMU reads from the device
  argument exactly the fields the code means: the device, then \<open>name=value\<close> for every option that is
  not empty, in the order of the code, with \<open>pin1-enabled=on\<close> after a PIN1.\<close>

theorem sim_device_fields:
  "option_fields (getSimDevice sim) = sim_fields sim"
proof -
  have ok: "list_all (\<lambda>f. f \<noteq> '''' \<and> hd f \<noteq> CHR '','') (tl (sim_fields sim))"
    by (simp add: sim_fields_def field_def)
  have "sim_fields sim \<noteq> []" by (simp add: sim_fields_def)
  then show ?thesis
    unfolding getSimDevice_render option_fields_render [OF ok] by simp
qed

text \<open>C40. The drive argument names the image path without escaping: QEMU reads the intended fields, with
  the read-only flag exactly when writing is not allowed, if and only if the path has no comma.\<close>

theorem drive_fields:
  "map option_fields (drive_arguments rw path) =
      [[''-drive''], [''if=pflash''] @ (if rw then [] else [''readonly=on'']) @ [''format=raw'', ''file='' @ path]]
    \<longleftrightarrow> path \<noteq> '''' \<and> CHR '','' \<notin> set path"
proof -
  have "put_front ''file='' (option_fields path) = [''file='' @ path] \<longleftrightarrow> option_fields path = [path]"
    by (cases "option_fields path") (simp_all add: put_front_def)
  then show ?thesis
    by (simp add: drive_arguments_def option_fields_plain option_fields_next put_front_def option_fields_single
        del: option_fields.simps(2,3))
qed

end
