(* ===== verification/Launcher.thy ===== *)
theory Launcher
  imports Recovery Qemu
begin

text \<open>
  \<open>main\<close> of src/main.cpp.  The launcher reads its options, checks them, finds the board file and the
  QEMU binary, prepares the flash image (recalculated keys or recovered OTP), builds the command
  line and the environment, runs QEMU and returns its exit status.  The model returns what happened:
  the disks the machine went through, what was spawned, and the exit status.
\<close>

section \<open>The answers of the outside\<close>

datatype parse_outcome = Parsed parsed_program | ParseThrew | ParseExits int

text \<open>
  One run: the platform, the argument parser, the paths, the libraries of the recovery, the calls of
  \<open>replaceFile\<close> and of the temporary copy, and the child process (what it does to the machine while
  it runs).
\<close>

record outside =
  system :: platform
  parse_args :: "argument list \<Rightarrow> string list \<Rightarrow> parse_outcome"
  paths :: path_answers
  absolute_of :: "string \<Rightarrow> string option"
  cache_of :: cache_library
  esn_search :: esn_runs
  replace_os :: replace_answers
  create_os :: create_answers
  process_os :: process_answers
  child_run :: "machine \<Rightarrow> machine"
  exit_remove_works :: bool

datatype launch_failure =
    NoQemu path_error
  | BadSimSource
  | ReaderNameUnused
  | VirtualOptionsUnused
  | StorageThrew
  | EmptyStartup
  | NothingToRun
  | DeviceNotDetected
  | NoBoard path_error
  | BadOtp otp_error
  | DefaultOtpThrew otp_error
  | RecalcFailed

text \<open>All failures but two are caught, logged and end \<open>main\<close> with 1; an uncaught exception has no status.\<close>

definition failure_status :: "launch_failure \<Rightarrow> int option" where
  "failure_status failure = (case failure of StorageThrew \<Rightarrow> None | DefaultOtpThrew _ \<Rightarrow> None | _ \<Rightarrow> Some 1)"

section \<open>Reading and checking the options\<close>

definition hasVirtualSimOptions :: "sim_options \<Rightarrow> bool" where
  "hasVirtualSimOptions sim \<longleftrightarrow> ki sim \<noteq> '''' \<or> pin1 sim \<noteq> '''' \<or> pin2 sim \<noteq> '''' \<or>
     puk1 sim \<noteq> '''' \<or> puk2 sim \<noteq> '''' \<or> sim_storage sim \<noteq> ''''"

definition checkSimOptions :: "outside \<Rightarrow> sim_options \<Rightarrow> launch_failure + sim_options" where
  "checkSimOptions os sim =
     (if sim_source sim \<noteq> ''virtual'' \<and> sim_source sim \<noteq> ''none'' \<and> sim_source sim \<noteq> ''reader''
      then Inl BadSimSource
      else if readerName sim \<noteq> '''' \<and> sim_source sim \<noteq> ''reader'' then Inl ReaderNameUnused
      else if hasVirtualSimOptions sim \<and> sim_source sim \<noteq> ''virtual'' then Inl VirtualOptionsUnused
      else if sim_storage sim \<noteq> '''' then
        (case absolute_of os (sim_storage sim) of
           None \<Rightarrow> Inl StorageThrew
         | Some path \<Rightarrow> Inr (sim\<lparr>sim_storage := path\<rparr>))
      else Inr sim)"

definition chooseDevice :: "disk \<Rightarrow> string \<Rightarrow> string \<Rightarrow> launch_failure + string" where
  "chooseDevice d device fullflash =
     (if device \<noteq> '''' then Inr device
      else if fullflash = '''' then Inl NothingToRun
      else (case probeFullflash (readFile d) fullflash of
        None \<Rightarrow> Inl DeviceNotDetected
      | Some info \<Rightarrow> Inr (info_device info)))"

definition applySiemensOtp ::
  "parsed_program \<Rightarrow> string \<Rightarrow> string \<Rightarrow> flash_bank list \<times> bool \<Rightarrow> launch_failure + flash_bank list \<times> bool" where
  "applySiemensOtp program siemensEsn siemensImei options =
     (case options of (banks, hasOTP) \<Rightarrow>
        if is_used program ''--siemens-esn'' \<or> is_used program ''--siemens-imei'' then
          (let flash0 = hd banks
           in case (if siemensEsn \<noteq> '''' then
                      map_sum BadOtp (\<lambda>x. flash0\<lparr>bank_otp0 := x\<rparr>) (esnToOtp siemensEsn) else Inr flash0) of
                Inl err \<Rightarrow> Inl err
              | Inr flash0 \<Rightarrow>
                  (case (if siemensImei \<noteq> '''' then
                           map_sum BadOtp (\<lambda>x. flash0\<lparr>bank_otp1 := x\<rparr>) (imeiToOtp siemensImei) else Inr flash0) of
                     Inl err \<Rightarrow> Inl err
                   | Inr flash0 \<Rightarrow> Inr (banks[0 := flash0], True)))
        else Inr (banks, hasOTP))"

text \<open>What \<open>main\<close> has computed when it comes to the flash image.\<close>

record launch_config =
  config_qemu :: string
  config_device :: string
  config_board :: string
  config_sim :: sim_options
  config_banks :: "flash_bank list"
  config_hasOTP :: bool

definition configure :: "outside \<Rightarrow> parsed_program \<Rightarrow> disk \<Rightarrow> launch_failure + launch_config" where
  "configure os program d =
     (case getQemuBinaryPath (system os) (paths os) of
        Inl err \<Rightarrow> Inl (NoQemu err)
      | Inr qemuBin \<Rightarrow>
          ebind (checkSimOptions os (readSimOptions program)) (\<lambda>sim.
          if get_string program ''--startup'' = '''' then Inl EmptyStartup
          else ebind (chooseDevice d (get_string program ''--device'') (get_string program ''--fullflash'')) (\<lambda>device.
          case getBoardConfigPath (system os) (paths os) device of
            Inl err \<Rightarrow> Inl (NoBoard err)
          | Inr board \<Rightarrow>
              ebind (applySiemensOtp program (get_string program ''--siemens-esn'')
                  (get_string program ''--siemens-imei'') (readFlashOptions program)) (\<lambda>(banks, hasOTP).
              Inr \<lparr>config_qemu = qemuBin, config_device = device, config_board = board, config_sim = sim,
                config_banks = banks, config_hasOTP = hasOTP\<rparr>))))"

section \<open>Preparing the flash image\<close>

text \<open>
  The locals of \<open>main\<close> that this part changes, with the machine: \<open>fullflashCopy\<close>, \<open>fullflash\<close> and the
  OTP values of bank 0.  \<open>history\<close> holds the disks so far, the last one first.
\<close>

record launch_state =
  world :: machine
  history :: "disk list"
  fullflashCopy :: temp_file_copy
  fullflash_path :: string
  flash0_otp0 :: string
  flash0_otp1 :: string

definition default_keys :: keys where
  "default_keys = \<lparr>keys_imei = DEFAULT_IMEI, keys_esn = word_of_nat (stoul16 DEFAULT_ESN), keys_skey = 12345678,
     masterKeys = replicate 6 12345678, verDown = 1\<rparr>"

definition see_disk :: "disk \<Rightarrow> launch_state \<Rightarrow> launch_state" where
  "see_disk d s = s\<lparr>world := (world s)\<lparr>the_disk := d\<rparr>, history := d # history s\<rparr>"

text \<open>The try block of \<open>--siemens-recalc\<close>: None when the write of the copy never ends, False when it threw.\<close>

definition recalculate_image :: "outside \<Rightarrow> bool \<Rightarrow> launch_state \<Rightarrow> (launch_state \<times> bool) option" where
  "recalculate_image os rw s =
     (case readFile (the_disk (world s)) (fullflash_path s) of
        None \<Rightarrow> Some (s, False)
      | Some data \<Rightarrow>
          (case recalculateFullflash data default_keys of
             (_, Inl _) \<Rightarrow> Some (s, False)
           | (_, Inr None) \<Rightarrow> Some (s, True)
           | (data', Inr (Some outcome)) \<Rightarrow>
               if \<not> result_changed outcome then Some (s, True)
               else if rw then
                 (case replaceFile (system os) (replace_os os) (the_disk (world s)) data' of (disks, ok) \<Rightarrow>
                    Some (s\<lparr>world := (world s)\<lparr>the_disk := hd disks\<rparr>, history := disks @ history s\<rparr>, ok))
               else (case create (system os) (create_os os) (world s) (fullflashCopy s) data' of
                   None \<Rightarrow> None
                 | Some (w, copy, answer) \<Rightarrow>
                     let s = s\<lparr>world := w, history := the_disk w # history s, fullflashCopy := copy\<rparr>
                     in (case answer of
                           Inl _ \<Rightarrow> Some (s, False)
                         | Inr path \<Rightarrow> Some (s\<lparr>fullflash_path := path\<rparr>, True)))))"

text \<open>The try block around \<open>recoverOtp\<close>: a failure is only a warning.\<close>

definition recover_image_otp :: "outside \<Rightarrow> launch_state \<Rightarrow> launch_state" where
  "recover_image_otp os s =
     (case recoverOtp (cache_of os) (esn_search os) (the_disk (world s)) (fullflash_path s) of
        (d, r) \<Rightarrow>
          let s = see_disk d s
          in (case r of
                Inr (Some codes) \<Rightarrow> s\<lparr>flash0_otp0 := otp0 codes, flash0_otp1 := otp1 codes\<rparr>
              | _ \<Rightarrow> s))"

definition prepare ::
  "outside \<Rightarrow> parsed_program \<Rightarrow> launch_config \<Rightarrow> launch_state \<Rightarrow> (launch_state \<times> launch_failure option) option" where
  "prepare os program config s =
     (if starts_with (config_device config) ''siemens-'' \<and> \<not> config_hasOTP config then
        (case esnToOtp DEFAULT_ESN of
           Inl err \<Rightarrow> Some (s, Some (DefaultOtpThrew err))
         | Inr otpEsn \<Rightarrow>
             (case imeiToOtp DEFAULT_IMEI of
                Inl err \<Rightarrow> Some (s, Some (DefaultOtpThrew err))
              | Inr otpImei \<Rightarrow>
                  let s = s\<lparr>flash0_otp0 := otpEsn, flash0_otp1 := otpImei\<rparr>
                  in if get_bool program ''--siemens-recalc'' then
                       map_option (\<lambda>(s, ok). (s, if ok then None else Some RecalcFailed))
                         (recalculate_image os (get_bool program ''--rw'') s)
                     else if fullflash_path s \<noteq> '''' then Some (recover_image_otp os s, None)
                     else Some (s, None)))
      else Some (s, None))"

section \<open>main\<close>

text \<open>
  What happened: the exit status (None for an uncaught exception), the child with its arguments, its
  environment and the locals at that time, the disks of the launcher, and the machine at the end.
\<close>

record launch =
  exit_status :: "int option"
  spawned :: "(child_arguments \<times> process_environment \<times> launch_state) option"
  disks_seen :: "disk list"
  final_machine :: machine

definition set_all :: "platform \<Rightarrow> (string \<times> string) list \<Rightarrow> process_environment \<Rightarrow> process_environment" where
  "set_all pl entries env = fold (\<lambda>(name, v) env. setEnvironmentVariable pl env name v) entries env"

definition GTK_ENVIRONMENT :: "platform \<Rightarrow> (string \<times> string) list" where
  "GTK_ENVIRONMENT pl =
     (if pl = Windows \<or> pl = MacOS then []
      else [(''GTK_MODULES'', ''''), (''GTK2_MODULES'', ''''), (''GTK3_MODULES'', '''')])"

definition final_banks :: "launch_config \<Rightarrow> launch_state \<Rightarrow> flash_bank list" where
  "final_banks config s =
     (config_banks config)[0 := (hd (config_banks config))\<lparr>bank_otp0 := flash0_otp0 s, bank_otp1 := flash0_otp1 s\<rparr>]"

definition qemuEnv :: "parsed_program \<Rightarrow> launch_config \<Rightarrow> launch_state \<Rightarrow> (string \<times> string) list" where
  "qemuEnv program config s =
     start_environment program (config_board config) (get_string program ''--startup'')
     @ flash_environment (final_banks config s)"

text \<open>Leaving \<open>main\<close> destroys \<open>fullflashCopy\<close>, whichever way it is left.\<close>

definition leave :: "outside \<Rightarrow> int option \<Rightarrow> launch_state \<Rightarrow> launch" where
  "leave os status s = \<lparr>exit_status = status, spawned = None, disks_seen = history s,
     final_machine = destroy (system os) (exit_remove_works os) (world s) (fullflashCopy s)\<rparr>"

definition run_qemu ::
  "outside \<Rightarrow> parsed_program \<Rightarrow> process_environment \<Rightarrow> string list \<Rightarrow> launch_config \<Rightarrow> launch_state \<Rightarrow> launch option" where
  "run_qemu os program env extraQemuArgs config s =
     (let qemuArgs = buildQemuArgs (system os) program (config_qemu config) (get_bool program ''--rw'') (fullflash_path s)
            (config_sim config) extraQemuArgs;
          env = set_all (system os) (GTK_ENVIRONMENT (system os) @ qemuEnv program config s) env
      in case executeProcess (system os) (process_os os) qemuArgs of
           (None, _) \<Rightarrow> Some (leave os (Some 1) s)
         | (Some args, answer) \<Rightarrow>
             (case answer of
                None \<Rightarrow> None
              | Some r \<Rightarrow>
                  Some \<lparr>exit_status = (case r of Inl _ \<Rightarrow> Some 1 | Inr status \<Rightarrow> Some status),
                    spawned = Some (args, env, s), disks_seen = history s,
                    final_machine =
                      destroy (system os) (exit_remove_works os) (child_run os (world s)) (fullflashCopy s)\<rparr>))"

definition start_state :: "machine \<Rightarrow> launch_state" where
  "start_state w = \<lparr>world = w, history = [the_disk w], fullflashCopy = new_temp_file_copy, fullflash_path = '''',
     flash0_otp0 = '''', flash0_otp1 = ''''\<rparr>"

definition loaded_state :: "machine \<Rightarrow> parsed_program \<Rightarrow> launch_config \<Rightarrow> launch_state" where
  "loaded_state w program config = (start_state w)\<lparr>fullflash_path := get_string program ''--fullflash'',
     flash0_otp0 := bank_otp0 (hd (config_banks config)), flash0_otp1 := bank_otp1 (hd (config_banks config))\<rparr>"

text \<open>\<open>main\<close> after the options are parsed, and \<open>main\<close>.\<close>

definition launch_parsed ::
  "outside \<Rightarrow> process_environment \<Rightarrow> machine \<Rightarrow> string list \<Rightarrow> parsed_program \<Rightarrow> launch option" where
  "launch_parsed os env w extraQemuArgs program =
     (case configure os program (the_disk w) of
        Inl failure \<Rightarrow> Some (leave os (failure_status failure) (start_state w))
      | Inr config \<Rightarrow>
          (case prepare os program config (loaded_state w program config) of
             None \<Rightarrow> None
           | Some (s, Some failure) \<Rightarrow> Some (leave os (failure_status failure) s)
           | Some (s, None) \<Rightarrow> run_qemu os program env extraQemuArgs config s))"

definition main :: "outside \<Rightarrow> process_environment \<Rightarrow> machine \<Rightarrow> string list \<Rightarrow> launch option" where
  "main os env w argv =
     (case split_args argv of
        (launcherArgs, extraQemuArgs) \<Rightarrow>
          (case parse_args os option_table launcherArgs of
             ParseExits status \<Rightarrow> Some (leave os (Some status) (start_state w))
           | ParseThrew \<Rightarrow> Some (leave os (Some 1) (start_state w))
           | Parsed program \<Rightarrow> launch_parsed os env w extraQemuArgs program))"

section \<open>The branches of the preparation\<close>

lemma recalculate_unchanged:
  assumes "recalculateFullflash data keys = (data', Inr outcome)" and "\<And>r. outcome = Some r \<Longrightarrow> \<not> result_changed r"
  shows "data' = data"
  using recalculate_outcome [of data keys] assms by (cases outcome) auto

definition recalculated :: "u8 list \<Rightarrow> u8 list" where
  "recalculated data = fst (recalculateFullflash data default_keys)"

lemma recalculate_image_cases:
  assumes "recalculate_image os rw s = Some (s', ok)"
  obtains (untouched) "s' = s"
      "\<And>data. ok \<Longrightarrow> readFile (the_disk (world s)) (fullflash_path s) = Some data \<Longrightarrow> recalculated data = data"
      "ok \<Longrightarrow> readFile (the_disk (world s)) (fullflash_path s) \<noteq> None"
  | (replaced) data disks where rw "readFile (the_disk (world s)) (fullflash_path s) = Some data"
      "replaceFile (system os) (replace_os os) (the_disk (world s)) (recalculated data) = (disks, ok)"
      "s' = s\<lparr>world := (world s)\<lparr>the_disk := hd disks\<rparr>, history := disks @ history s\<rparr>"
  | (copied) data w copy path where "\<not> rw" ok "readFile (the_disk (world s)) (fullflash_path s) = Some data"
      "create (system os) (create_os os) (world s) (fullflashCopy s) (recalculated data) = Some (w, copy, Inr path)"
      "s' = s\<lparr>world := w, history := the_disk w # history s, fullflashCopy := copy, fullflash_path := path\<rparr>"
  | (uncopied) data w copy err where "\<not> rw" "\<not> ok"
      "create (system os) (create_os os) (world s) (fullflashCopy s) (recalculated data) = Some (w, copy, Inl err)"
      "s' = s\<lparr>world := w, history := the_disk w # history s, fullflashCopy := copy\<rparr>"
proof (cases "readFile (the_disk (world s)) (fullflash_path s)")
  case None
  then show ?thesis using assms untouched by (simp add: recalculate_image_def)
next
  case read: (Some data)
  obtain data' outcome where run: "recalculateFullflash data default_keys = (data', outcome)" by fastforce
  then have data': "recalculated data = data'" by (simp add: recalculated_def)
  show ?thesis
  proof (cases "\<exists>r. outcome = Inr (Some r) \<and> result_changed r")
    case True
    show ?thesis
    proof (cases rw)
      case True
      then show ?thesis
        using assms read run \<open>\<exists>r. _\<close> replaced
        by (auto simp: recalculate_image_def data' split: prod.splits)
    next
      case False
      then show ?thesis
        using assms read run \<open>\<exists>r. _\<close> copied [OF False] uncopied [OF False, of data]
        by (auto simp: recalculate_image_def Let_def data' split: option.splits sum.splits prod.splits)
    qed
  next
    case False
    then have "data' = data" if "outcome = Inr x" for x
      using recalculate_unchanged [of data default_keys data' x] run that by auto
    moreover have "s' = s \<and> (ok \<longrightarrow> (\<exists>x. outcome = Inr x))"
      using assms read run False by (auto simp: recalculate_image_def split: sum.splits option.splits if_splits)
    ultimately show ?thesis using untouched read data' by auto
  qed
qed

lemma default_otps: "\<exists>a b. esnToOtp DEFAULT_ESN = Inr a \<and> imeiToOtp DEFAULT_IMEI = Inr b"
  by (simp add: esnToOtp_def imeiToOtp_def DEFAULT_ESN_def DEFAULT_IMEI_def isXDigit_def isDigit_def code_of_def)

text \<open>A Siemens phone without OTP options: the image is recalculated, or its OTP recovered.\<close>

definition siemens_default :: "launch_config \<Rightarrow> bool" where
  "siemens_default config \<longleftrightarrow> starts_with (config_device config) ''siemens-'' \<and> \<not> config_hasOTP config"

lemma prepare_cases:
  assumes "prepare os program config s = Some (s', failure)"
  obtains (options) "\<not> siemens_default config" "s' = s" "failure = None"
  | (recalc) t ok where "siemens_default config" "get_bool program ''--siemens-recalc''"
      "t = s\<lparr>flash0_otp0 := flash0_otp0 t, flash0_otp1 := flash0_otp1 t\<rparr>"
      "esnToOtp DEFAULT_ESN = Inr (flash0_otp0 t)" "imeiToOtp DEFAULT_IMEI = Inr (flash0_otp1 t)"
      "recalculate_image os (get_bool program ''--rw'') t = Some (s', ok)" "failure = (if ok then None else Some RecalcFailed)"
  | (recover) t where "siemens_default config" "\<not> get_bool program ''--siemens-recalc''"
      "t = s\<lparr>flash0_otp0 := flash0_otp0 t, flash0_otp1 := flash0_otp1 t\<rparr>"
      "esnToOtp DEFAULT_ESN = Inr (flash0_otp0 t)" "imeiToOtp DEFAULT_IMEI = Inr (flash0_otp1 t)"
      "s' = (if fullflash_path s \<noteq> '''' then recover_image_otp os t else t)" "failure = None"
proof -
  obtain a b where ab: "esnToOtp DEFAULT_ESN = Inr a" "imeiToOtp DEFAULT_IMEI = Inr b" using default_otps by blast
  let ?t = "s\<lparr>flash0_otp0 := a, flash0_otp1 := b\<rparr>"
  show ?thesis
  proof (cases "siemens_default config")
    case False
    then show ?thesis using assms options by (simp add: prepare_def siemens_default_def [symmetric])
  next
    case True
    then show ?thesis
      using assms ab recalc [of ?t] recover [of ?t]
      by (auto simp: prepare_def siemens_default_def [symmetric] Let_def split: if_splits)
  qed
qed

section \<open>What the preparation does to the machine\<close>

definition is_temp_path :: "platform \<Rightarrow> create_answers \<Rightarrow> string \<Rightarrow> bool" where
  "is_temp_path pl os p \<longleftrightarrow>
     (case temp_directory os of None \<Rightarrow> False | Some d \<Rightarrow> p = temp_path pl d (random_number os)) \<or>
     pl = MacOS \<and> (case mkstemp_directory os of None \<Rightarrow> False | Some d \<Rightarrow> p = mkstemp_path d (mkstemp_suffix os))"

lemma create_named_frame:
  "create_named pl os w t data = (w', t', r) \<Longrightarrow> is_temp_path pl os p \<or> the_disk w' p = the_disk w p"
  using writeFile_other [of p _ "temp_write os" "the_disk w" data]
  by (fastforce simp: create_named_def is_temp_path_def remove_file_def Let_def split: option.splits prod.splits if_splits)

lemma create_anonymous_frame:
  assumes "create_anonymous pl os w t data = Some r"
  shows "case r of
      Inl (w', t') \<Rightarrow> is_temp_path pl os p \<or> the_disk w' p = the_disk w p
    | Inr (w', t', path) \<Rightarrow> is_temp_path pl os p \<or> the_disk w' p = the_disk w p"
proof (cases "pl = MacOS")
  case True
  then show ?thesis
    using assms
    by (auto simp: create_anonymous_def create_mkstemp_def is_temp_path_def remove_file_def close_fd_def Let_def
        split: option.splits if_splits)
next
  case False
  then show ?thesis
    using assms
    by (cases pl) (auto simp: create_anonymous_def create_memfd_def close_fd_def Let_def split: option.splits if_splits)
qed

lemma create_frame:
  assumes "create pl os w t data = Some (w', t', r)"
  shows "is_temp_path pl os p \<or> the_disk w' p = the_disk w p"
proof (cases "m_filePath t = ''''")
  case True
  then obtain x where x: "create_anonymous pl os w t data = Some x"
    using assms by (auto simp: create_def split: option.splits)
  show ?thesis
  proof (cases x)
    case (Inl y)
    obtain v u where y: "y = (v, u)" by fastforce
    then have "create_named pl os v u data = (w', t', r)" using assms True x Inl by (simp add: create_def)
    then show ?thesis
      using create_named_frame [of pl os v u data w' t' r p] create_anonymous_frame [OF x, of p] Inl y by auto
  next
    case (Inr y)
    then show ?thesis using assms True x create_anonymous_frame [OF x, of p] by (cases y) (auto simp: create_def)
  qed
qed (use assms in \<open>simp add: create_def\<close>)

text \<open>
  What the names and numbers the operating system hands out are assumed to be: the descriptor and the
  names of temporary files new, and the canonical path of the fullflash the path itself, of an
  existing file; that \<open>ReplaceFileW\<close> does not fail half-way, and that macOS removes one of its names.
\<close>

definition fresh_names :: "outside \<Rightarrow> machine \<Rightarrow> string \<Rightarrow> bool" where
  "fresh_names os w path \<longleftrightarrow>
     descriptors w (new_fd (create_os os)) = None \<and>
     (case mkstemp_directory (create_os os) of None \<Rightarrow> True
        | Some d \<Rightarrow> system os = MacOS \<longrightarrow> the_disk w (mkstemp_path d (mkstemp_suffix (create_os os))) = None) \<and>
     cleans_up (system os) (create_os os) \<and>
     (case temp_directory (create_os os) of None \<Rightarrow> True
        | Some d \<Rightarrow> the_disk w (temp_path (system os) d (random_number (create_os os))) = None) \<and>
     (case canonical_path (replace_os os) of None \<Rightarrow> True | Some t \<Rightarrow> t = path \<and> the_disk w t \<noteq> None) \<and>
     (case replacement_path (replace_os os) of None \<Rightarrow> True | Some n \<Rightarrow> the_disk w n = None) \<and>
     keeps_target (system os) (replace_os os)"

lemma fresh_namesD:
  assumes "fresh_names os w path"
  shows "descriptors w (new_fd (create_os os)) = None"
    and "\<And>d. system os = MacOS \<Longrightarrow> mkstemp_directory (create_os os) = Some d \<Longrightarrow>
      the_disk w (mkstemp_path d (mkstemp_suffix (create_os os))) = None"
    and "cleans_up (system os) (create_os os)"
    and "\<And>d. temp_directory (create_os os) = Some d \<Longrightarrow>
      the_disk w (temp_path (system os) d (random_number (create_os os))) = None"
    and "\<And>t. canonical_path (replace_os os) = Some t \<Longrightarrow> t = path \<and> the_disk w t \<noteq> None"
    and "\<And>n. replacement_path (replace_os os) = Some n \<Longrightarrow> the_disk w n = None"
    and "keeps_target (system os) (replace_os os)"
  using assms by (simp_all add: fresh_names_def)

definition touched :: "outside \<Rightarrow> bool \<Rightarrow> string \<Rightarrow> disk \<Rightarrow> disk \<Rightarrow> string \<Rightarrow> bool" where
  "touched os rw path d d' p \<longleftrightarrow> p = path @ ''.esn'' \<or>
     (if rw then replacement_path (replace_os os) = Some p \<or>
         p = path \<and> map_option contents (d' p) = map_option (\<lambda>f. recalculated (contents f)) (d p)
      else is_temp_path (system os) (create_os os) p)"

lemma otps_only:
  assumes "t = s\<lparr>flash0_otp0 := a, flash0_otp1 := b\<rparr>"
  shows "world t = world s" "history t = history s" "fullflashCopy t = fullflashCopy s" "fullflash_path t = fullflash_path s"
  using assms by simp_all

lemma prepare_disks:
  assumes run: "prepare os program config s = Some (s', failure)" and start: "history s = [the_disk (world s)]"
    and fresh: "fresh_names os (world s) (fullflash_path s)" and d': "d' \<in> set (history s')"
  shows "d' p = the_disk (world s) p \<or> touched os (get_bool program ''--rw'') (fullflash_path s) (the_disk (world s)) d' p"
  using run
proof (cases rule: prepare_cases)
  case options
  then show ?thesis using d' start by simp
next
  case (recalc t ok)
  note t = otps_only [OF recalc(3), unfolded start]
  show ?thesis using recalc(6)
  proof (cases rule: recalculate_image_cases)
    case untouched
    then show ?thesis using d' t by simp
  next
    case (replaced data disks)
    have target: "\<And>x. canonical_path (replace_os os) = Some x \<Longrightarrow> x = fullflash_path s \<and> the_disk (world s) x \<noteq> None"
      and new: "\<And>x. replacement_path (replace_os os) = Some x \<Longrightarrow> the_disk (world s) x = None"
      and keeps: "keeps_target (system os) (replace_os os)"
      using fresh by (auto simp: fresh_names_def)
    have "replacement_path (replace_os os) = Some p \<or> d' p = the_disk (world s) p \<or>
        (canonical_path (replace_os os) = Some p \<and> map_option contents (d' p) = Some (recalculated data))"
      if "d' \<in> set disks"
      using replaceFile_outcome [of "replace_os os" "the_disk (world s)" "system os" "recalculated data" disks ok] that
        target new keeps replaced(3) t(1) by auto
    moreover have "map_option contents (the_disk (world s) (fullflash_path s)) = Some data"
      using replaced(2) t by (simp add: readFile_def)
    ultimately show ?thesis using d' replaced(1,4) t target by (auto simp: touched_def)
  next
    case (copied data w copy path)
    then show ?thesis using d' t create_frame [OF copied(4), of p] by (auto simp: touched_def)
  next
    case (uncopied data w copy err)
    then show ?thesis using d' t create_frame [OF uncopied(3), of p] by (auto simp: touched_def)
  qed
next
  case (recover t)
  note t = otps_only [OF recover(3), unfolded start]
  obtain d r where otp: "recoverOtp (cache_of os) (esn_search os) (the_disk (world t)) (fullflash_path t) = (d, r)"
    by fastforce
  have "history s' = (if fullflash_path s \<noteq> '''' then [d, the_disk (world s)] else [the_disk (world s)])"
    using recover(6) t otp by (auto simp: recover_image_otp_def see_disk_def Let_def split: sum.split option.split)
  then show ?thesis
    using d' recoverOtp_frame(1) [OF otp, of p] t by (auto simp: touched_def split: if_splits)
qed

text \<open>What QEMU reads as the flash image.\<close>

definition image_at :: "launch_state \<Rightarrow> u8 list option" where
  "image_at s = (if m_filePath (fullflashCopy s) \<noteq> '''' then visible_at (world s) (fullflashCopy s)
     else readFile (the_disk (world s)) (fullflash_path s))"

lemma fresh_temp_copy:
  assumes "fresh_names os w path" and "create (system os) (create_os os) w new_temp_file_copy data = Some (w', t', result)"
  shows "case result of
      Inr p \<Rightarrow> m_filePath t' = p \<and> m_filePath t' \<noteq> '''' \<and> visible_at w' t' = Some data \<and>
        destroy (system os) True w' t' = w
    | Inl err \<Rightarrow> temp_remove_works (create_os os) \<longrightarrow> destroy (system os) True w' t' = w"
proof -
  let ?again = "(create_os os)\<lparr>new_fd := - 1, mkstemp_directory := None, temp_directory := None\<rparr>"
  have "m_filePath t' \<noteq> ''''" if "create (system os) ?again w' t' [] = Some (w', t', Inl AlreadyExists)"
    using that
    by (cases "system os") (auto simp: create_def create_named_def create_anonymous_def create_memfd_def
        create_mkstemp_def split: if_splits)
  then show ?thesis
    using temp_copy_outcome [where os' = ?again and data' = "[]" and remove_ok = True, OF fresh_namesD(1-4) [OF assms(1)] assms(2)]
    by (cases result) auto
qed

lemma prepare_image:
  assumes run: "prepare os program config s = Some (s', None)" and copy: "fullflashCopy s = new_temp_file_copy"
    and fresh: "fresh_names os (world s) (fullflash_path s)"
  shows "image_at s' = map_option (\<lambda>data. if siemens_default config \<and> get_bool program ''--siemens-recalc''
      then recalculated data else data) (readFile (the_disk (world s)) (fullflash_path s))"
  using run
proof (cases rule: prepare_cases)
  case options
  then show ?thesis using copy by (simp add: image_at_def new_temp_file_copy_def option.map_ident)
next
  case (recalc t ok)
  note t = otps_only [OF recalc(3), unfolded copy]
  have ok using recalc(7) by (simp split: if_splits)
  show ?thesis using recalc(6)
  proof (cases rule: recalculate_image_cases)
    case untouched
    then show ?thesis
      using t \<open>ok\<close> recalc(1,2) by (cases "readFile (the_disk (world s)) (fullflash_path s)")
        (auto simp: image_at_def new_temp_file_copy_def)
  next
    case (replaced data disks)
    have "readFile (hd disks) (fullflash_path s) = Some (recalculated data)"
      using replaceFile_outcome [of "replace_os os" "the_disk (world s)" "system os" "recalculated data" disks ok]
        fresh replaced(3) t(1) \<open>ok\<close> by (auto simp: fresh_names_def readFile_def split: option.splits)
    then show ?thesis using replaced t recalc(1,2) by (simp add: image_at_def new_temp_file_copy_def)
  next
    case (copied data w copy path)
    then show ?thesis
      using fresh_temp_copy [of os "world s" "fullflash_path s" "recalculated data" w copy "Inr path"] fresh t recalc(1,2)
      by (auto simp: image_at_def)
  next
    case uncopied
    then show ?thesis using \<open>ok\<close> by simp
  qed
next
  case (recover t)
  note t = otps_only [OF recover(3), unfolded copy]
  obtain d r where otp: "recoverOtp (cache_of os) (esn_search os) (the_disk (world t)) (fullflash_path t) = (d, r)"
    by fastforce
  have "the_disk (world s') = (if fullflash_path s \<noteq> '''' then d else the_disk (world s))"
    "fullflashCopy s' = new_temp_file_copy" "fullflash_path s' = fullflash_path s"
    using recover(6) t otp by (auto simp: recover_image_otp_def see_disk_def Let_def split: sum.split option.split)
  then show ?thesis
    using recoverOtp_frame(1) [OF otp, of "fullflash_path s"] t recover(2)
    by (auto simp: image_at_def new_temp_file_copy_def readFile_def option.map_ident)
qed

lemma destroy_new [simp]: "destroy pl works w new_temp_file_copy = w"
  by (simp add: destroy_def new_temp_file_copy_def)

text \<open>After the destructor only the cache is left of a run without \<open>--rw\<close>.\<close>

lemma prepare_clean:
  assumes run: "prepare os program config s = Some (s', failure)" and copy: "fullflashCopy s = new_temp_file_copy"
    and fresh: "fresh_names os (world s) (fullflash_path s)" and ro: "\<not> get_bool program ''--rw''"
    and works: "failure = None \<or> temp_remove_works (create_os os)"
  shows "descriptors (destroy (system os) True (world s') (fullflashCopy s')) = descriptors (world s)"
    and "p = fullflash_path s @ ''.esn'' \<or>
      the_disk (destroy (system os) True (world s') (fullflashCopy s')) p = the_disk (world s) p"
proof -
  have "descriptors (destroy (system os) True (world s') (fullflashCopy s')) = descriptors (world s) \<and>
    (p = fullflash_path s @ ''.esn'' \<or> the_disk (destroy (system os) True (world s') (fullflashCopy s')) p = the_disk (world s) p)"
    using run
  proof (cases rule: prepare_cases)
    case options
    then show ?thesis using copy by simp
  next
    case (recalc t ok)
    note t = otps_only [OF recalc(3), unfolded copy]
    show ?thesis using recalc(6)
    proof (cases rule: recalculate_image_cases)
      case untouched
      then show ?thesis using t by simp
    next
      case replaced
      then show ?thesis using ro by simp
    next
      case (copied data w copy path)
      then show ?thesis
        using fresh_temp_copy [of os "world s" "fullflash_path s" "recalculated data" w copy "Inr path"] fresh t by simp
    next
      case (uncopied data w copy err)
      then show ?thesis
        using fresh_temp_copy [of os "world s" "fullflash_path s" "recalculated data" w copy "Inl err"] fresh t works
          recalc(7) by simp
    qed
  next
    case (recover t)
    note t = otps_only [OF recover(3), unfolded copy]
    obtain d r where otp: "recoverOtp (cache_of os) (esn_search os) (the_disk (world t)) (fullflash_path t) = (d, r)"
      by fastforce
    have "world s' = (if fullflash_path s \<noteq> '''' then (world s)\<lparr>the_disk := d\<rparr> else world s)"
      "fullflashCopy s' = new_temp_file_copy"
      using recover(6) t otp by (auto simp: recover_image_otp_def see_disk_def Let_def split: sum.split option.split)
    then show ?thesis using recoverOtp_frame(1) [OF otp, of p] t by auto
  qed
  then show "descriptors (destroy (system os) True (world s') (fullflashCopy s')) = descriptors (world s)"
    and "p = fullflash_path s @ ''.esn'' \<or>
      the_disk (destroy (system os) True (world s') (fullflashCopy s')) p = the_disk (world s) p" by simp_all
qed

section \<open>The branches of main\<close>

lemma loaded_fields [simp]:
  "world (loaded_state w program config) = w" "history (loaded_state w program config) = [the_disk w]"
  "fullflashCopy (loaded_state w program config) = new_temp_file_copy"
  "fullflash_path (loaded_state w program config) = get_string program ''--fullflash''"
  by (simp_all add: loaded_state_def start_state_def)

lemma start_fields [simp]:
  "world (start_state w) = w" "history (start_state w) = [the_disk w]" "fullflashCopy (start_state w) = new_temp_file_copy"
  by (simp_all add: start_state_def)

lemma leave_fields [simp]:
  "exit_status (leave os status s) = status" "spawned (leave os status s) = None" "disks_seen (leave os status s) = history s"
  "final_machine (leave os status s) = destroy (system os) (exit_remove_works os) (world s) (fullflashCopy s)"
  by (simp_all add: leave_def)

lemma run_qemu_cases:
  assumes "run_qemu os program env extra config s = Some l"
  obtains "\<not> spawn_works (process_os os)" "l = leave os (Some 1) s"
  | "spawn_works (process_os os)" "disks_seen l = history s"
      "exit_status l = (case snd (executeProcess (system os) (process_os os) (buildQemuArgs (system os) program
         (config_qemu config) (get_bool program ''--rw'') (fullflash_path s) (config_sim config) extra)) of
           Some (Inr status) \<Rightarrow> Some status | _ \<Rightarrow> Some 1)"
      "spawned l = Some (pass_arguments (system os) (map c_str (buildQemuArgs (system os) program (config_qemu config)
         (get_bool program ''--rw'') (fullflash_path s) (config_sim config) extra)),
         set_all (system os) (GTK_ENVIRONMENT (system os) @ qemuEnv program config s) env, s)"
      "final_machine l = destroy (system os) (exit_remove_works os) (child_run os (world s)) (fullflashCopy s)"
  using assms by (auto simp: run_qemu_def executeProcess_def Let_def split: if_splits option.splits)

lemma main_cases:
  assumes "main os env w argv = Some l"
  obtains (unparsed) status where "\<nexists>program. parse_args os option_table (fst (split_args argv)) = Parsed program"
      "l = leave os status (start_state w)"
  | (refused) program failure where "parse_args os option_table (fst (split_args argv)) = Parsed program"
      "configure os program (the_disk w) = Inl failure" "l = leave os (failure_status failure) (start_state w)"
  | (failed) program config s failure where "parse_args os option_table (fst (split_args argv)) = Parsed program"
      "configure os program (the_disk w) = Inr config"
      "prepare os program config (loaded_state w program config) = Some (s, Some failure)"
      "l = leave os (failure_status failure) s"
  | (ran) program config s where "parse_args os option_table (fst (split_args argv)) = Parsed program"
      "configure os program (the_disk w) = Inr config"
      "prepare os program config (loaded_state w program config) = Some (s, None)"
      "run_qemu os program env (snd (split_args argv)) config s = Some l"
  using assms
  by (cases "split_args argv")
    (auto simp: main_def launch_parsed_def split: parse_outcome.splits sum.splits option.splits)

end
