(* ===== verification/LauncherProperties.thy ===== *)
theory LauncherProperties
  imports Launcher
begin

text \<open>
  The properties of \<open>main\<close>: which options it reads, what it refuses, the arguments and the environment
  it gives to QEMU, the image QEMU sees, and what happens to the files of the user.
\<close>

section \<open>Arguments\<close>

lemma split_args_separated: "''--'' \<notin> set a \<Longrightarrow> split_args (a @ ''--'' # e) = (a, e)"
proof -
  assume "''--'' \<notin> set a"
  then have "takeWhile (\<lambda>arg. arg \<noteq> ''--'') (a @ ''--'' # e) = a" by (subst takeWhile_append2) auto
  then show ?thesis by (simp add: split_args_def)
qed

lemma split_args_whole: "''--'' \<notin> set a \<Longrightarrow> split_args a = (a, [])"
proof -
  assume "''--'' \<notin> set a"
  then have eq: "takeWhile (\<lambda>arg. arg \<noteq> ''--'') a = a" by (intro takeWhile_eq_all_conv [THEN iffD2]) auto
  show ?thesis unfolding split_args_def Let_def eq by simp
qed

lemma buildQemuArgs_extra:
  "buildQemuArgs pl program bin rw path sim extra = buildQemuArgs pl program bin rw path sim [] @ extra"
  by (simp add: buildQemuArgs_def)

lemma buildQemuArgs_nonempty [simp]: "buildQemuArgs pl program bin rw path sim extra \<noteq> []"
  by (simp add: buildQemuArgs_def)

text \<open>The arguments of a child with more at the end.\<close>

definition more_arguments :: "string list \<Rightarrow> child_arguments \<Rightarrow> child_arguments" where
  "more_arguments extra child =
     (case child of
        ArgumentVector args \<Rightarrow> ArgumentVector (args @ extra)
      | CommandLine file line \<Rightarrow> CommandLine file (line @ concat (map (\<lambda>arg. CHR '' '' # arg) extra)))"

lemma pass_arguments_append:
  "args \<noteq> [] \<Longrightarrow> pass_arguments pl (args @ extra) = more_arguments extra (pass_arguments pl args)"
  by (cases args) (simp_all add: pass_arguments_def more_arguments_def joinStrings_Cons)

lemma executeProcess_more:
  "args \<noteq> [] \<Longrightarrow> executeProcess pl os (args @ extra) =
    (map_option (more_arguments (map c_str extra)) (fst (executeProcess pl os args)), snd (executeProcess pl os args))"
  by (simp add: executeProcess_def pass_arguments_append Let_def)

lemma run_qemu_extra:
  "run_qemu os program env extra config s = map_option
    (\<lambda>l. l\<lparr>spawned := map_option (\<lambda>(args, r). (more_arguments (map c_str extra) args, r)) (spawned l)\<rparr>)
    (run_qemu os program env [] config s)"
proof -
  define args where "args = buildQemuArgs (system os) program (config_qemu config) (get_bool program ''--rw'')
    (fullflash_path s) (config_sim config) []"
  have "buildQemuArgs (system os) program (config_qemu config) (get_bool program ''--rw'') (fullflash_path s)
      (config_sim config) extra = args @ extra"
    unfolding args_def by (rule buildQemuArgs_extra)
  moreover obtain child answer where run: "executeProcess (system os) (process_os os) args = (child, answer)" by fastforce
  moreover have "executeProcess (system os) (process_os os) (args @ extra) =
      (map_option (more_arguments (map c_str extra)) child, answer)"
    using executeProcess_more [of args "system os" "process_os os" extra] run by (simp add: args_def)
  ultimately show ?thesis
    by (simp add: run_qemu_def Let_def leave_def args_def [symmetric] split: option.split)
qed

section \<open>Accepted configurations\<close>

lemma checkSimOptions_ok:
  assumes "checkSimOptions os sim = Inr sim'"
  shows "sim_source sim' \<in> {''virtual'', ''none'', ''reader''} \<and> (readerName sim' = '''' \<or> sim_source sim' = ''reader'') \<and>
    (hasVirtualSimOptions sim \<longrightarrow> sim_source sim' = ''virtual'')"
  using assms by (auto simp: checkSimOptions_def split: if_splits option.splits)

lemma configure_cases:
  assumes "configure os program d = r"
  obtains (refused) failure where "r = Inl failure" "\<And>err. failure \<noteq> DefaultOtpThrew err"
  | (accepted) config where "r = Inr config" "checkSimOptions os (readSimOptions program) = Inr (config_sim config)"
      "get_string program ''--startup'' \<noteq> ''''"
      "chooseDevice d (get_string program ''--device'') (get_string program ''--fullflash'') = Inr (config_device config)"
proof (cases "getQemuBinaryPath (system os) (paths os)")
  case (Inl err)
  then show ?thesis using assms refused by (auto simp: configure_def)
next
  case qemu: (Inr qemuBin)
  show ?thesis
  proof (cases "checkSimOptions os (readSimOptions program)")
    case (Inl failure)
    then have "failure \<noteq> DefaultOtpThrew err" for err by (auto simp: checkSimOptions_def split: if_splits option.splits)
    then show ?thesis using assms refused [of failure] qemu Inl by (simp add: configure_def)
  next
    case sim: (Inr sim)
    show ?thesis
    proof (cases "get_string program ''--startup'' = ''''")
      case True
      then show ?thesis using assms refused [of EmptyStartup] qemu sim by (simp add: configure_def)
    next
      case startup: False
      show ?thesis
      proof (cases "chooseDevice d (get_string program ''--device'') (get_string program ''--fullflash'')")
        case (Inl failure)
        then have "failure \<noteq> DefaultOtpThrew err" for err by (auto simp: chooseDevice_def split: if_splits option.splits)
        then show ?thesis using assms refused [of failure] qemu sim startup Inl by (simp add: configure_def)
      next
        case device: (Inr device)
        show ?thesis
        proof (cases "getBoardConfigPath (system os) (paths os) device")
          case (Inl err)
          then show ?thesis using assms refused [of "NoBoard err"] qemu sim startup device by (simp add: configure_def)
        next
          case board: (Inr board)
          let ?otp = "applySiemensOtp program (get_string program ''--siemens-esn'') (get_string program ''--siemens-imei'')
            (readFlashOptions program)"
          show ?thesis
          proof (cases ?otp)
            case (Inl failure)
            then have "failure \<noteq> DefaultOtpThrew err" for err
              by (auto simp: applySiemensOtp_def Let_def map_sum_def split: if_splits sum.splits prod.splits)
            then show ?thesis using assms refused [of failure] qemu sim startup device board Inl by (simp add: configure_def)
          next
            case (Inr options)
            then show ?thesis
              using assms qemu sim startup device board
                accepted [of "\<lparr>config_qemu = qemuBin, config_device = device, config_board = board, config_sim = sim,
                  config_banks = fst options, config_hasOTP = snd options\<rparr>"]
              by (cases options) (simp add: configure_def)
          qed
        qed
      qed
    qed
  qed
qed

lemma prepare_status:
  assumes "prepare os program config s = Some (s', Some failure)"
  shows "failure_status failure = Some 1"
  using assms by (cases rule: prepare_cases) (auto simp: failure_status_def split: if_splits)

section \<open>The environment\<close>

text \<open>The variables of one bank, and their full names.\<close>

definition bank_variables :: "flash_bank \<Rightarrow> (string \<times> string) list" where
  "bank_variables bank = [(''OTP0'', bank_otp0 bank), (''OTP1'', bank_otp1 bank), (''OTP0_FILE'', bank_otp0File bank),
     (''OTP1_FILE'', bank_otp1File bank), (''EFA_FILE'', bank_efaFile bank)]"

text \<open>What a variable holds that was set to a string: on Windows an empty value removes it.\<close>

definition exported :: "platform \<Rightarrow> string \<Rightarrow> string option" where
  "exported pl v = (if isWindows pl \<and> c_str v = '''' then None else Some (c_str v))"

lemma setEnvironmentVariable_plain:
  assumes "k \<noteq> ''''" and "CHR 0x00 \<notin> set k" and "CHR ''='' \<notin> set k"
  shows "setEnvironmentVariable pl env k v = env(k := exported pl v)"
proof -
  have "c_str (k @ ''='' @ v) = k @ ''='' @ c_str v"
    using assms(2) by (auto simp: c_str_def takeWhile_append)
  moreover have "takeWhile (\<lambda>c. c \<noteq> CHR ''='') (k @ CHR ''='' # c_str v) = k"
    using assms(3) by (subst takeWhile_append2) auto
  ultimately show ?thesis
    using assms by (simp add: setEnvironmentVariable_def putenv_def exported_def Let_def)
qed

lemma set_all_append: "set_all pl (a @ b) env = set_all pl b (set_all pl a env)"
  by (simp add: set_all_def)

lemma set_all_Nil [simp]: "set_all pl [] env = env" by (simp add: set_all_def)

lemma set_all_Cons: "k \<noteq> '''' \<Longrightarrow> CHR 0x00 \<notin> set k \<Longrightarrow> CHR ''='' \<notin> set k \<Longrightarrow>
    set_all pl ((k, v) # rest) env = set_all pl rest (env(k := exported pl v))"
  by (simp add: set_all_def setEnvironmentVariable_plain)

lemma set_all_if: "k \<noteq> '''' \<Longrightarrow> CHR 0x00 \<notin> set k \<Longrightarrow> CHR ''='' \<notin> set k \<Longrightarrow>
    set_all pl (if c then [(k, v)] else []) env = (if c then env(k := exported pl v) else env)"
  by (simp add: set_all_Cons)

lemma bank_names: "to_string 0 = ''0''" "to_string 1 = ''1''" "to_string 2 = ''2''" "to_string 3 = ''3''"
  by code_simp+

definition bank_key :: "nat \<Rightarrow> string \<Rightarrow> string" where
  "bank_key i suffix = ''PMB887X_FLASH'' @ to_string i @ ''_'' @ suffix"

lemma bank_index_cases:
  assumes "i < FLASH_BANK_COUNT"
  obtains "i = 0" | "i = 1" | "i = 2" | "i = 3"
  using assms by (auto simp: FLASH_BANK_COUNT_def) linarith

lemma bank_key_inject:
  assumes "i < FLASH_BANK_COUNT" and "j < FLASH_BANK_COUNT"
  shows "bank_key i s = bank_key j t \<longleftrightarrow> i = j \<and> s = t"
  by (rule bank_index_cases [OF assms(1)]; rule bank_index_cases [OF assms(2)]; simp add: bank_key_def bank_names [simplified])

lemma bank_key_plain:
  assumes "i < FLASH_BANK_COUNT" and "CHR 0x00 \<notin> set suffix" and "CHR ''='' \<notin> set suffix"
  shows "bank_key i suffix \<noteq> ''''" and "CHR 0x00 \<notin> set (bank_key i suffix)" and "CHR ''='' \<notin> set (bank_key i suffix)"
  by (rule bank_index_cases [OF assms(1)]; use assms in \<open>simp add: bank_key_def bank_names [simplified]\<close>)+

lemma bank_environment_keys:
  "bank_environment i bank = concat (map (\<lambda>(suffix, v). if v \<noteq> '''' then [(bank_key i suffix, v)] else [])
    (bank_variables bank))"
  by (simp add: bank_environment_def bank_variables_def bank_key_def Let_def)

lemma set_all_bank:
  assumes "i < FLASH_BANK_COUNT"
  shows "set_all pl (bank_environment i bank) env (bank_key i suffix) =
    (case map_of (bank_variables bank) suffix of None \<Rightarrow> env (bank_key i suffix)
     | Some v \<Rightarrow> if v = '''' then env (bank_key i suffix) else exported pl v)"
  unfolding bank_environment_keys
  by (simp add: bank_variables_def set_all_append set_all_if bank_key_plain assms bank_key_inject)

definition plain_name :: "string \<Rightarrow> bool" where
  "plain_name k \<longleftrightarrow> k \<noteq> '''' \<and> CHR 0x00 \<notin> set k \<and> CHR ''='' \<notin> set k"

lemma set_all_miss:
  assumes "\<forall>(k, v) \<in> set entries. k \<noteq> n \<and> plain_name k"
  shows "set_all pl entries env n = env n"
  using assms
proof (induction entries arbitrary: env)
  case (Cons entry entries)
  then show ?case by (cases entry) (auto simp: plain_name_def set_all_Cons)
qed simp

lemma bank_environment_miss:
  assumes "j < FLASH_BANK_COUNT" "\<forall>suffix. n \<noteq> bank_key j suffix"
  shows "set_all pl (bank_environment j bank) env n = env n"
  using assms by (intro set_all_miss) (auto simp: bank_environment_keys bank_variables_def bank_key_plain plain_name_def)

lemma flash_environment_at:
  assumes "i < FLASH_BANK_COUNT"
  shows "set_all pl (flash_environment banks) env (bank_key i suffix) =
    (case map_of (bank_variables (banks ! i)) suffix of None \<Rightarrow> env (bank_key i suffix)
     | Some v \<Rightarrow> if v = '''' then env (bank_key i suffix) else exported pl v)"
proof -
  have other: "set_all pl (concat (map (\<lambda>j. bank_environment j (banks ! j)) js)) env (bank_key i suffix) = env (bank_key i suffix)"
    if "\<forall>j \<in> set js. j < FLASH_BANK_COUNT \<and> j \<noteq> i" for js env
    using that
  proof (induction js arbitrary: env)
    case (Cons j js)
    have "set_all pl (bank_environment j (banks ! j)) env (bank_key i suffix) = env (bank_key i suffix)"
      using Cons.prems assms by (intro bank_environment_miss) (auto simp: bank_key_inject)
    then show ?case using Cons by (simp add: set_all_append)
  qed simp
  have "[0..<FLASH_BANK_COUNT] = [0..<i] @ i # [Suc i..<FLASH_BANK_COUNT]"
    using assms by (metis upt_add_eq_append upt_conv_Cons le_add_diff_inverse less_imp_le_nat zero_le)
  then show ?thesis
    using assms other [of "[0..<i]" env] other [of "[Suc i..<FLASH_BANK_COUNT]"]
    by (simp add: flash_environment_def set_all_append set_all_bank split: option.split)
qed

lemma flash_environment_miss:
  assumes "\<forall>i < FLASH_BANK_COUNT. \<forall>suffix. n \<noteq> bank_key i suffix"
  shows "set_all pl (flash_environment banks) env n = env n"
proof (rule set_all_miss)
  show "\<forall>(k, v) \<in> set (flash_environment banks). k \<noteq> n \<and> plain_name k"
    using assms
    by (auto simp: flash_environment_def bank_environment_keys bank_variables_def bank_key_plain plain_name_def)
qed

lemma start_environment_at:
  assumes "n = ''PMB887X_BOARD'' \<or> n = ''PMB887X_STARTUP''"
  shows "set_all pl (GTK_ENVIRONMENT pl @ start_environment program board startup) env n =
    exported pl (if n = ''PMB887X_BOARD'' then board else startup)"
proof -
  have "set_all pl (start_environment program board startup) env n =
      exported pl (if n = ''PMB887X_BOARD'' then board else startup)" for env
    using assms by (auto simp: start_environment_def set_all_append set_all_if set_all_Cons)
  then show ?thesis by (simp add: set_all_append)
qed

lemma start_environment_miss:
  "set_all pl (GTK_ENVIRONMENT pl @ start_environment program board startup) env (bank_key i suffix) = env (bank_key i suffix)"
  by (intro set_all_miss) (auto simp: GTK_ENVIRONMENT_def start_environment_def bank_key_def plain_name_def)

definition default_otp :: "string \<times> string" where
  "default_otp = (case (esnToOtp DEFAULT_ESN, imeiToOtp DEFAULT_IMEI) of
     (Inr a, Inr b) \<Rightarrow> (a, b) | _ \<Rightarrow> ('''', ''''))"

text \<open>The OTP values that bank 0 should get.\<close>

definition chosen_otp :: "outside \<Rightarrow> parsed_program \<Rightarrow> launch_config \<Rightarrow> disk \<Rightarrow> string \<Rightarrow> string \<times> string" where
  "chosen_otp os program config d path =
     (if \<not> siemens_default config then (bank_otp0 (hd (config_banks config)), bank_otp1 (hd (config_banks config)))
      else if get_bool program ''--siemens-recalc'' \<or> path = '''' then default_otp
      else case snd (recoverOtp (cache_of os) (esn_search os) d path) of
        Inr (Some codes) \<Rightarrow> (otp0 codes, otp1 codes)
      | _ \<Rightarrow> default_otp)"

lemma prepare_otp:
  assumes "prepare os program config (loaded_state w program config) = Some (s, None)"
  shows "(flash0_otp0 s, flash0_otp1 s) = chosen_otp os program config (the_disk w) (get_string program ''--fullflash'')"
  using assms
proof (cases rule: prepare_cases)
  case options
  then show ?thesis by (simp add: chosen_otp_def loaded_state_def)
next
  case (recalc t ok)
  have "flash0_otp0 s = flash0_otp0 t \<and> flash0_otp1 s = flash0_otp1 t"
    using recalc(6) by (cases rule: recalculate_image_cases) simp_all
  then show ?thesis using recalc by (simp add: chosen_otp_def default_otp_def)
next
  case (recover t)
  note t = otps_only [OF recover(3)]
  show ?thesis
    using recover t
    by (auto simp: chosen_otp_def default_otp_def recover_image_otp_def see_disk_def Let_def
        split: prod.splits sum.splits option.splits)
qed

section \<open>The options that main reads\<close>

text \<open>Two results of the parser that agree on the declared options, each by the accessor of its kind.\<close>

definition same_option :: "parsed_program \<Rightarrow> parsed_program \<Rightarrow> argument_kind \<Rightarrow> string \<Rightarrow> bool" where
  "same_option p q kind name \<longleftrightarrow> (case kind of
       Flag \<Rightarrow> get_bool p name = get_bool q name
     | Default _ \<Rightarrow> get_string p name = get_string q name \<and> is_used p name = is_used q name
     | Optional \<Rightarrow> present p name = present q name \<and> (present p name = None \<or> get_string p name = get_string q name))"

definition same_options :: "parsed_program \<Rightarrow> parsed_program \<Rightarrow> bool" where
  "same_options p q \<longleftrightarrow> list_all (\<lambda>(names, kind). list_all (same_option p q kind) names) option_table"

lemma same_options_facts:
  assumes "same_options p q"
  shows "list_all (\<lambda>(names, kind). list_all (same_option p q kind) names) main_options"
    and "list_all (\<lambda>(names, kind). list_all (same_option p q kind) names) otp_options"
    and "list_all (\<lambda>(names, kind). list_all (same_option p q kind) names) sim_options_table"
    and "list_all (\<lambda>(names, kind). list_all (same_option p q kind) names) run_options"
  using assms by (simp_all add: same_options_def option_table_def)

lemma same_sim: "same_options p q \<Longrightarrow> readSimOptions p = readSimOptions q"
  using same_options_facts(3) [of p q] by (simp add: readSimOptions_def sim_options_table_def same_option_def)

lemma same_main:
  assumes "same_options p q"
  shows "get_string p ''--device'' = get_string q ''--device''" "get_string p ''--fullflash'' = get_string q ''--fullflash''"
    "get_bool p ''--rw'' = get_bool q ''--rw''"
  using same_options_facts(1) [OF assms] by (simp_all add: main_options_def same_option_def)

lemma same_otp:
  assumes "same_options p q"
  shows "readFlashOptions p = readFlashOptions q" "get_string p ''--siemens-esn'' = get_string q ''--siemens-esn''"
    "get_string p ''--siemens-imei'' = get_string q ''--siemens-imei''" "is_used p ''--siemens-esn'' = is_used q ''--siemens-esn''"
    "is_used p ''--siemens-imei'' = is_used q ''--siemens-imei''" "get_bool p ''--siemens-recalc'' = get_bool q ''--siemens-recalc''"
  using same_options_facts(2) [OF assms]
  by (simp_all add: otp_options_def same_option_def FLASH_BANK_COUNT_def upt_rec readFlashOptions_def readFlashBank_def Let_def)

lemma same_run:
  assumes "same_options p q"
  shows "get_string p ''--startup'' = get_string q ''--startup''" "start_environment p = start_environment q"
    "buildQemuArgs pl p = buildQemuArgs pl q"
proof -
  note facts = same_options_facts(4) [OF assms, unfolded run_options_def]
  show "get_string p ''--startup'' = get_string q ''--startup''" using facts by (simp add: same_option_def)
  show "start_environment p = start_environment q"
    using facts by (simp add: start_environment_def same_option_def fun_eq_iff)
  have opt: "present p n = present q n \<and> (present p n = None \<or> get_string p n = get_string q n)"
    if "n \<in> {''--serial'', ''--trace'', ''--trace-io'', ''--trace-log'', ''--qemu-debug'', ''--qemu-monitor''}" for n
  proof -
    have "same_option p q Optional n" using facts that by auto
    then show ?thesis by (auto simp: same_option_def)
  qed
  have flag: "get_bool p ''--trace-time'' = get_bool q ''--trace-time''" "get_bool p ''--usartd'' = get_bool q ''--usartd''"
    using facts by (simp_all add: same_option_def)
  have "debug_channels p = debug_channels q"
    using opt [of "''--trace''"] opt [of "''--trace-io''"] opt [of "''--trace-log''"] flag(1)
    by (auto simp: debug_channels_def split: option.split)
  moreover have "serial_arguments pl p = serial_arguments pl q"
    using opt [of "''--serial''"] flag(2) by (auto simp: serial_arguments_def split: option.split)
  moreover have "debug_arguments p = debug_arguments q"
    using opt [of "''--qemu-debug''"] by (auto simp: debug_arguments_def split: option.split)
  moreover have "get_bool p ''--qemu-run-with-gdb'' = get_bool q ''--qemu-run-with-gdb''"
    "present p ''--qemu-accel'' = present q ''--qemu-accel''" "present p ''--qemu-icount'' = present q ''--qemu-icount''"
    "get_bool p ''--headless'' = get_bool q ''--headless''" "get_bool p ''--gdb'' = get_bool q ''--gdb''"
    using facts by (simp_all add: same_option_def)
  ultimately show "buildQemuArgs pl p = buildQemuArgs pl q"
    using opt [of "''--qemu-monitor''"] by (auto simp: buildQemuArgs_def trace_arguments_def fun_eq_iff split: option.split)
qed

section \<open>A sample run\<close>

text \<open>The phone image of the theory Recovery, started by its device name, with an interrupted wait.\<close>

definition sample_program :: parsed_program where
  "sample_program = \<lparr>get_string = (\<lambda>n. if n = ''--fullflash'' then ''EL71.bin'' else if n = ''--device'' then ''siemens-el71''
       else if n = ''--sim'' then ''virtual'' else if n = ''--startup'' then ''ONLINE'' else ''''),
     get_bool = (\<lambda>_. False), present = (\<lambda>_. None), is_used = (\<lambda>_. False)\<rparr>"

definition sample_outside :: outside where
  "sample_outside = \<lparr>system = Linux, parse_args = (\<lambda>_ _. Parsed sample_program),
     paths = \<lparr>executable_link = Some ''/opt/emu'', working_directory = None, path_exists = (\<lambda>_. True), canonical_of = Some\<rparr>,
     absolute_of = Some, cache_of = phone_library, esn_search = (\<lambda>meth. sequential_sweep),
     replace_os = (sample_answers True Unchanged)\<lparr>canonical_path := Some ''EL71.bin'', replacement_path := Some ''EL71.tmp''\<rparr>,
     create_os = sample_create True,
     process_os = \<lparr>spawn_works = True, wait_calls = [WaitInterrupted, Exited 0], spawn_status = 0\<rparr>,
     child_run = (\<lambda>m. m), exit_remove_works = True\<rparr>"

definition phone_machine :: machine where
  "phone_machine = \<lparr>the_disk = phone_disk, descriptors = Map.empty\<rparr>"

lemma sample_configure: "\<exists>config. configure sample_outside sample_program d = Inr config \<and> siemens_default config \<and>
    readFlashOptions sample_program = (config_banks config, config_hasOTP config)"
proof -
  have "readFlashOptions sample_program =
      (replicate 4 \<lparr>bank_otp0 = '''', bank_otp1 = '''', bank_otp0File = '''', bank_otp1File = '''', bank_efaFile = ''''\<rparr>, False)"
    by (simp add: readFlashOptions_def readFlashBank_def sample_program_def FLASH_BANK_COUNT_def upt_rec bank_given_def Let_def numeral_eq_Suc)
  then show ?thesis
    by (simp add: configure_def sample_outside_def getQemuBinaryPath_def getExecutableDirectory_def qemu_variants_def
      getBoardConfigPath_def board_variants_def checkSimOptions_def readSimOptions_def sample_program_def hasVirtualSimOptions_def
      chooseDevice_def applySiemensOtp_def siemens_default_def starts_with_def ends_with_def)
qed

lemma sample_run:
  obtains l config args env' s where "main sample_outside Map.empty phone_machine [''emu''] = Some l"
    "configure sample_outside sample_program (the_disk phone_machine) = Inr config" "siemens_default config"
    "config_banks config = fst (readFlashOptions sample_program)"
    "spawned l = Some (args, env', s)" "exit_status l = Some 0"
proof -
  obtain config where config: "configure sample_outside sample_program phone_disk = Inr config" "siemens_default config"
    "readFlashOptions sample_program = (config_banks config, config_hasOTP config)"
    using sample_configure by blast
  obtain a b where ab: "esnToOtp DEFAULT_ESN = Inr a" "imeiToOtp DEFAULT_IMEI = Inr b" using default_otps by blast
  have program: "get_bool sample_program n = False" "get_string sample_program ''--fullflash'' = ''EL71.bin''" for n
    by (simp_all add: sample_program_def)
  obtain s where s: "prepare sample_outside sample_program config (loaded_state phone_machine sample_program config) = Some (s, None)"
    using config(2) ab by (simp add: prepare_def siemens_default_def program)
  have "\<exists>l x. run_qemu sample_outside sample_program Map.empty [] config s = Some l \<and> spawned l = Some x \<and> exit_status l = Some 0"
    by (simp add: run_qemu_def executeProcess_def sample_outside_def isWindows_def Let_def)
  moreover have "main sample_outside Map.empty phone_machine [''emu''] = run_qemu sample_outside sample_program Map.empty [] config s"
    using config s by (simp add: main_def launch_parsed_def sample_outside_def split_args_def phone_machine_def)
  ultimately show ?thesis using that config by (auto simp: phone_machine_def)
qed

lemma sample_parsed: "parse_args sample_outside table args = Parsed sample_program"
  by (simp add: sample_outside_def)

lemma sample_names: "fresh_names sample_outside phone_machine ''EL71.bin''"
  by (simp add: fresh_names_def sample_outside_def phone_machine_def phone_disk_def sample_create_def sample_answers_def
      cleans_up_def keeps_target_def isWindows_def)

lemma sample_fields: "get_string sample_program ''--fullflash'' = ''EL71.bin''" "get_bool sample_program n = False"
  "get_string sample_program ''--startup'' = ''ONLINE''" "the_disk phone_machine = phone_disk" "system sample_outside = Linux"
  by (simp_all add: sample_program_def phone_machine_def sample_outside_def)

section \<open>Properties\<close>





text \<open>C32. No trace is left.  After a launch without \<open>--rw\<close> whose child changed nothing, the machine has
  its old descriptors, and every path but the ESN cache its old file: the temporary copy is gone.\<close>

theorem launcher_leaves_no_copy:
  assumes "main os env w argv = Some l" and "parse_args os option_table (fst (split_args argv)) = Parsed program"
    and "path = get_string program ''--fullflash''" and "fresh_names os w path" and "\<not> get_bool program ''--rw''"
    and "child_run os = (\<lambda>m. m)" and "exit_remove_works os" and "temp_remove_works (create_os os)"
  shows "descriptors (final_machine l) = descriptors w \<and>
    (p = path @ ''.esn'' \<or> the_disk (final_machine l) p = the_disk w p)"
  using assms(1)
proof (cases rule: main_cases)
  case (failed program' config s failure)
  then show ?thesis
    using prepare_clean(1) [OF failed(3)] prepare_clean(2) [OF failed(3), of p] assms by simp
next
  case (ran program' config s)
  have "final_machine l = destroy (system os) True (world s) (fullflashCopy s)"
    using ran(4) by (cases rule: run_qemu_cases) (use assms in simp_all)
  then show ?thesis using prepare_clean(1) [OF ran(3)] prepare_clean(2) [OF ran(3), of p] ran assms by simp
qed (use assms in simp_all)

theorem launcher_leaves_no_copy_witness:
  "\<exists>l. main sample_outside Map.empty phone_machine [''emu''] = Some l \<and> descriptors (final_machine l) = Map.empty \<and>
    the_disk (final_machine l) ''EL71.bin'' = phone_disk ''EL71.bin''"
proof (rule sample_run)
  fix l assume run: "main sample_outside Map.empty phone_machine [''emu''] = Some l"
  have "child_run sample_outside = (\<lambda>m. m)" "exit_remove_works sample_outside" "temp_remove_works (create_os sample_outside)"
    by (simp_all add: sample_outside_def sample_create_def)
  then have "descriptors (final_machine l) = Map.empty \<and> the_disk (final_machine l) ''EL71.bin'' = phone_disk ''EL71.bin''"
    using launcher_leaves_no_copy [OF run sample_parsed refl, of "''EL71.bin''"] sample_names
    by (simp add: sample_fields) (simp add: phone_machine_def)
  with run show ?thesis by blast
qed

text \<open>C28. Everything after the first \<open>--\<close> goes to QEMU and to nobody else: the launch is the one without
  these arguments, with them appended, unchanged and in order, to the arguments of the child.\<close>

theorem launcher_passes_arguments:
  assumes "''--'' \<notin> set launcherArgs"
  shows "main os env w (launcherArgs @ ''--'' # extra) = map_option
    (\<lambda>l. l\<lparr>spawned := map_option (\<lambda>(args, r). (more_arguments (map c_str extra) args, r)) (spawned l)\<rparr>)
    (main os env w launcherArgs)"
  unfolding main_def launch_parsed_def split_args_separated [OF assms] split_args_whole [OF assms]
  by (simp add: run_qemu_extra [of _ _ _ extra] leave_def split: parse_outcome.split sum.split option.split)

theorem launcher_passes_arguments_witness:
  "\<exists>l l' args r. main sample_outside Map.empty phone_machine [''emu''] = Some l \<and> spawned l = Some (args, r) \<and>
    main sample_outside Map.empty phone_machine [''emu'', ''--'', ''-S''] = Some l' \<and>
    spawned l' = Some (more_arguments [''-S''] args, r)"
proof (rule sample_run)
  fix l config args env' s assume "main sample_outside Map.empty phone_machine [''emu''] = Some l"
    and "spawned l = Some (args, env', s)"
  then show ?thesis
    using launcher_passes_arguments [of "[''emu'']" sample_outside Map.empty phone_machine "[''-S'']"] by simp
qed

text \<open>C29. What the launcher refuses.  A configuration that is not accepted ends the launch with status 1
  (the one uncaught exception apart) before anything is written or spawned.  An accepted one has a
  known SIM source, no option of another source, a startup scenario, and a device or a fullflash;
  then a launch that spawns nothing has status 1 too.\<close>

theorem launcher_refuses:
  assumes "main os env w argv = Some l" and "parse_args os option_table (fst (split_args argv)) = Parsed program"
  shows "case configure os program (the_disk w) of
      Inl failure \<Rightarrow> l = \<lparr>exit_status = (if failure = StorageThrew then None else Some 1), spawned = None,
        disks_seen = [the_disk w], final_machine = w\<rparr>
    | Inr config \<Rightarrow> sim_source (config_sim config) \<in> {''virtual'', ''none'', ''reader''} \<and>
        (readerName (config_sim config) = '''' \<or> sim_source (config_sim config) = ''reader'') \<and>
        (hasVirtualSimOptions (readSimOptions program) \<longrightarrow> sim_source (config_sim config) = ''virtual'') \<and>
        get_string program ''--startup'' \<noteq> '''' \<and>
        (get_string program ''--device'' \<noteq> '''' \<or> get_string program ''--fullflash'' \<noteq> '''') \<and>
        (spawned l = None \<longrightarrow> exit_status l = Some 1)"
proof (cases "configure os program (the_disk w)")
  case (Inl failure)
  from assms(1) have "l = leave os (failure_status failure) (start_state w)"
    by (cases rule: main_cases) (use Inl assms(2) in simp_all)
  moreover have "failure_status failure = (if failure = StorageThrew then None else Some 1)"
    by (rule configure_cases [OF Inl]) (simp_all add: failure_status_def split: launch_failure.split)
  ultimately show ?thesis using Inl by (simp add: leave_def start_state_def)
next
  case (Inr config)
  obtain ok: "checkSimOptions os (readSimOptions program) = Inr (config_sim config)"
      "get_string program ''--startup'' \<noteq> ''''"
      "chooseDevice (the_disk w) (get_string program ''--device'') (get_string program ''--fullflash'') = Inr (config_device config)"
    by (rule configure_cases [OF Inr]) simp_all
  have "get_string program ''--device'' \<noteq> '''' \<or> get_string program ''--fullflash'' \<noteq> ''''"
    using ok(3) by (auto simp: chooseDevice_def)
  moreover have "exit_status l = Some 1" if "spawned l = None"
    using assms(1)
  proof (cases rule: main_cases)
    case (failed program' config' s failure)
    then show ?thesis using prepare_status [OF failed(3)] by simp
  next
    case (ran program' config' s)
    show ?thesis using ran(4) by (cases rule: run_qemu_cases) (use that in simp_all)
  qed (use assms(2) Inr in simp_all)
  ultimately show ?thesis using ok(2) checkSimOptions_ok [OF ok(1)] Inr by simp
qed

theorem launcher_refuses_witness:
  "main (sample_outside\<lparr>parse_args := \<lambda>_ _. Parsed (sample_program\<lparr>get_string := \<lambda>_. ''''\<rparr>)\<rparr>) Map.empty phone_machine
    [''emu''] = Some \<lparr>exit_status = Some 1, spawned = None, disks_seen = [phone_disk], final_machine = phone_machine\<rparr>"
proof -
  let ?p = "sample_program\<lparr>get_string := \<lambda>_. ''''\<rparr>"
  let ?os = "sample_outside\<lparr>parse_args := \<lambda>_ _. Parsed ?p\<rparr>"
  have bad: "configure ?os ?p d = Inl BadSimSource" for d
    by (simp add: configure_def sample_outside_def getQemuBinaryPath_def getExecutableDirectory_def qemu_variants_def
      checkSimOptions_def readSimOptions_def)
  obtain l where run: "main ?os Map.empty phone_machine [''emu''] = Some l"
    using bad by (simp add: main_def launch_parsed_def split_args_def)
  have "parse_args ?os option_table (fst (split_args [''emu''])) = Parsed ?p" by simp
  from launcher_refuses [OF run this] show ?thesis using run bad by (simp add: phone_machine_def)
qed

text \<open>C19. The environment of QEMU: for each of the four banks and each of its five settings the variable is
  set to the setting when it is not empty and inherited otherwise, bank 0 with the OTP values that
  the options, the recovery or the defaults give; and the board and the scenario are set.\<close>

theorem launched_environment:
  assumes "main os env w argv = Some l" and "parse_args os option_table (fst (split_args argv)) = Parsed program"
    and "configure os program (the_disk w) = Inr config" and "spawned l = Some (args, env', s)"
    and "(otpEsn, otpImei) = chosen_otp os program config (the_disk w) (get_string program ''--fullflash'')"
    and "banks = (config_banks config)[0 := (hd (config_banks config))\<lparr>bank_otp0 := otpEsn, bank_otp1 := otpImei\<rparr>]"
    and "i < FLASH_BANK_COUNT" and "(suffix, v) \<in> set (bank_variables (banks ! i))"
  shows "env' (''PMB887X_FLASH'' @ to_string i @ ''_'' @ suffix) =
      (if v = '''' then env (''PMB887X_FLASH'' @ to_string i @ ''_'' @ suffix) else exported (system os) v) \<and>
    env' ''PMB887X_BOARD'' = exported (system os) (config_board config) \<and>
    env' ''PMB887X_STARTUP'' = exported (system os) (get_string program ''--startup'')"
  using assms(1)
proof (cases rule: main_cases)
  case (ran program' config' s')
  then have same: "program' = program" "config' = config" using assms(2,3) by simp_all
  have "s' = s \<and> env' = set_all (system os) (GTK_ENVIRONMENT (system os) @ qemuEnv program config s) env"
    using ran(4) by (cases rule: run_qemu_cases) (use assms(4) same in auto)
  moreover from this have "(flash0_otp0 s, flash0_otp1 s) = (otpEsn, otpImei)"
    using prepare_otp [OF ran(3) [unfolded same]] assms(5) by simp
  then have "final_banks config s = banks" by (simp add: final_banks_def assms(6))
  ultimately have env': "env' = set_all (system os) (flash_environment banks) (set_all (system os) (GTK_ENVIRONMENT (system os) @
      start_environment program (config_board config) (get_string program ''--startup'')) env)"
    by (simp add: qemuEnv_def set_all_append)
  have found: "map_of (bank_variables (banks ! i)) suffix = Some v"
    using assms(8) by (auto simp: bank_variables_def)
  have "env' (bank_key i suffix) = (if v = '''' then env (bank_key i suffix) else exported (system os) v)"
    unfolding env' flash_environment_at [OF assms(7)] by (simp add: found start_environment_miss)
  moreover have "env' n = exported (system os) (if n = ''PMB887X_BOARD'' then config_board config else get_string program ''--startup'')"
    if "n = ''PMB887X_BOARD'' \<or> n = ''PMB887X_STARTUP''" for n
  proof -
    have "\<forall>i < FLASH_BANK_COUNT. \<forall>suffix. n \<noteq> bank_key i suffix" using that by (auto simp: bank_key_def)
    then show ?thesis unfolding env' by (simp add: flash_environment_miss start_environment_at [OF that])
  qed
  ultimately show ?thesis by (simp add: bank_key_def)
qed (use assms in simp_all)

theorem launched_environment_witness:
  "\<exists>l args env' s v. main sample_outside Map.empty phone_machine [''emu''] = Some l \<and> spawned l = Some (args, env', s) \<and>
    imeiToOtp ''490154203237518'' = Inr v \<and> env' ''PMB887X_FLASH0_OTP1'' = Some (c_str v) \<and>
    env' ''PMB887X_STARTUP'' = Some ''ONLINE''"
proof (rule sample_run)
  fix l config args env' s assume run: "main sample_outside Map.empty phone_machine [''emu''] = Some l"
    and config: "configure sample_outside sample_program (the_disk phone_machine) = Inr config" "siemens_default config"
    "config_banks config = fst (readFlashOptions sample_program)" and child: "spawned l = Some (args, env', s)"
  obtain codes where codes: "snd (recoverOtp phone_library (\<lambda>meth. sequential_sweep) phone_disk ''EL71.bin'') = Inr (Some codes)"
    and v: "imeiToOtp ''490154203237518'' = Inr (otp1 codes)"
    using phone_run [of "\<lambda>meth. sequential_sweep"] by (metis snd_conv)
  have otp: "(otp0 codes, otp1 codes) = chosen_otp sample_outside sample_program config (the_disk phone_machine)
      (get_string sample_program ''--fullflash'')"
    using config(2) codes by (simp add: chosen_otp_def sample_fields) (simp add: sample_outside_def)
  have banks: "0 < length (config_banks config)" by (simp add: config(3) readFlashOptions_def FLASH_BANK_COUNT_def Let_def)
  have "otp1 codes \<noteq> ''''" using v by (auto simp: imeiToOtp_def split: if_splits)
  then have "env' ''PMB887X_FLASH0_OTP1'' = Some (c_str (otp1 codes)) \<and> env' ''PMB887X_STARTUP'' = Some ''ONLINE''"
    using launched_environment [OF run sample_parsed config(1) child otp refl, of 0 "''OTP1''" "otp1 codes"] banks
    by (simp add: FLASH_BANK_COUNT_def bank_variables_def bank_names sample_fields exported_def isWindows_def)
  with run child v show ?thesis by blast
qed

text \<open>C36. The table of options and the code that reads them fit: what \<open>main\<close> does depends on the parser
  only through declared options, a flag by its boolean, an option with a default by its value and
  whether it was used, any other option by whether it is present and by its value only then.\<close>

theorem launcher_reads_declared_options:
  assumes "same_options p q"
  shows "launch_parsed os env w extra p = launch_parsed os env w extra q"
proof -
  note same = same_sim [OF assms] same_main [OF assms] same_otp [OF assms] same_run [OF assms]
  have applied: "applySiemensOtp p = applySiemensOtp q" by (simp add: applySiemensOtp_def same fun_eq_iff)
  have c: "configure os p (the_disk w) = configure os q (the_disk w)"
    unfolding configure_def applied same ..
  have pr: "prepare os p config s = prepare os q config s" for config s
    unfolding prepare_def same ..
  have rq: "run_qemu os p = run_qemu os q"
    unfolding run_qemu_def qemuEnv_def same ..
  have ls: "loaded_state w p = loaded_state w q" by (simp add: loaded_state_def same fun_eq_iff)
  show ?thesis unfolding launch_parsed_def c pr rq ls ..
qed

theorem launcher_reads_declared_options_witness:
  "launch_parsed sample_outside Map.empty phone_machine []
      (sample_program\<lparr>get_string := \<lambda>n. if n = ''--unknown'' then ''x'' else get_string sample_program n\<rparr>)
    = launch_parsed sample_outside Map.empty phone_machine [] sample_program"
proof (rule launcher_reads_declared_options)
  show "same_options (sample_program\<lparr>get_string := \<lambda>n. if n = ''--unknown'' then ''x'' else get_string sample_program n\<rparr>)
      sample_program"
    by (simp add: same_options_def option_table_def main_options_def otp_options_def sim_options_table_def run_options_def
      same_option_def FLASH_BANK_COUNT_def upt_rec Let_def)
qed

end
