(* ===== verification/EepromReads.thy ===== *)
theory EepromReads
  imports Eeprom
begin

text \<open>
  Which bytes of an image \<open>parsePartitions\<close> of src/siemens/eeprom.cpp looks at: the headers, the
  entries up to the one that ends a table, and the version byte of each EEFULL block.  The set is
  computed along the run of the parser, and two images that agree on it are parsed alike.  The
  contents of the blocks are not in it, so that an image can be parsed again after its blocks were
  rewritten.
\<close>

section \<open>The bytes that are read\<close>

definition header_reads :: "u8 list \<Rightarrow> Layout \<Rightarrow> nat \<Rightarrow> nat set" where
  "header_reads data layout blockOffset =
     (let headerSize = (if layout = X65 then X65_HEADER_SIZE else X85_HEADER_SIZE);
          offset = (if layout = X65 then blockOffset else blockOffset + PARTITION_STEP - headerSize)
      in if readPartitionType data layout blockOffset = Inr UNKNOWN_PARTITION
         then {offset..<offset + 8} else {offset..<offset + headerSize})"

definition entryX65_reads :: "u8 list \<Rightarrow> PartitionType \<Rightarrow> nat \<Rightarrow> nat \<Rightarrow> nat set" where
  "entryX65_reads data type partitionOffset index =
     (let entryOffset = partitionOffset + X65_PARTITION_SIZE - X65_ENTRY_SIZE * index
      in {entryOffset..<entryOffset + 16} \<union>
         (if type = EEFULL \<and> readUInt32LE data entryOffset AND ENTRY_STATE_MASK = VALID
          then {partitionOffset + unat (readUInt32LE data (entryOffset + 12))} else {}))"

definition entryX85_reads :: "u8 list \<Rightarrow> PartitionType \<Rightarrow> nat \<Rightarrow> nat \<Rightarrow> nat set" where
  "entryX85_reads data type partitionOffset index =
     (let entryOffset = partitionOffset + X85_PARTITION_SIZE - X85_HEADER_SIZE - X85_ENTRY_SIZE * index
      in {entryOffset..<entryOffset + 16} \<union>
         (if type = EEFULL \<and> readUInt32LE data entryOffset AND ENTRY_STATE_MASK = VALID
          then (case locateX85 data type partitionOffset entryOffset (readUInt32LE data (entryOffset + 8)) of
                  Inl _ \<Rightarrow> {} | Inr blk \<Rightarrow> {getBlockByteOffset blk 0}) else {}))"

text \<open>A loop over entries, up to the one that ends it.\<close>

fun entries_reads :: "(nat \<Rightarrow> eeprom_error + entry_step) \<Rightarrow> (nat \<Rightarrow> nat set) \<Rightarrow> nat list \<Rightarrow> nat set" where
  "entries_reads step reads [] = {}"
| "entries_reads step reads (index # rest) =
     reads index \<union> (case step index of
       Inl _ \<Rightarrow> {} | Inr Stop \<Rightarrow> {} | Inr _ \<Rightarrow> entries_reads step reads rest)"

definition scanX65_reads :: "nat \<Rightarrow> eeprom \<Rightarrow> nat set" where
  "scanX65_reads offset e =
     (if eeprom_layout e = UNKNOWN_LAYOUT \<or> eeprom_layout e = X65 then
        header_reads (m_data e) X65 offset \<union>
        (case readPartitionType (m_data e) X65 offset of
           Inl _ \<Rightarrow> {}
         | Inr type \<Rightarrow>
             if type \<noteq> UNKNOWN_PARTITION then
               entries_reads (entryX65 (m_data e) type offset) (entryX65_reads (m_data e) type offset)
                 [1..<(X65_PARTITION_SIZE - X65_HEADER_SIZE) div X65_ENTRY_SIZE + 1]
             else {})
      else {})"

definition scanX85_reads :: "nat \<Rightarrow> eeprom \<Rightarrow> nat set" where
  "scanX85_reads offset e =
     (if eeprom_layout e = UNKNOWN_LAYOUT \<or> eeprom_layout e = X85 then
        header_reads (m_data e) X85 offset \<union>
        (case readPartitionType (m_data e) X85 offset of
           Inl _ \<Rightarrow> {}
         | Inr type \<Rightarrow>
             if type \<noteq> UNKNOWN_PARTITION then
               let partitionOffset = offset - (X85_PARTITION_SIZE - PARTITION_STEP)
               in entries_reads (entryX85 (m_data e) type partitionOffset) (entryX85_reads (m_data e) type partitionOffset)
                    [1..<(X85_PARTITION_SIZE - X85_HEADER_SIZE) div X85_ENTRY_SIZE + 1]
             else {})
      else {})"

fun scan_reads :: "nat list \<Rightarrow> eeprom \<Rightarrow> nat set" where
  "scan_reads [] e = {}"
| "scan_reads (offset # rest) e =
     scanX65_reads offset e \<union>
     (case scanX65 offset e of
        Inl _ \<Rightarrow> {}
      | Inr e1 \<Rightarrow>
          scanX85_reads offset e1 \<union> (case scanX85 offset e1 of Inl _ \<Rightarrow> {} | Inr e2 \<Rightarrow> scan_reads rest e2))"

definition parse_reads :: "u8 list \<Rightarrow> nat set" where
  "parse_reads data =
     scan_reads (map (\<lambda>k. k * PARTITION_STEP) [0..<(length data + PARTITION_STEP - 1) div PARTITION_STEP])
       \<lparr>m_data = data, eeprom_layout = UNKNOWN_LAYOUT, m_blocks = Map.empty\<rparr>"

section \<open>Images that agree on them\<close>

definition agree :: "nat set \<Rightarrow> u8 list \<Rightarrow> u8 list \<Rightarrow> bool" where
  "agree S data data' \<longleftrightarrow> length data' = length data \<and> (\<forall>i \<in> S. data' ! i = data ! i)"

lemma agree_Un [simp]: "agree (S \<union> T) data data' \<longleftrightarrow> agree S data data' \<and> agree T data data'"
  by (auto simp: agree_def)

lemma agree_mono: "agree S data data' \<Longrightarrow> T \<subseteq> S \<Longrightarrow> agree T data data'"
  by (auto simp: agree_def)

lemma agree_at: "agree S data data' \<Longrightarrow> {p..<p + n} \<subseteq> S \<Longrightarrow> i < n \<Longrightarrow> data' ! (p + i) = data ! (p + i)"
  unfolding agree_def by (meson atLeastLessThan_iff le_add1 nat_add_left_cancel_less subset_iff)

lemma ebind_cong: "m = n \<Longrightarrow> (\<And>x. n = Inr x \<Longrightarrow> f x = g x) \<Longrightarrow> ebind m f = ebind n g"
  by (cases n) auto

lemma agree_fetch: "agree S data data' \<Longrightarrow> i \<in> S \<Longrightarrow> fetch data' i = fetch data i"
  by (simp add: fetch_def agree_def)

lemma agree_fetch32:
  assumes "agree S data data'" and "{o1..<o1 + 4} \<subseteq> S"
  shows "fetch32 data' o1 = fetch32 data o1"
proof -
  have "readUInt32LE data' o1 = readUInt32LE data o1"
    by (intro u32le.rd_cong agree_at [OF assms])
  then show ?thesis using assms(1) by (simp add: fetch32_def agree_def)
qed

lemma agree_fetch16:
  assumes "agree S data data'" and "{o1..<o1 + 4} \<subseteq> S"
  shows "fetch16 data' o1 = fetch16 data o1"
proof -
  have "readUInt16LE data' o1 = readUInt16LE data o1"
    by (intro u16le.rd_cong agree_at [OF assms]) simp
  then show ?thesis using assms(1) by (simp add: fetch16_def agree_def)
qed

lemma agree_field: "agree S data data' \<Longrightarrow> {o1..<o1 + 4} \<subseteq> S \<Longrightarrow> fetch_field data' type o1 = fetch_field data type o1"
  by (simp add: fetch_field_def agree_fetch16 agree_fetch32)

lemma agree_bytes:
  assumes "agree S data data'" and "{o1..<o1 + n} \<subseteq> S"
  shows "fetch_bytes data' o1 n = fetch_bytes data o1 n"
proof -
  have "chunk data' o1 n = chunk data o1 n"
    using assms(1) agree_at [OF assms] by (intro nth_equalityI) (auto simp: agree_def)
  then show ?thesis using assms(1) by (simp add: fetch_bytes_def agree_def)
qed

lemma agree_metadata:
  "agree S data data' \<Longrightarrow> getBlockByteOffset blk 0 \<in> S \<Longrightarrow>
    getEefullMetadataSize data' blk eo = getEefullMetadataSize data blk eo"
  by (simp add: getEefullMetadataSize_def agree_fetch)

lemma agree_tail:
  "agree S data data' \<Longrightarrow> \<forall>i \<in> set is. offset + i \<in> S \<Longrightarrow>
    check_header_tail data' offset is = check_header_tail data offset is"
  by (induction "is") (simp_all add: agree_fetch cong: ebind_cong if_cong)

lemma agree_header:
  assumes "agree (header_reads data layout blockOffset) data data'"
  shows "readPartitionType data' layout blockOffset = readPartitionType data layout blockOffset"
proof -
  define n where "n = (if layout = X65 then X65_HEADER_SIZE else X85_HEADER_SIZE)"
  define p where "p = (if layout = X65 then blockOffset else blockOffset + PARTITION_STEP - n)"
  have n: "16 \<le> n" by (simp add: n_def eeprom_consts)
  have S: "header_reads data layout blockOffset =
      (if readPartitionType data layout blockOffset = Inr UNKNOWN_PARTITION then {p..<p + 8} else {p..<p + n})"
    by (simp add: header_reads_def n_def [symmetric] p_def [symmetric] Let_def)
  have len: "length data' = length data" using assms by (simp add: agree_def)
  have magic: "fetch_bytes data' p 8 = fetch_bytes data p 8"
    by (rule agree_bytes [OF assms]) (use n S in \<open>auto split: if_splits\<close>)
  show ?thesis
  proof (cases "readPartitionType data layout blockOffset = Inr UNKNOWN_PARTITION")
    case True
    then show ?thesis
      unfolding readPartitionType_def n_def [symmetric] Let_def p_def [symmetric] magic len
      by (cases "fetch_bytes data p 8")
        (auto simp: ebind_Inl_iff EELITE_MAGIC_def EEFULL_MAGIC_def split: if_splits)
  next
    case False
    then have all: "agree {p..<p + n} data data'" using assms S by simp
    have bytes: "fetch data' (p + 10) = fetch data (p + 10)" "fetch data' (p + 11) = fetch data (p + 11)"
      "fetch data' (p + 12) = fetch data (p + 12)"
      by (rule agree_fetch [OF all]; use n in simp)+
    have tail: "check_header_tail data' p [13..<n] = check_header_tail data p [13..<n]"
      by (rule agree_tail [OF all]) simp
    show ?thesis
      unfolding readPartitionType_def n_def [symmetric] Let_def p_def [symmetric] magic len bytes tail ..
  qed
qed


section \<open>Entries\<close>

lemma entryX65_agree:
  assumes "agree (entryX65_reads data type po index) data data'"
  shows "entryX65 data' type po index = entryX65 data type po index"
proof -
  define E where "E = po + X65_PARTITION_SIZE - X65_ENTRY_SIZE * index"
  let ?S = "entryX65_reads data type po index"
  have S: "{E..<E + 16} \<subseteq> ?S" by (simp add: entryX65_reads_def E_def Let_def)
  have words: "fetch32 data' E = fetch32 data E" "fetch32 data' (E + 4) = fetch32 data (E + 4)"
    "fetch32 data' (E + 8) = fetch32 data (E + 8)" "fetch32 data' (E + 12) = fetch32 data (E + 12)"
    by (rule agree_fetch32 [OF assms]; use S in fastforce)+
  have version: "getEefullMetadataSize data' \<lparr>m_offset = po + unat relative, m_size = n, m_layout = LINEAR\<rparr> E
      = getEefullMetadataSize data \<lparr>m_offset = po + unat relative, m_size = n, m_layout = LINEAR\<rparr> E"
    if "type = EEFULL" "fetch32 data E = Inr word" "word AND ENTRY_STATE_MASK = VALID"
      "fetch32 data (E + 12) = Inr relative" for word relative n
  proof (rule agree_metadata [OF assms])
    have "word = readUInt32LE data E" "relative = readUInt32LE data (E + 12)"
      using that by (simp_all add: fetch32_def split: if_splits)
    then show "getBlockByteOffset \<lparr>m_offset = po + unat relative, m_size = n, m_layout = LINEAR\<rparr> 0 \<in> ?S"
      using that(1,3) by (simp add: entryX65_reads_def E_def [symmetric] Let_def byte_offset_linear)
  qed
  show ?thesis
    unfolding entryX65_def E_def [symmetric] Let_def words
    by (intro ebind_cong refl if_cong) (use version in \<open>auto split: if_splits\<close>)
qed

lemma locateX85_agree:
  assumes "agree S data data'" and "{E..<E + 16} \<subseteq> S"
  shows "locateX85 data' type po E storedSize = locateX85 data type po E storedSize"
proof -
  have "fetch32 data' (E + 12) = fetch32 data (E + 12)"
    by (rule agree_fetch32 [OF assms(1)]) (use assms(2) in fastforce)
  then show ?thesis by (simp only: locateX85_def)
qed

lemma entryX85_agree:
  assumes "agree (entryX85_reads data type po index) data data'"
  shows "entryX85 data' type po index = entryX85 data type po index"
proof -
  define E where "E = po + X85_PARTITION_SIZE - X85_HEADER_SIZE - X85_ENTRY_SIZE * index"
  let ?S = "entryX85_reads data type po index"
  have S: "{E..<E + 16} \<subseteq> ?S" by (simp add: entryX85_reads_def E_def Let_def)
  have word: "fetch32 data' E = fetch32 data E"
    by (rule agree_fetch32 [OF assms]) (use S in fastforce)
  have field: "fetch_field data' type (E + 8) = fetch_field data type (E + 8)"
    "fetch_field data' type (E + 4) = fetch_field data type (E + 4)"
    by (rule agree_field [OF assms]; use S in fastforce)+
  note loc = locateX85_agree [OF assms S]
  have version: "getEefullMetadataSize data' blk E = getEefullMetadataSize data blk E"
    if "type = EEFULL" "fetch32 data E = Inr word" "word AND ENTRY_STATE_MASK = VALID"
      "fetch_field data type (E + 8) = Inr storedSize" "locateX85 data type po E storedSize = Inr blk" for word storedSize blk
  proof (rule agree_metadata [OF assms])
    have "word = readUInt32LE data E" "storedSize = readUInt32LE data (E + 8)"
      using that by (simp_all add: fetch32_def fetch_field_def split: if_splits)
    then show "getBlockByteOffset blk 0 \<in> ?S"
      using that(1,3,5) unfolding entryX85_reads_def Let_def E_def [symmetric] by simp
  qed
  show ?thesis
    unfolding entryX85_def E_def [symmetric] Let_def word field loc
    by (intro ebind_cong refl if_cong) (use version in \<open>auto split: if_splits\<close>)
qed

lemma entriesX65_agree:
  "agree (entries_reads (entryX65 data type po) (entryX65_reads data type po) is) data data' \<Longrightarrow>
    entriesX65 data' type po is blocks = entriesX65 data type po is blocks"
proof (induction "is" arbitrary: blocks)
  case (Cons index rest)
  then have "entryX65 data' type po index = entryX65 data type po index" by (simp add: entryX65_agree)
  then show ?case
    using Cons by (cases "entryX65 data type po index") (auto split: entry_step.splits)
qed simp

lemma entriesX85_agree:
  "agree (entries_reads (entryX85 data type po) (entryX85_reads data type po) is) data data' \<Longrightarrow>
    entriesX85 data' type po is blocks = entriesX85 data type po is blocks"
proof (induction "is" arbitrary: blocks)
  case (Cons index rest)
  then have "entryX85 data' type po index = entryX85 data type po index" by (simp add: entryX85_agree)
  then show ?case
    using Cons by (cases "entryX85 data type po index") (auto split: entry_step.splits)
qed simp

section \<open>The scan\<close>

definition with_data :: "u8 list \<Rightarrow> eeprom_error + eeprom \<Rightarrow> eeprom_error + eeprom" where
  "with_data data r = map_sum (\<lambda>err. err) (\<lambda>e. e\<lparr>m_data := data\<rparr>) r"

lemma with_data_simps [simp]:
  "with_data data (Inl err) = Inl err" "with_data data (Inr e) = Inr (e\<lparr>m_data := data\<rparr>)"
  by (simp_all add: with_data_def)

lemma scanX65_agree:
  assumes "agree (scanX65_reads offset e) (m_data e) data'"
  shows "scanX65 offset (e\<lparr>m_data := data'\<rparr>) = with_data data' (scanX65 offset e)"
proof (cases "eeprom_layout e = UNKNOWN_LAYOUT \<or> eeprom_layout e = X65")
  case True
  have header: "readPartitionType data' X65 offset = readPartitionType (m_data e) X65 offset"
    by (rule agree_header) (use assms True in \<open>simp add: scanX65_reads_def\<close>)
  show ?thesis
  proof (cases "readPartitionType (m_data e) X65 offset")
    case (Inl err)
    then show ?thesis using True header by (simp add: scanX65_def)
  next
    case (Inr type)
    show ?thesis
    proof (cases "type = UNKNOWN_PARTITION")
      case True
      then show ?thesis using header Inr by (simp add: scanX65_def)
    next
      case type: False
      let ?n = "(X65_PARTITION_SIZE - X65_HEADER_SIZE) div X65_ENTRY_SIZE + 1"
      have "entriesX65 data' type offset [1..<?n] (m_blocks e) = entriesX65 (m_data e) type offset [1..<?n] (m_blocks e)"
        by (rule entriesX65_agree) (use assms True Inr type in \<open>simp add: scanX65_reads_def\<close>)
      moreover have "length data' = length (m_data e)" using assms by (simp add: agree_def)
      ultimately have "parsePartitionX65 type offset (e\<lparr>m_data := data'\<rparr>) = with_data data' (parsePartitionX65 type offset e)"
        by (cases "entriesX65 (m_data e) type offset [1..<?n] (m_blocks e)") (simp_all add: parsePartitionX65_def Let_def)
      then show ?thesis
        using True header Inr type by (cases "parsePartitionX65 type offset e") (simp_all add: scanX65_def)
    qed
  qed
qed (simp add: scanX65_def)

lemma scanX85_agree:
  assumes "agree (scanX85_reads offset e) (m_data e) data'"
  shows "scanX85 offset (e\<lparr>m_data := data'\<rparr>) = with_data data' (scanX85 offset e)"
proof (cases "eeprom_layout e = UNKNOWN_LAYOUT \<or> eeprom_layout e = X85")
  case True
  have header: "readPartitionType data' X85 offset = readPartitionType (m_data e) X85 offset"
    by (rule agree_header) (use assms True in \<open>simp add: scanX85_reads_def\<close>)
  show ?thesis
  proof (cases "readPartitionType (m_data e) X85 offset")
    case (Inl err)
    then show ?thesis using True header by (simp add: scanX85_def)
  next
    case (Inr type)
    show ?thesis
    proof (cases "type = UNKNOWN_PARTITION")
      case True
      then show ?thesis using header Inr by (simp add: scanX85_def)
    next
      case type: False
      let ?n = "(X85_PARTITION_SIZE - X85_HEADER_SIZE) div X85_ENTRY_SIZE + 1"
      let ?po = "offset - (X85_PARTITION_SIZE - PARTITION_STEP)"
      have "entriesX85 data' type ?po [1..<?n] (m_blocks e) = entriesX85 (m_data e) type ?po [1..<?n] (m_blocks e)"
        by (rule entriesX85_agree) (use assms True Inr type in \<open>simp add: scanX85_reads_def Let_def\<close>)
      then have "parsePartitionX85 type offset (e\<lparr>m_data := data'\<rparr>) = with_data data' (parsePartitionX85 type offset e)"
        by (cases "entriesX85 (m_data e) type ?po [1..<?n] (m_blocks e)") (simp_all add: parsePartitionX85_def Let_def)
      then show ?thesis
        using True header Inr type by (cases "parsePartitionX85 type offset e") (simp_all add: scanX85_def)
    qed
  qed
qed (simp add: scanX85_def)

lemma scanX65_data: "scanX65 offset e = Inr e' \<Longrightarrow> m_data e' = m_data e"
  by (auto simp: scanX65_def parsePartitionX65_def Let_def split: if_splits)

lemma scanX85_data: "scanX85 offset e = Inr e' \<Longrightarrow> m_data e' = m_data e"
  by (auto simp: scanX85_def parsePartitionX85_def Let_def split: if_splits)

lemma scan_loop_agree:
  "agree (scan_reads offsets e) (m_data e) data' \<Longrightarrow>
    scan_loop offsets (e\<lparr>m_data := data'\<rparr>) = with_data data' (scan_loop offsets e)"
proof (induction offsets arbitrary: e)
  case (Cons offset rest)
  have x65: "scanX65 offset (e\<lparr>m_data := data'\<rparr>) = with_data data' (scanX65 offset e)"
    by (rule scanX65_agree) (use Cons.prems in simp)
  show ?case
  proof (cases "scanX65 offset e")
    case (Inl err)
    then show ?thesis using x65 by simp
  next
    case e1: (Inr e1)
    note data1 = scanX65_data [OF e1]
    have x85: "scanX85 offset (e1\<lparr>m_data := data'\<rparr>) = with_data data' (scanX85 offset e1)"
      by (rule scanX85_agree) (use Cons.prems e1 data1 in simp)
    show ?thesis
    proof (cases "scanX85 offset e1")
      case (Inl err)
      then show ?thesis using x65 x85 e1 by simp
    next
      case (Inr e2)
      then show ?thesis
        using x65 x85 e1 data1 scanX85_data [OF Inr] Cons.prems Cons.IH [of e2] by simp
    qed
  qed
qed simp

lemma parse_agree:
  assumes "agree (parse_reads data) data data'"
  shows "parsePartitions data' = with_data data' (parsePartitions data)"
proof -
  have len: "length data' = length data" using assms by (simp add: agree_def)
  show ?thesis
    using assms scan_loop_agree [of _ "\<lparr>m_data = data, eeprom_layout = UNKNOWN_LAYOUT, m_blocks = Map.empty\<rparr>" data']
    by (simp add: parsePartitions_def parse_reads_def len)
qed

section \<open>Well-formed X65 images\<close>

text \<open>
  In an image of the writer \<open>x65_image\<close> the parser reads the header, the table with the erased entry
  behind it, the start of the second half, and the version bytes; never a byte of a block.
\<close>

definition x65_versions :: "PartitionType \<Rightarrow> (u32 \<times> u8 list) list \<Rightarrow> nat set" where
  "x65_versions type items = (if type = EEFULL then x65_pos items ` {0..<length items} else {})"

lemma x65_pos_mono:
  assumes "i < k" and "k < length items"
  shows "x65_pos items i + length (snd (items ! i)) + 1 \<le> x65_pos items k"
proof -
  have "take k items = take (Suc i) items @ take (k - Suc i) (drop (Suc i) items)"
    using assms(1) by (metis Suc_leI le_add_diff_inverse take_add)
  moreover have "take (Suc i) items = take i items @ [items ! i]"
    using assms by (simp add: take_Suc_conv_app_nth)
  ultimately show ?thesis by (simp add: x65_pos_def)
qed

lemma x65_entry_reads:
  assumes fits: "x65_fits type items" and k: "k \<le> length items"
  shows "entryX65_reads (x65_image type items) type 0 (Suc k) \<subseteq>
    {X65_PARTITION_SIZE - 16 * Suc (length items)..} \<union> x65_versions type items"
proof -
  let ?d = "x65_image type items"
  define E where "E = X65_PARTITION_SIZE - 16 * Suc k"
  have low: "X65_PARTITION_SIZE - 16 * Suc (length items) \<le> E" using k by (simp add: E_def diff_le_mono2)
  have at: "0 + X65_PARTITION_SIZE - X65_ENTRY_SIZE * Suc k = E" by (simp add: E_def X65_ENTRY_SIZE_def)
  have "unat (readUInt32LE ?d (E + 12)) = x65_pos items k"
    if "readUInt32LE ?d E AND ENTRY_STATE_MASK = VALID" "k < length items"
  proof -
    have ks: "16 * Suc k + 16 \<le> X65_PARTITION_SIZE" using fits that(2) by (simp add: x65_fits_def eeprom_consts)
    then have E16: "E + 16 \<le> length ?d" using fits by (simp add: E_def)
    have "readUInt32LE ?d (E + 12) = word_of_nat (x65_pos items k)"
      using readUInt32LE_chunk [OF E16, of 12] x65_image_entry [OF fits that(2)]
      unfolding E_def [symmetric] by (simp add: x65_entry_words)
    then show ?thesis
      using x65_pos_bound(1) [OF fits that(2)] by (simp add: unat_word_of_nat_small eeprom_consts)
  qed
  moreover have "readUInt32LE ?d E AND ENTRY_STATE_MASK \<noteq> VALID" if "\<not> k < length items"
  proof -
    have n: "16 * length items + 32 \<le> PARTITION_STEP" using fits by (simp add: x65_fits_def)
    then have "PARTITION_STEP \<le> E" "E + 4 \<le> X65_PARTITION_SIZE - 16 * length items"
      using k that by (simp_all add: E_def eeprom_consts)
    then have "readUInt32LE ?d E = 0xFFFFFFFF"
      using fits x65_image_erased [OF fits] by (subst readUInt32LE_erased) auto
    then show ?thesis by (simp add: entry_state_words FREE_def VALID_def)
  qed
  ultimately show ?thesis
    unfolding entryX65_reads_def Let_def at using low by (fastforce simp: x65_versions_def split: if_splits)
qed

lemma x65_entries_reads:
  assumes fits: "x65_fits type items"
  shows "j \<le> length items \<Longrightarrow>
    entries_reads (entryX65 (x65_image type items) type 0) (entryX65_reads (x65_image type items) type 0) [Suc j..<8191 + 1]
      \<subseteq> {X65_PARTITION_SIZE - 16 * Suc (length items)..} \<union> x65_versions type items"
proof (induction "length items - j" arbitrary: j)
  case 0
  have "16 * length items + 32 \<le> PARTITION_STEP" using fits by (simp add: x65_fits_def)
  then have "[Suc j..<8191 + 1] = Suc j # [Suc (Suc j)..<8191 + 1]"
    using 0 by (intro upt_conv_Cons) (simp add: eeprom_consts)
  then show ?case
    using 0 entryX65_image_end [OF fits] x65_entry_reads [OF fits, of "length items"] by auto
next
  case (Suc m)
  then have j: "j < length items" by simp
  have "16 * length items + 32 \<le> PARTITION_STEP" using fits by (simp add: x65_fits_def)
  then have "[Suc j..<8191 + 1] = Suc j # [Suc (Suc j)..<8191 + 1]"
    using j by (intro upt_conv_Cons) (simp add: eeprom_consts)
  then show ?case
    using Suc.hyps(1) [of "Suc j"] Suc.hyps(2) j entryX65_image [OF fits j] x65_entry_reads [OF fits, of j]
    by auto
qed

lemma x65_image_reads:
  assumes fits: "x65_fits type items"
  shows "parse_reads (x65_image type items) \<subseteq>
    {0..<16} \<union> x65_versions type items \<union> {PARTITION_STEP..}"
proof -
  let ?d = "x65_image type items" and ?bs = "x65_blocks type items [0..<length items] Map.empty"
  let ?e0 = "\<lparr>m_data = ?d, eeprom_layout = UNKNOWN_LAYOUT, m_blocks = Map.empty\<rparr>"
  let ?e1 = "\<lparr>m_data = ?d, eeprom_layout = X65, m_blocks = ?bs\<rparr>"
  have len: "length ?d = 131072" using fits by (simp add: X65_PARTITION_SIZE_def)
  have offs: "map (\<lambda>k. k * PARTITION_STEP) [0..<(length ?d + PARTITION_STEP - 1) div PARTITION_STEP]
      = [0, PARTITION_STEP]"
    by (simp add: len PARTITION_STEP_def upt_rec)
  have t: "type \<noteq> UNKNOWN_PARTITION" using fits by (simp add: x65_fits_def)
  have first: "readPartitionType ?d X65 0 = Inr type"
    using x65_image_head [OF fits] t by (intro readPartitionType_header) (simp_all add: len)
  have "?d ! PARTITION_STEP = 0xFF"
    using fits by (intro x65_image_erased) (auto simp: x65_fits_def eeprom_consts)
  then have second: "readPartitionType ?d X65 PARTITION_STEP = Inr UNKNOWN_PARTITION"
    by (rule readPartitionType_erased) (simp add: len PARTITION_STEP_def)
  have entries: "entriesX65 ?d type 0 [1..<8191 + 1] Map.empty = Inr ?bs"
    using entriesX65_image [OF fits, of 0] by simp
  have size: "\<not> 0 + X65_PARTITION_SIZE > length ?d" by (simp add: len X65_PARTITION_SIZE_def)
  have "parsePartitionX65 type 0 ?e0 = Inr (?e0\<lparr>m_blocks := ?bs\<rparr>)"
    unfolding parsePartitionX65_def Let_def partition_count
    by (simp only: eeprom.select_convs eeprom.update_convs entries ebind.simps size if_False)
  then have scan: "scanX65 0 ?e0 = Inr ?e1" by (simp add: scanX65_def first t del: ebind_Inr_iff)
  have low: "PARTITION_STEP \<le> X65_PARTITION_SIZE - 16 * Suc (length items)"
    using fits by (auto simp: x65_fits_def eeprom_consts)
  have "scanX65_reads 0 ?e0 \<subseteq> {0..<16} \<union> x65_versions type items \<union> {PARTITION_STEP..}"
  proof -
    let ?loop = "entries_reads (entryX65 ?d type 0) (entryX65_reads ?d type 0) [1..<8191 + 1]"
    have "scanX65_reads 0 ?e0 = {0..<16} \<union> ?loop"
      unfolding scanX65_reads_def partition_count using first t
      by (simp add: header_reads_def Let_def X65_HEADER_SIZE_def)
    then show ?thesis using x65_entries_reads [OF fits, of 0] low by auto
  qed
  moreover have "scanX65_reads PARTITION_STEP ?e1 \<subseteq> {PARTITION_STEP..}"
    by (auto simp: scanX65_reads_def header_reads_def second Let_def)
  moreover have "scanX85_reads p ?e1 = {}" "scanX85 p ?e1 = Inr ?e1" for p
    by (simp_all add: scanX85_reads_def scanX85_def)
  moreover have "scanX65 PARTITION_STEP ?e1 = Inr ?e1"
    by (simp add: scanX65_def second)
  ultimately show ?thesis
    unfolding parse_reads_def offs by (auto simp: scan)
qed

lemma x65_contents_not_read:
  assumes fits: "x65_fits type items" and k: "k < length items" and i: "i < length (snd (items ! k))"
  shows "getBlockByteOffset (x65_block type items k) i \<notin> parse_reads (x65_image type items)"
proof -
  let ?p = "getBlockByteOffset (x65_block type items k) i"
  have at: "?p = (if type = EEFULL then x65_pos items k + 1 + i else x65_pos items k + i)"
    by (simp add: x65_block_def byte_offset_linear)
  have "?p < PARTITION_STEP" "16 \<le> ?p"
    using x65_pos_bound [OF fits k] i by (auto simp: at)
  moreover have "?p \<noteq> x65_pos items j" if "j < length items" "type = EEFULL" for j
  proof (cases j k rule: linorder_cases)
    case less
    then show ?thesis using x65_pos_mono [OF less k] by (simp add: at)
  next
    case equal
    then show ?thesis using that(2) at by simp
  next
    case greater
    then show ?thesis using x65_pos_mono [OF greater that(1)] i by (simp add: at)
  qed
  ultimately show ?thesis using x65_image_reads [OF fits] by (fastforce simp: x65_versions_def split: if_splits)
qed

section \<open>Properties\<close>

text \<open>C16. The parser depends on the tables only.  Two images of one size that agree on the bytes the
  parser reads of the first are parsed alike, with the same exception or to the same blocks; and
  in every well-formed X65 image no byte of any block is among the bytes read, so that whatever the
  blocks are overwritten with, the store stays the same.\<close>

theorem parse_ignores_contents:
  assumes "agree (parse_reads data) data data'"
  shows "parsePartitions data' = (case parsePartitions data of Inl err \<Rightarrow> Inl err | Inr e \<Rightarrow> Inr (e\<lparr>m_data := data'\<rparr>))
    \<and> (x65_fits type items \<and> k < length items \<and> i < length (snd (items ! k)) \<longrightarrow>
        getBlockByteOffset (x65_block type items k) i \<notin> parse_reads (x65_image type items))"
  using parse_agree [OF assms] x65_contents_not_read [of type items k i]
  by (simp add: with_data_def map_sum_def split: sum.split)

theorem parse_ignores_contents_witness:
  "\<exists>e. parsePartitions sample_image = Inr e \<and> parsePartitions (sample_image[18 := 9]) = Inr (e\<lparr>m_data := sample_image[18 := 9]\<rparr>)"
proof (rule sample_parse)
  fix e assume e: "parsePartitions sample_image = Inr e"
  have "getBlockByteOffset (x65_block EELITE [(52, [1, 2, 3, 4]), (76, [9, 9]), (52, [5])] 0) 2 \<notin> parse_reads sample_image"
    unfolding sample_image_def by (rule x65_contents_not_read [OF sample_fits]) simp_all
  then have "18 \<notin> parse_reads sample_image" by (simp add: x65_block_def byte_offset_linear x65_pos_def)
  then have "agree (parse_reads sample_image) sample_image (sample_image[18 := 9])"
    unfolding agree_def by (metis length_list_update nth_list_update_neq)
  from parse_ignores_contents [OF this] e show ?thesis by simp
qed

end
