(* ===== verification/RecalcAgain.thy ===== *)
theory RecalcAgain
  imports Bruteforce EepromReads
begin

text \<open>
  The image that \<open>recalculateFullflash\<close> of src/siemens/recalc.cpp leaves, given to the program again:
  where the rewritten blocks share no byte with each other, with what the parser reads and with the
  boot core, the image has the same layout and the same blocks, and nothing is left to change.
\<close>

section \<open>What the loop leaves alone\<close>

definition block_offsets :: "block \<Rightarrow> nat set" where
  "block_offsets blk = getBlockByteOffset blk ` {0..<m_size blk}"

text \<open>The bytes that the loop may write.\<close>

definition written_offsets :: "eeprom \<Rightarrow> generated_block list \<Rightarrow> nat set" where
  "written_offsets e gs =
     (\<Union>g \<in> set gs. if fits e g then (case m_blocks e (generated_id g) of None \<Rightarrow> {} | Some blk \<Rightarrow> block_offsets blk) else {})"

lemma written_offsets_Cons [simp]:
  "written_offsets e (g # gs) =
    (if fits e g then (case m_blocks e (generated_id g) of None \<Rightarrow> {} | Some blk \<Rightarrow> block_offsets blk) else {})
    \<union> written_offsets e gs"
  by (simp add: written_offsets_def)

lemma written_offsets_cong: "m_blocks e' = m_blocks e \<Longrightarrow> written_offsets e' gs = written_offsets e gs"
  by (simp add: written_offsets_def fits_cong [of e' e])

lemma replace_blocks_untouched:
  assumes "eeprom_wf e" and "replace_blocks gs e result = (e', x)"
  shows "e' = e\<lparr>m_data := m_data e'\<rparr> \<and> (\<forall>j. j \<notin> written_offsets e gs \<longrightarrow> m_data e' ! j = m_data e ! j)"
  using assms
proof (induction gs arbitrary: e result)
  case Nil
  then show ?case by simp
next
  case (Cons g rest)
  show ?case
  proof (cases "fits e g")
    case False
    then show ?thesis using Cons.IH [OF Cons.prems(1)] Cons.prems(2) by (simp add: replace_skip)
  next
    case True
    obtain e1 where put: "writeBlock e (generated_id g) (generated_data g) = Inr (e1, m_data e1 \<noteq> m_data e)"
      and eq: "replace_blocks (g # rest) e result = replace_blocks rest e1
        (if m_data e1 \<noteq> m_data e then result\<lparr>result_changed := True\<rparr> else result)"
      by (rule replace_write [OF Cons.prems(1) True])
    obtain blk where blk: "m_blocks e (generated_id g) = Some blk"
      and e1: "e1 = e\<lparr>m_data := written blk (generated_data g) (m_size blk) (m_data e)\<rparr>"
      by (rule writeBlock_Inr [OF Cons.prems(1) put]) blast
    have "m_data e1 ! j = m_data e ! j" if "j \<notin> block_offsets blk" for j
      using that by (auto simp: e1 block_offsets_def intro!: written_other)
    moreover have "e' = e1\<lparr>m_data := m_data e'\<rparr> \<and> (\<forall>j. j \<notin> written_offsets e1 rest \<longrightarrow> m_data e' ! j = m_data e1 ! j)"
      using Cons.IH [OF store.put_inv [OF Cons.prems(1) put]] Cons.prems(2) unfolding eq by blast
    ultimately show ?thesis
      using True blk written_offsets_cong [of e1 e rest] by (simp add: e1)
  qed
qed

section \<open>The image again\<close>

text \<open>The boot core: the bytes that give the layout, and the HASH and IMEI fields.\<close>

definition bootcore_bytes :: "bootcore_layout \<Rightarrow> nat set" where
  "bootcore_bytes layout = {0x3C..<0x40} \<union> {0x200..<0x204} \<union> {0x1200..<0x1204} \<union>
     {hashOffset layout..<hashOffset layout + 16} \<union> {imeiOffset layout..<imeiOffset layout + 15}"

text \<open>The store of an image and the table that the recalculation applies to it.\<close>

definition recalculation_table :: "keys \<Rightarrow> eeprom \<Rightarrow> generated_block list" where
  "recalculation_table keys e = generated_blocks keys (fst (calculateBkeyAndHash (keys_esn keys) (keys_skey keys)))
     (case block_size e 5123 of None \<Rightarrow> 0 | Some n \<Rightarrow> n)"

definition new_hash :: "keys \<Rightarrow> u8 list" where
  "new_hash keys = snd (calculateBkeyAndHash (keys_esn keys) (keys_skey keys))"

definition new_imei :: "keys \<Rightarrow> u8 list" where
  "new_imei keys = take 15 (bytes_of_string (keys_imei keys))"

text \<open>Nothing that is written is looked at by the parser or belongs to the boot core.\<close>

definition writes_apart :: "u8 list \<Rightarrow> keys \<Rightarrow> bool" where
  "writes_apart ff keys \<longleftrightarrow>
     (case getBootcoreLayout ff of
        None \<Rightarrow> True
      | Some layout \<Rightarrow>
          (case parsePartitions (patched ff layout keys) of
             Inl _ \<Rightarrow> True
           | Inr e \<Rightarrow> all_apart e (recalculation_table keys e) \<and>
               written_offsets e (recalculation_table keys e) \<inter>
                 (parse_reads (patched ff layout keys) \<union> bootcore_bytes layout) = {}))"

lemma length_new_hash [simp]: "length (new_hash keys) = 16"
  by (simp add: new_hash_def)

lemma length_new_imei: "length (new_imei keys) \<le> 15"
  by (simp add: new_imei_def)

lemma recalculated_cases:
  assumes "recalculateFullflash ff keys = (ff', Inr (Some r))"
  obtains layout e where "getBootcoreLayout ff = Some layout" and "\<not> isErasedData ff (hashOffset layout) 16"
    and "parsePartitions (patched ff layout keys) = Inr e" and "eeprom_wf e"
    and "replace_blocks (recalculation_table keys e) e (first_result ff layout keys) = (e\<lparr>m_data := ff'\<rparr>, Inr r)"
    and "length ff' = length ff"
    and "\<And>j. j \<notin> written_offsets e (recalculation_table keys e) \<Longrightarrow> ff' ! j = patched ff layout keys ! j"
    and "result_complete r \<longleftrightarrow> (\<forall>g \<in> set (recalculation_table keys e). required g \<longrightarrow> fits e g)"
proof (cases "getBootcoreLayout ff")
  case None
  then show ?thesis using assms by (simp add: recalculateFullflash_def)
next
  case layout: (Some layout)
  have hash: "\<not> isErasedData ff (hashOffset layout) 16"
    using assms layout by (auto simp: recalculateFullflash_def split_beta)
  show ?thesis
  proof (cases "parsePartitions (patched ff layout keys)")
    case (Inl err)
    then show ?thesis using assms by (simp add: recalculate_unfold [OF layout hash])
  next
    case parse: (Inr e)
    have wf: "eeprom_wf e" and data: "m_data e = patched ff layout keys"
      using parsePartitions_wf [OF parse] by simp_all
    obtain e' r' where run: "recalculateFullflash ff keys = (m_data e', Inr (Some r'))"
      "replace_blocks (recalculation_table keys e) e (first_result ff layout keys) = (e', Inr r')"
      "length (m_data e') = length ff"
      "result_complete r' \<longleftrightarrow> (\<forall>g \<in> set (recalculation_table keys e). required g \<longrightarrow> fits e g)"
      by (rule recalculate_runs [OF layout hash parse recalculation_table_def [of keys e]]) blast
    have out: "ff' = m_data e'" "r = r'" using run(1) assms by simp_all
    note frame = replace_blocks_untouched [OF wf run(2)]
    show ?thesis
      by (rule that [OF layout hash parse wf]) (use run frame out data in auto)
  qed
qed

lemma recalculated_again:
  assumes run: "recalculateFullflash ff keys = (ff', Inr (Some r))" and apart: "writes_apart ff keys"
    and layout: "getBootcoreLayout ff = Some layout"
  obtains e where "getBootcoreLayout ff' = Some layout" and "chunk ff' (hashOffset layout) 16 = new_hash keys"
    and "chunk ff' (imeiOffset layout) (length (new_imei keys)) = new_imei keys"
    and "parsePartitions (patched ff layout keys) = Inr e" and "eeprom_wf e"
    and "parsePartitions ff' = Inr (e\<lparr>m_data := ff'\<rparr>)"
    and "replace_blocks (recalculation_table keys e) e (first_result ff layout keys) = (e\<lparr>m_data := ff'\<rparr>, Inr r)"
    and "all_apart e (recalculation_table keys e)"
    and "result_complete r \<longleftrightarrow> (\<forall>g \<in> set (recalculation_table keys e). required g \<longrightarrow> fits e g)"
proof -
  obtain layout' e where same: "getBootcoreLayout ff = Some layout'"
    and e': "parsePartitions (patched ff layout' keys) = Inr e" "eeprom_wf e"
    "replace_blocks (recalculation_table keys e) e (first_result ff layout' keys) = (e\<lparr>m_data := ff'\<rparr>, Inr r)"
    and len: "length ff' = length ff"
    and frame': "\<And>j. j \<notin> written_offsets e (recalculation_table keys e) \<Longrightarrow> ff' ! j = patched ff layout' keys ! j"
    and complete: "result_complete r \<longleftrightarrow> (\<forall>g \<in> set (recalculation_table keys e). required g \<longrightarrow> fits e g)"
    by (rule recalculated_cases [OF run]) blast
  have "layout' = layout" using same layout by simp
  note e = e' [unfolded this] and frame = frame' [unfolded this]
  have all: "all_apart e (recalculation_table keys e)"
    and tables: "\<And>j. j \<in> parse_reads (patched ff layout keys) \<union> bootcore_bytes layout \<Longrightarrow> ff' ! j = patched ff layout keys ! j"
    using apart layout e(1) frame by (auto simp: writes_apart_def)
  obtain version where version: "layout_of_version version = Some layout"
    and fits: "hashOffset layout + 16 \<le> length ff" "imeiOffset layout + 15 \<le> length ff"
    using layout by (auto elim: getBootcoreLayout_Some)
  have plen: "length (patched ff layout keys) = length ff" by (rule patched_fits(1) [OF layout])
  note ilen = length_new_imei [of keys]
  have patched: "patched ff layout keys = blit (blit ff (hashOffset layout) (new_hash keys)) (imeiOffset layout) (new_imei keys)"
    by (simp add: patched_def new_hash_def new_imei_def)
  have at: "patched ff layout keys ! j =
      (if imeiOffset layout \<le> j \<and> j < imeiOffset layout + length (new_imei keys)
       then new_imei keys ! (j - imeiOffset layout)
       else if hashOffset layout \<le> j \<and> j < hashOffset layout + 16 then new_hash keys ! (j - hashOffset layout)
       else ff ! j)" for j
  proof -
    have "hashOffset layout + length (new_hash keys) \<le> length ff" using fits by simp
    moreover have "imeiOffset layout + length (new_imei keys) \<le> length (blit ff (hashOffset layout) (new_hash keys))"
      using fits ilen by simp
    ultimately show ?thesis unfolding patched by (simp add: nth_blit)
  qed
  have "patched ff layout keys ! j = ff ! j" if "layout_bytes j" for j
    using layout_fields_apart(2) [OF version that] ilen by (auto simp: at)
  then have "getBootcoreLayout ff' = getBootcoreLayout ff"
    using tables len by (intro getBootcoreLayout_cong) (auto simp: bootcore_bytes_def layout_bytes_def)
  moreover have "chunk ff' (hashOffset layout) 16 = new_hash keys"
    using layout_fields_apart(1) [OF version] fits ilen len plen
    by (intro nth_equalityI) (auto simp: tables bootcore_bytes_def at)
  moreover have "chunk ff' (imeiOffset layout) (length (new_imei keys)) = new_imei keys"
    using fits ilen len plen by (intro nth_equalityI) (auto simp: tables bootcore_bytes_def at)
  moreover have "parsePartitions ff' = Inr (e\<lparr>m_data := ff'\<rparr>)"
    using parse_agree [of "patched ff layout keys" ff'] e(1) tables len plen by (simp add: agree_def)
  ultimately show ?thesis
    by (intro that [OF _ _ _ e(1,2) _ e(3) all complete]) (simp_all add: layout)
qed

lemma recalculate_twice:
  assumes run: "recalculateFullflash fullflash keys = (fullflash', Inr (Some result))"
    and apart: "writes_apart fullflash keys" and hash: "\<not> isErasedData (new_hash keys) 0 16"
  shows "recalculateFullflash fullflash' keys
    = (fullflash', Inr (Some \<lparr>result_complete = result_complete result, result_changed = False\<rparr>))"
proof -
  obtain layout where layout: "getBootcoreLayout fullflash = Some layout"
    by (rule recalculated_cases [OF run]) blast
  obtain e where layout': "getBootcoreLayout fullflash' = Some layout"
    and fields: "chunk fullflash' (hashOffset layout) 16 = new_hash keys"
      "chunk fullflash' (imeiOffset layout) (length (new_imei keys)) = new_imei keys"
    and wf: "eeprom_wf e" and parse: "parsePartitions fullflash' = Inr (e\<lparr>m_data := fullflash'\<rparr>)"
    and loop: "replace_blocks (recalculation_table keys e) e (first_result fullflash layout keys)
      = (e\<lparr>m_data := fullflash'\<rparr>, Inr result)"
    and all: "all_apart e (recalculation_table keys e)"
    and complete: "result_complete result \<longleftrightarrow> (\<forall>g \<in> set (recalculation_table keys e). required g \<longrightarrow> fits e g)"
    by (rule recalculated_again [OF run apart layout]) blast
  let ?e = "e\<lparr>m_data := fullflash'\<rparr>" and ?r = "\<lparr>result_complete = True, result_changed = False\<rparr>"
  have room: "hashOffset layout + 16 \<le> length fullflash'" "imeiOffset layout + 15 \<le> length fullflash'"
    using layout' by (auto elim: getBootcoreLayout_Some)
  have not_erased: "\<not> isErasedData fullflash' (hashOffset layout) 16"
    using hash fields(1) by (simp add: isErasedData_def)
  have same: "patch_field fullflash' (hashOffset layout) (new_hash keys) ?r = (fullflash', ?r)"
    "patch_field fullflash' (imeiOffset layout) (new_imei keys) ?r = (fullflash', ?r)"
    using fields by (simp_all add: patch_field_def)
  then have first: "first_result fullflash' layout keys = ?r"
    by (simp add: first_result_def new_hash_def [symmetric] new_imei_def [symmetric])
  have patched: "patched fullflash' layout keys = fullflash'"
    using blit_chunk_id [OF _ fields(1)] blit_chunk_id [OF _ fields(2)] room length_new_imei [of keys]
    by (simp add: patched_def new_hash_def [symmetric] new_imei_def [symmetric])
  have table: "recalculation_table keys ?e = recalculation_table keys e"
    by (simp add: recalculation_table_def block_size_def)
  obtain r where again: "replace_blocks (recalculation_table keys e) ?e ?r = (?e, Inr r)" "\<not> result_changed r"
    using replace_blocks_idempotent [OF wf all loop, of ?r] by auto
  have "eeprom_wf ?e" using parsePartitions_wf [OF parse] by simp
  then have "result_complete r \<longleftrightarrow> (\<forall>g \<in> set (recalculation_table keys e). required g \<longrightarrow> fits ?e g)"
    using replace_blocks_total [of ?e "recalculation_table keys e" ?r] again(1) by auto
  then have "r = \<lparr>result_complete = result_complete result, result_changed = False\<rparr>"
    using again(2) complete fits_cong [of ?e e] by simp
  then show ?thesis
    using again(1) parse
    by (simp add: recalculate_unfold [OF layout' not_erased] patched first recalculation_table_def [symmetric] table)
qed

section \<open>Properties\<close>


section \<open>Witness\<close>

text \<open>
  An image that is one EEFULL partition: the stored data of its first block holds the boot core, and
  the recalculation rewrites block 5122.
\<close>

definition boot_bytes :: "u8 list" where
  "boot_bytes = replicate 0x2B 0 @ le_bytes BOOTCORE_MAGIC @ replicate 0x1C0 0 @ [0, 2, 0x4C, 0x53] @ replicate 0x48D 0"

definition boot_items :: "u8 list \<Rightarrow> (u32 \<times> u8 list) list" where
  "boot_items boot = [(1000, boot), (122, replicate 6 0)]"

definition boot_image :: "u8 list" where
  "boot_image = x65_image EEFULL (boot_items boot_bytes)"

definition boot_tail :: "nat \<Rightarrow> u8 list" where
  "boot_tail n = (let table = concat (rev [x65_entry 1000 (n + 1) 16, x65_entry 122 (length (replicate 6 (0 :: u8)) + 1) (16 + n + 1)])
     in (0xFF # replicate 6 0) @ replicate (X65_PARTITION_SIZE - (16 + (n + 1) + 7) - length table) 0xFF @ table)"

lemma boot_image_parts: "x65_image EEFULL (boot_items boot) = (x65_header EEFULL @ [0xFF]) @ boot @ boot_tail (length boot)"
  by (simp add: x65_image_def boot_items_def boot_tail_def x65_stored_def Let_def)

lemma blit_middle:
  assumes "k + length xs \<le> length b"
  shows "blit (a @ b @ c) (length a + k) xs = a @ blit b k xs @ c"
  using assms by (intro nth_equalityI) (auto simp: nth_blit nth_append)

lemma length_boot_bytes [simp]: "length boot_bytes = 0x680"
  by (simp add: boot_bytes_def)

lemma boot_fits: "length boot = 0x680 \<Longrightarrow> x65_fits EEFULL (boot_items boot)"
  by (simp add: x65_fits_def boot_items_def PARTITION_STEP_def maxId_def EEFULL_ID_OFFSET_def)

lemma boot_chunk:
  assumes "i + n \<le> length boot"
  shows "chunk (x65_image EEFULL (boot_items boot)) (0x11 + i) n = chunk boot i n"
  using assms by (intro nth_equalityI) (auto simp: boot_image_parts nth_append)

lemma boot_layout: "getBootcoreLayout boot_image
    = Some \<lparr>layout_version = \<lparr>version_major = 2, version_minor = 0\<rparr>, hashOffset = 0x238, imeiOffset = 0x65C\<rparr>"
proof -
  have len: "length boot_image = 0x20000"
    using x65_image_length [OF boot_fits [OF length_boot_bytes]] by (simp add: boot_image_def X65_PARTITION_SIZE_def)
  have "chunk boot_image 0x3C 4 = le_bytes BOOTCORE_MAGIC"
    using boot_chunk [of "0x2B" 4 boot_bytes] by (simp add: boot_image_def) (simp add: boot_bytes_def chunk_def)
  then have magic: "readUInt32LE boot_image 0x3C = BOOTCORE_MAGIC"
    using u32le.rd_chunk [of "0x3C" boot_image] readUInt32LE_mid [where xs = "[]" and ys = "[]" and v = BOOTCORE_MAGIC] len
    by simp
  have words: "chunk boot_image 0x200 4 = [0, 2, 0x4C, 0x53]"
    using boot_chunk [of "0x1EF" 4 boot_bytes] by (simp add: boot_image_def) (simp add: boot_bytes_def chunk_def)
  then have bytes: "boot_image ! 0x200 = 0" "boot_image ! 0x201 = 2"
    using nth_chunk [of 0 4 "0x200" boot_image] nth_chunk [of 1 4 "0x200" boot_image] len by simp_all
  have "readUInt16LE boot_image 0x202 = readUInt16LE (chunk boot_image 0x200 4) 2"
    using len by (intro u16le.rd_cong) simp
  also have "\<dots> = INTERFACE_MAGIC" unfolding words by code_simp
  finally have interface: "readUInt16LE boot_image 0x202 = INTERFACE_MAGIC" .
  show ?thesis
    by (simp add: getBootcoreLayout_def readBootcoreVersion_def INTERFACE_OFFSETS_def BOOTCORE_MAGIC_OFFSET_def
        len magic bytes interface layout_of_version_def)
qed

definition boot_keys :: keys where
  "boot_keys = \<lparr>keys_imei = ''490154203237518'', keys_esn = RECALCULATED_ESN, keys_skey = 12345678,
     masterKeys = replicate 6 12345678, verDown = 1\<rparr>"

lemma boot_hash: "new_hash boot_keys = RECALCULATED_HASH"
  by (simp add: new_hash_def boot_keys_def known_hash)

lemma boot_patched:
  obtains boot where "length boot = 0x680"
    and "patched boot_image \<lparr>layout_version = v, hashOffset = 0x238, imeiOffset = 0x65C\<rparr> boot_keys
      = x65_image EEFULL (boot_items boot)"
proof -
  have imei: "length (new_imei boot_keys) = 15" by (simp add: new_imei_def boot_keys_def bytes_of_string_def)
  have step: "blit (x65_image EEFULL (boot_items b)) (0x11 + k) xs = x65_image EEFULL (boot_items (blit b k xs))"
    if "k + length xs \<le> length b" for b k xs
    using blit_middle [of k xs b "x65_header EEFULL @ [0xFF]" "boot_tail (length b)"] that
    by (simp add: boot_image_parts)
  let ?b = "blit (blit boot_bytes 0x227 (new_hash boot_keys)) 0x64B (new_imei boot_keys)"
  have "patched boot_image \<lparr>layout_version = v, hashOffset = 0x238, imeiOffset = 0x65C\<rparr> boot_keys
      = blit (blit boot_image (0x11 + 0x227) (new_hash boot_keys)) (0x11 + 0x64B) (new_imei boot_keys)"
    by (simp add: patched_def new_hash_def new_imei_def)
  also have "blit boot_image (0x11 + 0x227) (new_hash boot_keys)
      = x65_image EEFULL (boot_items (blit boot_bytes 0x227 (new_hash boot_keys)))"
    unfolding boot_image_def by (rule step) simp
  also have "blit \<dots> (0x11 + 0x64B) (new_imei boot_keys) = x65_image EEFULL (boot_items ?b)"
    by (rule step) (simp add: imei)
  finally show ?thesis using that [of ?b] by (simp add: imei)
qed

lemma boot_store:
  assumes boot: "length boot = 0x680" and e: "parsePartitions (x65_image EEFULL (boot_items boot)) = Inr e"
  shows "m_blocks e = [6000 \<mapsto> x65_block EEFULL (boot_items boot) 0, 5122 \<mapsto> x65_block EEFULL (boot_items boot) 1]"
  using e parse_x65_image [OF boot_fits [OF boot]]
  by (auto simp: x65_blocks_def try_emplace_def x65_id_def EEFULL_ID_OFFSET_def boot_items_def upt_rec)

lemma boot_fits_only:
  assumes boot: "length boot = 0x680" and e: "parsePartitions (x65_image EEFULL (boot_items boot)) = Inr e"
    and g: "g \<in> set (recalculation_table keys e)" and "fits e g"
  shows "generated_id g = 5122"
proof -
  have "generated_id g \<in> {52, 76, 320, 5008, 5009, 5077, 5121, 5122, 5123, 5468}"
    using g by (auto simp: recalculation_table_def generated_blocks_def generated_def Let_def)
  then show ?thesis using assms(4) boot_store [OF boot e] by (auto simp: fits_def block_size_def split: if_splits)
qed

lemma boot_offsets:
  assumes boot: "length boot = 0x680"
  shows "block_offsets (x65_block EEFULL (boot_items boot) 1) = {0x692..<0x698}"
proof -
  have "block_offsets (x65_block EEFULL (boot_items boot) 1) = (\<lambda>i. 0x692 + i) ` {0..<6}"
    by (simp add: block_offsets_def x65_block_def byte_offset_linear x65_pos_def boot_items_def boot)
  also have "\<dots> = {0x692..<0x698}" by (simp add: image_add_atLeastLessThan)
  finally show ?thesis .
qed

lemma one_fits_apart:
  "distinct (map generated_id gs) \<Longrightarrow> (\<And>g. g \<in> set gs \<Longrightarrow> fits e g \<Longrightarrow> generated_id g = k) \<Longrightarrow> all_apart e gs"
proof (induction gs)
  case (Cons g gs)
  have "\<not> (fits e g \<and> fits e g')" if "g' \<in> set gs" for g'
  proof
    assume "fits e g \<and> fits e g'"
    then have "generated_id g = generated_id g'" using Cons.prems(2) that by simp
    then show False using Cons.prems(1) that by auto
  qed
  moreover have "all_apart e gs" using Cons by simp
  ultimately show ?case by auto
qed simp

lemma boot_apart: "writes_apart boot_image boot_keys"
proof (rule boot_patched [of "\<lparr>version_major = 2, version_minor = 0\<rparr>"])
  fix boot
  let ?layout = "\<lparr>layout_version = \<lparr>version_major = 2, version_minor = 0\<rparr>, hashOffset = 0x238, imeiOffset = 0x65C\<rparr>"
  let ?im = "x65_image EEFULL (boot_items boot)"
  assume boot: "length boot = 0x680" and patched: "patched boot_image ?layout boot_keys = ?im"
  obtain e where e: "parsePartitions ?im = Inr e" using parse_x65_image [OF boot_fits [OF boot]] by blast
  let ?gs = "recalculation_table boot_keys e"
  note only = boot_fits_only [OF boot e, of _ boot_keys]
  have "distinct (map generated_id ?gs)"
    by (simp add: recalculation_table_def generated_blocks_def generated_def Let_def)
  then have apart: "all_apart e ?gs" using only by (intro one_fits_apart)
  have "written_offsets e ?gs \<subseteq> {0x692..<0x698}"
    using only boot_store [OF boot e] boot_offsets [OF boot] by (auto simp: written_offsets_def split: if_splits option.splits)
  moreover have "p \<notin> parse_reads ?im" if "p \<in> {0x692..<0x698}" for p
  proof -
    have "p \<in> block_offsets (x65_block EEFULL (boot_items boot) 1)" using that boot_offsets [OF boot] by simp
    moreover have "m_size (x65_block EEFULL (boot_items boot) 1) = 6" by (simp add: x65_block_def boot_items_def)
    ultimately obtain i where "i < 6" "p = getBlockByteOffset (x65_block EEFULL (boot_items boot) 1) i"
      unfolding block_offsets_def by auto
    then show ?thesis using x65_contents_not_read [OF boot_fits [OF boot], of 1 i] by (simp add: boot_items_def)
  qed
  moreover have "p \<notin> bootcore_bytes ?layout" if "p \<in> {0x692..<0x698}" for p
    using that by (auto simp: bootcore_bytes_def)
  ultimately have "written_offsets e ?gs \<inter> (parse_reads ?im \<union> bootcore_bytes ?layout) = {}" by blast
  then show ?thesis
    unfolding writes_apart_def boot_layout option.case patched e sum.case using apart by blast
qed


end
