(* ===== verification/Relaunch.thy ===== *)
theory Relaunch
  imports LauncherProperties RecalcAgain
begin

text \<open>
  Two launches of src/main.cpp with one image: the first recalculates it (\<open>--siemens-recalc --rw\<close>), a
  later one starts from what the first left.
\<close>

section \<open>The default keys\<close>

lemma default_esn: "keys_esn default_keys = RECALCULATED_ESN"
  by (simp add: default_keys_def DEFAULT_ESN_def RECALCULATED_ESN_def stoul16_def hex_value_def isDigit_def code_of_def)

lemma default_hash: "new_hash default_keys = RECALCULATED_HASH"
proof -
  have "keys_skey default_keys = 12345678" by (simp add: default_keys_def)
  then show ?thesis by (simp only: new_hash_def default_esn known_hash)
qed

lemma default_imei: "new_imei default_keys = bytes_of_string DEFAULT_IMEI"
  by (simp add: new_imei_def default_keys_def DEFAULT_IMEI_def bytes_of_string_def)

lemma default_hash_not_erased: "\<not> isErasedData RECALCULATED_HASH 0 16"
  by code_simp

lemma default_digits: "list_all isDigit DEFAULT_IMEI" "DEFAULT_IMEI \<noteq> ''''" "length (bytes_of_string DEFAULT_IMEI) = 15"
  by code_simp+

lemma default_esn_text: "esnToHex RECALCULATED_ESN = DEFAULT_ESN"
  by code_simp

section \<open>The identity of the recalculated image\<close>

text \<open>The vendor and the model that \<open>getFullflashInfo\<close> asks for.\<close>

definition named_phone :: "u8 list \<Rightarrow> bool" where
  "named_phone data \<longleftrightarrow>
     (case (readString data VENDOR_OFFSET 16, readString data MODEL_OFFSET 16) of
        (Some vendor, Some model) \<Rightarrow> is_vendor vendor \<and> model \<noteq> '''' | _ \<Rightarrow> False)"

lemma boot_imei_info:
  assumes layout: "getBootcoreLayout data = Some bootcore"
    and imei: "chunk data (imeiOffset bootcore) 15 = bytes_of_string imei" "list_all isDigit imei" "imei \<noteq> ''''"
    and info: "getFullflashInfo e data = Inr (Some info)"
  shows "info_imei info = imei"
proof -
  have block: "imei_from_block e bid fullBlock imei = Inr imei" for bid fullBlock
    using imei(3) by (simp add: imei_from_block_def)
  obtain vendor where vendor: "readString data VENDOR_OFFSET 16 = Some vendor"
    using info layout by (cases "readString data VENDOR_OFFSET 16") (simp_all add: getFullflashInfo_def)
  obtain model where model: "readString data MODEL_OFFSET 16 = Some model"
    using info layout vendor by (cases "readString data MODEL_OFFSET 16") (simp_all add: getFullflashInfo_def split: if_splits)
  have known: "is_vendor vendor" "model \<noteq> ''''"
    using info layout vendor model by (simp_all add: getFullflashInfo_def split: if_splits)
  show ?thesis
    using info known
    unfolding getFullflashInfo_def layout vendor model option.case Let_def imei(1) string_of_bytes_of_string
    by (simp only: imei(2) block ebind.simps simp_thms if_True if_False ebind_Inr_iff) auto
qed

lemma recalculated_info:
  assumes run: "recalculateFullflash data default_keys = (data', Inr (Some r))"
    and apart: "writes_apart data default_keys" and named: "named_phone data'"
  obtains e info bootcore where "getBootcoreLayout data' = Some bootcore"
    and "\<not> isErasedData data' (hashOffset bootcore) 16" and "parsePartitions data' = Inr e"
    and "getFullflashInfo e data' = Inr (Some info)"
    and "info_hash info = RECALCULATED_HASH" and "info_imei info = DEFAULT_IMEI"
proof -
  obtain layout where layout: "getBootcoreLayout data = Some layout"
    by (rule recalculated_cases [OF run]) blast
  obtain e where layout': "getBootcoreLayout data' = Some layout"
    and fields: "chunk data' (hashOffset layout) 16 = new_hash default_keys"
      "chunk data' (imeiOffset layout) (length (new_imei default_keys)) = new_imei default_keys"
    and parse: "parsePartitions data' = Inr (e\<lparr>m_data := data'\<rparr>)"
    by (rule recalculated_again [OF run apart layout]) blast
  have hash: "chunk data' (hashOffset layout) 16 = RECALCULATED_HASH" using fields(1) by (simp only: default_hash)
  have imei: "chunk data' (imeiOffset layout) 15 = bytes_of_string DEFAULT_IMEI"
    using fields(2) by (simp only: default_imei default_digits(3))
  have not_erased: "\<not> isErasedData data' (hashOffset layout) 16"
    using hash default_hash_not_erased by (simp add: isErasedData_def)
  obtain vendor model where names: "readString data' VENDOR_OFFSET 16 = Some vendor"
    "readString data' MODEL_OFFSET 16 = Some model" "is_vendor vendor" "model \<noteq> ''''"
    using named by (auto simp: named_phone_def split: option.splits)
  have wf: "eeprom_wf (e\<lparr>m_data := data'\<rparr>)" using parsePartitions_wf [OF parse] by simp
  obtain info where info: "getFullflashInfo (e\<lparr>m_data := data'\<rparr>) data' = Inr (Some info)"
    "info_hash info = RECALCULATED_HASH"
    using info_read_ok [OF wf layout' names] not_erased hash by auto
  show ?thesis
    by (rule that [OF layout' not_erased parse info]) (rule boot_imei_info [OF layout' imei default_digits(1,2) info(1)])
qed

lemma recalculated_otp:
  assumes run: "recalculateFullflash data default_keys = (data', Inr (Some r))"
    and apart: "writes_apart data default_keys" and named: "named_phone data'"
    and saved: "readFile d path = Some data'"
    and cache: "readEsnCache (toml_parser lib) (texts d) path RECALCULATED_HASH \<in> {None, Some RECALCULATED_ESN}"
  shows "\<exists>codes. snd (recoverOtp lib sweep d path) = Inr (Some codes) \<and> (otp0 codes, otp1 codes) = default_otp"
proof -
  obtain e info bootcore where image: "getBootcoreLayout data' = Some bootcore"
    "\<not> isErasedData data' (hashOffset bootcore) 16" "parsePartitions data' = Inr e"
    "getFullflashInfo e data' = Inr (Some info)"
    and info: "info_hash info = RECALCULATED_HASH" "info_imei info = DEFAULT_IMEI"
    by (rule recalculated_info [OF run apart named])
  obtain a b where ab: "esnToOtp DEFAULT_ESN = Inr a" "imeiToOtp DEFAULT_IMEI = Inr b" using default_otps by blast
  have search: "recoverEsn None sweep e info = Inr (True, RECALCULATED_ESN)"
    by (simp add: recoverEsn_def info(1))
  have some: "info_hash info \<noteq> []" by (simp add: info(1) RECALCULATED_HASH_def)
  have "snd (recoverIdentity lib sweep d path data') = Inr \<lparr>identity_esn = DEFAULT_ESN, identity_imei = DEFAULT_IMEI\<rparr>"
    using cache recoverIdentity_known [OF image(3,4) some, of lib sweep d path]
    by (auto simp: search info default_esn_text)
  then obtain d' where "recoverIdentity lib sweep d path data' =
      (d', Inr \<lparr>identity_esn = DEFAULT_ESN, identity_imei = DEFAULT_IMEI\<rparr>)"
    by (cases "recoverIdentity lib sweep d path data'") simp
  then show ?thesis
    using image(1,2) saved ab by (simp add: recoverOtp_def readFullflash_def otp_of_identity_def default_otp_def)
qed

section \<open>Properties\<close>


section \<open>Witnesses\<close>

text \<open>An image without a store: the phone image is what its recalculation leaves.\<close>

lemma no_blocks:
  assumes "m_blocks e = Map.empty"
  shows "written_offsets e gs = {}" and "all_apart e gs"
proof -
  have "\<not> fits e g" for g using assms by (simp add: fits_def block_size_def)
  then show "written_offsets e gs = {}" "all_apart e gs"
    by (auto simp: written_offsets_def) (induction gs, simp_all)
qed

lemma sample_input_patched:
  "patched sample_input \<lparr>layout_version = v, hashOffset = 0x238, imeiOffset = 0x65C\<rparr> default_keys = phone_image"
proof -
  have "patched sample_input \<lparr>layout_version = v, hashOffset = 0x238, imeiOffset = 0x65C\<rparr> default_keys
      = blit (blit sample_input 0x238 (new_hash default_keys)) 0x65C (new_imei default_keys)"
    by (simp add: patched_def new_hash_def new_imei_def)
  also have "blit sample_input 0x238 (new_hash default_keys) = blit sample_fullflash 0x238 RECALCULATED_HASH"
    unfolding default_hash sample_input_def by (rule blit_chunk_back) simp_all
  finally show ?thesis by (simp only: phone_image_def default_imei DEFAULT_IMEI_def)
qed

lemma sample_input_again:
  "(\<exists>r. recalculateFullflash sample_input default_keys = (phone_image, Inr (Some r))) \<and> writes_apart sample_input default_keys"
proof
  let ?layout = "\<lparr>layout_version = \<lparr>version_major = 2, version_minor = 0\<rparr>, hashOffset = 0x238, imeiOffset = 0x65C\<rparr>"
  let ?e = "\<lparr>m_data = phone_image, eeprom_layout = UNKNOWN_LAYOUT, m_blocks = Map.empty\<rparr>"
  have erased: "\<not> isErasedData sample_input (hashOffset ?layout) 16"
  proof -
    have "chunk sample_input 0x238 16 = replicate 16 0" by (simp add: sample_input_def)
    moreover have "\<not> list_all (\<lambda>v. v = 0xFF) (replicate 16 (0 :: u8))" by code_simp
    ultimately show ?thesis by (simp add: isErasedData_def)
  qed
  have parse: "parsePartitions (patched sample_input ?layout default_keys) = Inr ?e"
    unfolding sample_input_patched by (rule phone_image_store)
  obtain ff' r where run: "recalculateFullflash sample_input default_keys = (ff', Inr (Some r))"
    using recalculate_runs [OF sample_input_layout erased parse refl] by metis
  obtain layout e where cases: "getBootcoreLayout sample_input = Some layout"
    "parsePartitions (patched sample_input layout default_keys) = Inr e" "length ff' = length sample_input"
    "\<And>j. j \<notin> written_offsets e (recalculation_table default_keys e) \<Longrightarrow>
      ff' ! j = patched sample_input layout default_keys ! j"
    by (rule recalculated_cases [OF run]) blast
  have "layout = ?layout" using cases(1) sample_input_layout by simp
  then have "e = ?e" using cases(2) parse by simp
  then have "ff' = phone_image"
    using cases(3,4) \<open>layout = ?layout\<close> no_blocks(1) [of ?e] sample_input_patched
    by (intro nth_equalityI) (simp_all add: sample_input_def)
  then show "\<exists>r. recalculateFullflash sample_input default_keys = (phone_image, Inr (Some r))"
    using run by blast
  show "writes_apart sample_input default_keys"
    unfolding writes_apart_def sample_input_layout option.case parse sum.case by (simp add: no_blocks)
qed



end
