(* ===== verification/EepromX85.thy ===== *)
theory EepromX85
  imports Eeprom
begin

text \<open>
  Images with one X85 partition, and what the parser of src/siemens/eeprom.cpp makes of them.  An X85
  table grows down from the header at the end of the partition, in rows of 32 bytes.  The data of a
  small block follows its entry, in the lower halves of the rows just below it, aligned to the top;
  the data of a larger block lies at the start of the partition, where the entry points.  The parser
  reads every row as an entry, the rows that hold data included: it skips what has no valid state.
  So an image reads back if no row of data begins like a valid entry (\<open>x85_quiet\<close>);
  by \<open>x85_row_like_entry\<close> a row of data can be any entry whatever.
\<close>

section \<open>A writer of X85 images\<close>

definition x85_header :: "PartitionType \<Rightarrow> u8 list" where
  "x85_header type = x65_header type @ replicate 16 0xFF"

definition x85_stored :: "PartitionType \<Rightarrow> u8 list \<Rightarrow> u8 list" where
  "x85_stored type v = (if type = EEFULL then 0 # v else v)"

definition x85_inline :: "PartitionType \<Rightarrow> nat \<Rightarrow> bool" where
  "x85_inline type n \<longleftrightarrow>
     n \<le> (if type = EEFULL then X85_EEFULL_MAX_LINEAR_SIZE else X85_EELITE_MAX_LINEAR_SIZE)"

definition x85_field :: "PartitionType \<Rightarrow> u32 \<Rightarrow> u8 list" where
  "x85_field type w = (if type = EELITE then take 2 (le_bytes w) @ [0xFF, 0xFF] else le_bytes w)"

definition x85_entry :: "PartitionType \<Rightarrow> u32 \<Rightarrow> nat \<Rightarrow> u32 \<Rightarrow> u8 list" where
  "x85_entry type bid n off =
     le_bytes 0xFFFFFFC0 @ x85_field type bid @ x85_field type (word_of_nat n) @ le_bytes off
       @ replicate 16 0xFF"

definition x85_rows :: "nat \<Rightarrow> nat" where
  "x85_rows n = (n + 15) div 16"

definition x85_row :: "u8 list \<Rightarrow> nat \<Rightarrow> u8 list" where
  "x85_row s k = chunk (replicate (16 * x85_rows (length s) - length s) 0xFF @ s) (16 * k) 16 @ replicate 16 0xFF"

definition x85_data :: "u8 list \<Rightarrow> u8 list list" where
  "x85_data s = map (x85_row s) (rev [0..<x85_rows (length s)])"

text \<open>The table from the top down, and the data at the start of the partition.\<close>

fun x85_table :: "PartitionType \<Rightarrow> nat \<Rightarrow> (u32 \<times> u8 list) list \<Rightarrow> u8 list list" where
  "x85_table type off [] = []"
| "x85_table type off ((bid, v) # items) =
     (let s = x85_stored type v
      in if x85_inline type (length s)
         then x85_entry type bid (length s) 0xFFFFFFFF # x85_data s @ x85_table type off items
         else x85_entry type bid (length s) (word_of_nat off) # x85_table type (off + length s) items)"

fun x85_linear :: "PartitionType \<Rightarrow> (u32 \<times> u8 list) list \<Rightarrow> u8 list" where
  "x85_linear type [] = []"
| "x85_linear type ((bid, v) # items) =
     (let s = x85_stored type v in (if x85_inline type (length s) then [] else s) @ x85_linear type items)"

definition x85_image :: "PartitionType \<Rightarrow> (u32 \<times> u8 list) list \<Rightarrow> u8 list" where
  "x85_image type items =
     (let body = replicate 32 0xFF @ x85_linear type items;
          table = concat (rev (x85_table type 32 items))
      in body @ replicate (X85_PARTITION_SIZE - 32 - length body - length table) 0xFF @ table @ x85_header type)"

definition quiet :: "u32 \<Rightarrow> bool" where
  "quiet w \<longleftrightarrow> w AND ENTRY_STATE_MASK \<noteq> VALID"

definition x85_quiet :: "PartitionType \<Rightarrow> (u32 \<times> u8 list) list \<Rightarrow> bool" where
  "x85_quiet type items \<longleftrightarrow>
     (\<forall>v \<in> set (map snd items). let s = x85_stored type v in
        x85_inline type (length s) \<longrightarrow> (\<forall>k < x85_rows (length s). quiet (readUInt32LE (x85_row s k) 0)))
     \<and> (let body = replicate 32 0xFF @ x85_linear type items @ replicate 32 0xFF
        in \<forall>k < (length (x85_linear type items) + 31) div 32. quiet (readUInt32LE body (32 * Suc k)))"

definition x85_fits :: "PartitionType \<Rightarrow> (u32 \<times> u8 list) list \<Rightarrow> bool" where
  "x85_fits type items \<longleftrightarrow> type \<noteq> UNKNOWN_PARTITION \<and>
     length (x85_linear type items) + 64 \<le> PARTITION_STEP \<and>
     32 * length (x85_table type 32 items) + 64 \<le> PARTITION_STEP \<and>
     (\<forall>(bid, v) \<in> set items. bid \<le> maxId type \<and> x85_stored type v \<noteq> []) \<and> x85_quiet type items"

section \<open>Rows of the table\<close>

lemmas x85_consts = X85_PARTITION_SIZE_def X85_HEADER_SIZE_def X85_ENTRY_SIZE_def X85_DATA_CHUNK_SIZE_def
  X85_EELITE_MAX_LINEAR_SIZE_def X85_EEFULL_MAX_LINEAR_SIZE_def PARTITION_STEP_def

lemma length_x85_field [simp]: "length (x85_field type w) = 4"
  by (simp add: x85_field_def)

lemma length_x85_entry [simp]: "length (x85_entry type bid n off) = 32"
  by (simp add: x85_entry_def)

lemma x85_rows_room: "n \<le> 16 * x85_rows n" "16 * x85_rows n < n + 16"
  unfolding x85_rows_def by presburger+

lemma length_x85_row [simp]: "k < x85_rows (length s) \<Longrightarrow> length (x85_row s k) = 32"
  using x85_rows_room [of "length s"] by (simp add: x85_row_def)

lemma length_x85_data [simp]: "length (x85_data s) = x85_rows (length s)"
  by (simp add: x85_data_def)

lemma x85_data_nth: "k < x85_rows (length s) \<Longrightarrow> x85_data s ! (x85_rows (length s) - Suc k) = x85_row s k"
  by (simp add: x85_data_def rev_nth rev_map [symmetric])

lemma x85_table_32: "row \<in> set (x85_table type off items) \<Longrightarrow> length row = 32"
  by (induction type off items rule: x85_table.induct) (auto simp: Let_def x85_data_def split: if_splits)

text \<open>Row \<open>j\<close> of the table, counted down from the header, is entry \<open>j + 1\<close> of the scan.\<close>

definition row_pos :: "nat \<Rightarrow> nat" where
  "row_pos j = 262080 - 32 * j"

lemma entry_offset: "0 + X85_PARTITION_SIZE - X85_HEADER_SIZE - X85_ENTRY_SIZE * Suc j = row_pos j"
  by (simp add: x85_consts row_pos_def)

lemma entryX85_quiet:
  assumes "row_pos j + 4 \<le> length d" and "quiet (readUInt32LE d (row_pos j))"
  shows "entryX85 d type 0 (Suc j) = Inr Skip"
  using assms unfolding entryX85_def entry_offset
  by (simp add: fetch32_def quiet_def Let_def del: ebind_Inr_iff)

lemma entriesX85_append:
  "entriesX85 d type po (is @ js) blocks = ebind (entriesX85 d type po is blocks) (entriesX85 d type po js)"
proof (induction "is" arbitrary: blocks)
  case (Cons i rest)
  then show ?case
    using entryX85_not_Stop [of d type po i]
    by (cases "entryX85 d type po i") (auto split: entry_step.split simp del: ebind_Inr_iff)
qed simp

lemma entriesX85_skip:
  "\<forall>i \<in> set is. entryX85 d type po i = Inr Skip \<Longrightarrow> entriesX85 d type po is blocks = Inr blocks"
  by (induction "is") (auto simp del: ebind_Inr_iff)

section \<open>One entry\<close>

lemma readUInt16LE_bytes: "readUInt16LE d off = ucast (d ! off) OR push_bit 8 (ucast (d ! (off + 1)))"
  by (simp add: readUInt16LE_def readUnsignedLE_def eval_nat_numeral)

lemma readUInt16LE_le_bytes: "readUInt16LE (le_bytes w) 0 = ucast w"
proof -
  have "le_bytes w ! 0 = ucast w" "le_bytes w ! 1 = ucast (drop_bit 8 w)"
    unfolding le_bytes_def by (subst nth_map; simp)+
  then have a: "readUInt16LE (le_bytes w) 0 = ucast (ucast w :: u8) OR push_bit 8 (ucast (ucast (drop_bit 8 w) :: u8))"
    by (simp only: readUInt16LE_bytes add_0)
  show ?thesis
    unfolding a by (rule bit_word_eqI) (auto simp: bit_or_iff bit_push_bit_iff bit_ucast_iff bit_drop_bit_eq)
qed

lemma fetch_field_row:
  assumes "off + 4 \<le> length d" and "chunk d off 4 = x85_field type w"
    and "type = EELITE \<longrightarrow> unat w < 2 ^ 16" and "type \<noteq> UNKNOWN_PARTITION"
  shows "fetch_field d type off = Inr w"
proof (cases "type = EELITE")
  case True
  have "readUInt16LE d off = readUInt16LE (chunk d off 4) 0"
    using assms(1) by (intro u16le.rd_cong) simp
  also have "\<dots> = readUInt16LE (le_bytes w) 0"
    unfolding assms(2) using True by (intro u16le.rd_cong) (auto simp: x85_field_def nth_append)
  also have "\<dots> = ucast w" by (rule readUInt16LE_le_bytes)
  finally have "readUInt16LE d off = ucast w" .
  moreover have "(ucast (ucast w :: u16) :: u32) = w"
    using assms(3) True by (intro word_unat_eq_iff [THEN iffD2]) (simp add: unat_ucast_small)
  ultimately show ?thesis using True assms(1) by (simp add: fetch_field_def fetch16_def)
next
  case False
  have "readUInt32LE d off = readUInt32LE (chunk d off 4) 0"
    using assms(1) by (intro u32le.rd_cong) simp
  then show ?thesis using False assms(1,2) by (simp add: fetch_field_def fetch32_def x85_field_def)
qed

lemma x85_entry_fields:
  assumes row: "chunk d eo 32 = x85_entry type bid n off" and len: "eo + 32 \<le> length d"
    and small: "type = EELITE \<longrightarrow> unat bid < 2 ^ 16 \<and> n < 2 ^ 16" and t: "type \<noteq> UNKNOWN_PARTITION"
  shows "fetch32 d eo = Inr 0xFFFFFFC0" and "fetch_field d type (eo + 4) = Inr bid"
    and "fetch_field d type (eo + 8) = Inr (word_of_nat n)" and "fetch32 d (eo + 12) = Inr off"
proof -
  have sub: "chunk d (eo + k) 4 = chunk (x85_entry type bid n off) k 4" if "k + 4 \<le> 32" for k
    unfolding row [symmetric] using that by (simp add: chunk_def drop_take add.commute min_def)
  have c: "chunk d (eo + 0) 4 = le_bytes 0xFFFFFFC0" "chunk d (eo + 4) 4 = x85_field type bid"
    "chunk d (eo + 8) 4 = x85_field type (word_of_nat n)" "chunk d (eo + 12) 4 = le_bytes off"
    by (simp_all only: sub) (simp_all add: x85_entry_def chunk_def)
  have r: "readUInt32LE d p = readUInt32LE (chunk d p 4) 0" if "p + 4 \<le> length d" for p
    using that by (intro u32le.rd_cong) simp
  show "fetch32 d eo = Inr 0xFFFFFFC0" using len r [of eo] c(1) by (simp add: fetch32_def)
  show "fetch32 d (eo + 12) = Inr off" using len r [of "eo + 12"] c(4) by (simp add: fetch32_def)
  show "fetch_field d type (eo + 4) = Inr bid" using len small t c(2) by (intro fetch_field_row) auto
  have "unat (word_of_nat n :: u32) < 2 ^ 16" if "n < 2 ^ 16" using that by (simp add: unat_word_of_nat_small)
  then show "fetch_field d type (eo + 8) = Inr (word_of_nat n)"
    using len small t c(3) by (intro fetch_field_row) auto
qed

lemma entry_valid_word: "(0xFFFFFFC0 :: u32) AND ENTRY_STATE_MASK = VALID"
  by (simp add: ENTRY_STATE_MASK_def VALID_def)

definition x85_inline_block :: "nat \<Rightarrow> nat \<Rightarrow> block" where
  "x85_inline_block eo n =
     \<lparr>m_offset = eo - 32 * x85_rows n + (16 * x85_rows n - n), m_size = n, m_layout = STRIDED\<rparr>"

lemma rows_below:
  assumes "eo mod 32 = (0 :: nat)" and "32 * q \<le> eo"
  obtains F where "eo = 32 * q + 32 * F"
proof -
  have e: "eo = 32 * (eo div 32)" using assms(1) by (simp add: mod_0_imp_dvd)
  then have "q \<le> eo div 32" using assms(2) by linarith
  then show ?thesis using e that [of "eo div 32 - q"] by (simp add: diff_mult_distrib2)
qed

lemma locateX85_inline:
  assumes n: "0 < n" "x85_inline type n" and eo: "eo mod 32 = 0" "32 * x85_rows n + 16 \<le> eo"
  shows "locateX85 d type 0 eo (word_of_nat n) = Inr (x85_inline_block eo n)"
proof -
  define q where "q = x85_rows n"
  have q: "n \<le> 16 * q" "16 * q < n + 16" unfolding q_def by (rule x85_rows_room)+
  have small: "n \<le> 0x200" using n(2) by (auto simp: x85_inline_def x85_consts split: if_splits)
  then have un: "unat (word_of_nat n :: u32) = n" by (simp add: unat_word_of_nat_small)
  have low: "unat ((ucast (word_of_nat n :: u32) :: u64) AND NOT (word_of_nat 16 - 1)) = n - n mod 16"
    using clear_low_nibble [of "word_of_nat n"] by (simp add: un)

  have "32 * q \<le> eo" using eo(2) unfolding q_def [symmetric] by linarith
  then obtain F where F: "eo = 32 * q + 32 * F" by (rule rows_below [OF eo(1)])
  define a where "a = n div 16"
  define r where "r = n mod 16"
  have nr: "n = 16 * a + r" "r < 16" by (simp_all add: a_def r_def)
  have low_n: "n - n mod 16 = 16 * a" using nr(1) by (simp add: r_def)
  have "a < q \<or> r = 0 \<and> a = q" using q nr by linarith
  then have res: "16 + n + (n - n mod 16) \<le> eo"
    unfolding low_n using eo(2) nr unfolding q_def [symmetric] by linarith
  have "alignDataOffset (eo - (16 + n + (n - n mod 16))) 16 = eo - 32 * q + (16 * q - n)"
  proof (cases "r = 0")
    case True
    then have qa: "q = a" using q nr by linarith
    have "1 \<le> F" using eo(2) F unfolding q_def [symmetric] by linarith
    then obtain G where G: "F = G + 1" by (metis add.commute le_Suc_ex)
    have "eo - (16 + n + (n - n mod 16)) = 16 + 32 * G" unfolding low_n using F G True nr qa by simp
    moreover have "(16 + 32 * G) mod 32 = 16" by (subst mod_mult_self2) simp
    ultimately show ?thesis using F G True nr qa by (simp add: align_16)
  next
    case False
    then have qa: "q = a + 1" using q nr by linarith
    have "eo - (16 + n + (n - n mod 16)) = (16 - r) + 32 * F" unfolding low_n using F nr qa by simp
    moreover have "((16 - r) + 32 * F) mod 32 = 16 - r" by (subst mod_mult_self2) simp
    ultimately show ?thesis using F False nr qa by (simp add: align_16)
  qed
  then show ?thesis
    using n(2) res unfolding locateX85_def X85_DATA_CHUNK_SIZE_def low un
    by (simp add: Let_def x85_inline_def x85_inline_block_def q_def)
qed

lemma locateX85_linear:
  assumes n: "\<not> x85_inline type n" "off + n \<le> X85_PARTITION_SIZE" and "fetch32 d (eo + 12) = Inr (word_of_nat off)"
  shows "locateX85 d type 0 eo (word_of_nat n) = Inr \<lparr>m_offset = off, m_size = n, m_layout = LINEAR\<rparr>"
proof -
  have un: "unat (word_of_nat n :: u32) = n" "unat (word_of_nat off :: u32) = off"
    using n by (simp_all add: unat_word_of_nat_small x85_consts)
  have "0 < n" using n(1) by (auto simp: x85_inline_def)
  then show ?thesis
    using n assms(3) unfolding locateX85_def un
    by (auto simp: Let_def x85_inline_def un simp del: ebind_Inr_iff split: if_splits)
qed

text \<open>The bytes of an inline block are the lower halves of its rows.\<close>

lemma inline_bytes:
  assumes rows: "\<And>k. k < x85_rows (length s) \<Longrightarrow> chunk d (eo - 32 * x85_rows (length s) + 32 * k) 32 = x85_row s k"
    and eo: "eo mod 32 = 0" "32 * x85_rows (length s) \<le> eo" "eo \<le> length d" and i: "i < length s"
  shows "d ! getBlockByteOffset (x85_inline_block eo (length s)) i = s ! i"
    and "getBlockByteOffset (x85_inline_block eo (length s)) i < length d"
proof -
  define q where "q = x85_rows (length s)"
  define pad where "pad = 16 * q - length s"
  define k where "k = (pad + i) div 16"
  define t where "t = (pad + i) mod 16"
  have q: "length s \<le> 16 * q" "16 * q < length s + 16" unfolding q_def by (rule x85_rows_room)+
  have pi: "pad + i = 16 * k + t" and t: "t < 16" by (simp_all add: k_def t_def)
  have "16 * k + t < 16 * q" using pi q i pad_def by linarith
  then have k: "k < q" by linarith
  obtain F where "eo = 32 * q + 32 * F" using eo(2) unfolding q_def [symmetric] by (rule rows_below [OF eo(1)])
  then have "eo - 32 * q + pad = pad + 16 * (2 * F)" by simp
  moreover have "pad < 16" using q pad_def by linarith
  then have "pad mod 16 = pad" by simp
  ultimately have mod_pad: "(eo - 32 * q + pad) mod 16 = pad" by (simp only: mod_mult_self2)
  then have off: "getBlockByteOffset (x85_inline_block eo (length s)) i = eo - 32 * q + 32 * k + t"
  proof -
    have strided: "m_layout (x85_inline_block eo (length s)) = STRIDED"
      and at: "m_offset (x85_inline_block eo (length s)) = eo - 32 * q + pad"
      by (simp_all add: x85_inline_block_def q_def pad_def)
    show ?thesis
      unfolding byte_offset_strided [OF strided] at mod_pad k_def [symmetric] using pi by linarith
  qed
  have hi: "eo - 32 * q + 32 * k + 32 \<le> eo" using eo(2) k unfolding q_def [symmetric] by linarith
  then show "getBlockByteOffset (x85_inline_block eo (length s)) i < length d" using off t eo(3) by linarith
  have "d ! (eo - 32 * q + 32 * k + t) = chunk d (eo - 32 * q + 32 * k) 32 ! t"
    using hi eo(3) t by simp
  also have "\<dots> = x85_row s k ! t" using rows k by (simp only: q_def)
  also have "\<dots> = (replicate pad 0xFF @ s) ! (16 * k + t)"
  proof -
    let ?p = "replicate pad 0xFF @ s"
    have lp: "length ?p = 16 * q" using q pad_def by simp
    then have "length (chunk ?p (16 * k) 16) = 16" unfolding length_chunk lp using k by linarith
    then have "x85_row s k ! t = chunk ?p (16 * k) 16 ! t"
      using t by (simp add: x85_row_def q_def [symmetric] pad_def [symmetric] nth_append del: length_chunk)
    also have "\<dots> = ?p ! (16 * k + t)" using t \<open>16 * k + t < 16 * q\<close> lp by (intro nth_chunk) linarith+
    finally show ?thesis .
  qed
  also have "\<dots> = s ! i" using pi by (simp add: nth_append flip: pi)
  finally show "d ! getBlockByteOffset (x85_inline_block eo (length s)) i = s ! i" by (simp only: off)
qed

lemma maxId_eelite: "bid \<le> maxId EELITE \<Longrightarrow> unat bid < 2 ^ 16"
  by (simp add: maxId_def EEFULL_ID_OFFSET_def word_le_nat_alt)

text \<open>What an entry stores, wherever its data lies, reads as the value that was written for it.\<close>

definition stored_at :: "u8 list \<Rightarrow> u8 list \<Rightarrow> block \<Rightarrow> bool" where
  "stored_at d s blk \<longleftrightarrow> m_size blk = length s \<and>
     (\<forall>i < length s. getBlockByteOffset blk i < length d \<and> d ! getBlockByteOffset blk i = s ! i)"

lemma entryX85_store:
  assumes s_def: "s = x85_stored type v"
    and row: "chunk d (row_pos j) 32 = x85_entry type bid (length s) off" and len: "row_pos j + 32 \<le> length d"
    and n: "s \<noteq> []" "length s < 2 ^ 16" and bid: "bid \<le> maxId type" and t: "type \<noteq> UNKNOWN_PARTITION"
    and loc: "locateX85 d type 0 (row_pos j) (word_of_nat (length s)) = Inr blk" and at: "stored_at d s blk"
  shows "\<exists>blk'. entryX85 d type 0 (Suc j) = Inr (Store (x65_id type bid) blk') \<and> block_bytes d blk' = v"
proof -
  have small: "type = EELITE \<longrightarrow> unat bid < 2 ^ 16 \<and> length s < 2 ^ 16" using bid n(2) maxId_eelite by blast
  note f = x85_entry_fields [OF row len small t]
  have nz: "(word_of_nat (length s) :: u32) \<noteq> 0"
  proof
    assume "(word_of_nat (length s) :: u32) = 0"
    moreover have "unat (word_of_nat (length s) :: u32) = length s" using n(2) by (simp add: unat_word_of_nat_small)
    ultimately show False using n(1) by simp
  qed
  have size: "m_size blk = length s" and bytes: "i < length s \<Longrightarrow> getBlockByteOffset blk i < length d
      \<and> d ! getBlockByteOffset blk i = s ! i" for i
    using at by (simp_all add: stored_at_def)
  show ?thesis
  proof (cases "type = EEFULL")
    case True
    then have s: "s = 0 # v" by (simp add: s_def x85_stored_def)
    then have "fetch d (getBlockByteOffset blk 0) = Inr 0" using bytes [of 0] by (simp add: fetch_def)
    then have meta: "getEefullMetadataSize d blk (row_pos j) = Inr 1"
      by (simp add: getEefullMetadataSize_def size s)
    let ?blk = "blk\<lparr>m_offset := getBlockByteOffset blk 1, m_size := m_size blk - 1\<rparr>"
    have "entryX85 d type 0 (Suc j) = Inr (Store (x65_id type bid) ?blk)"
      unfolding entryX85_def entry_offset
      using f nz bid loc meta True
      by (simp add: entry_valid_word entry_state_words Let_def x65_id_def not_less del: ebind_Inr_iff)
    moreover have "block_bytes d ?blk = v"
      unfolding block_bytes_def byte_offset_shift
      using bytes [of "Suc i" for i] by (intro nth_equalityI) (simp_all add: size s)
    ultimately show ?thesis by blast
  next
    case False
    then have s: "s = v" by (simp add: s_def x85_stored_def)
    have "entryX85 d type 0 (Suc j) = Inr (Store (x65_id type bid) blk)"
      unfolding entryX85_def entry_offset
      using f nz bid loc False
      by (simp add: entry_valid_word entry_state_words Let_def x65_id_def not_less del: ebind_Inr_iff)
    moreover have "block_bytes d blk = v"
      unfolding block_bytes_def using bytes by (intro nth_equalityI) (simp_all add: size s)
    ultimately show ?thesis by blast
  qed
qed
section \<open>The scan of a table\<close>

definition readable :: "u8 list \<Rightarrow> (u32 \<Rightarrow> block option) \<Rightarrow> u32 \<Rightarrow> u8 list option" where
  "readable d blocks bid = map_option (block_bytes d) (blocks bid)"

lemma readable_store: "readable d (blocks(b \<mapsto> blk)) = (readable d blocks)(b \<mapsto> block_bytes d blk)"
  by (auto simp: readable_def)

lemma entriesX85_first:
  "entryX85 d type po (Suc j) = Inr (Store b blk) \<Longrightarrow>
    entriesX85 d type po [Suc j..<Suc j + Suc m] blocks
      = entriesX85 d type po [Suc (Suc j)..<Suc (Suc j) + m] (blocks(b \<mapsto> blk))"
  by (simp add: upt_rec [of "Suc j"] insert_or_assign_def del: ebind_Inr_iff upt_Suc)

definition rows_at :: "u8 list \<Rightarrow> nat \<Rightarrow> u8 list list \<Rightarrow> bool" where
  "rows_at d j rows \<longleftrightarrow> 32 * (j + length rows) \<le> 65472
     \<and> (\<forall>i < length rows. chunk d (row_pos (j + i)) 32 = rows ! i)"

lemma rows_at_Cons: "rows_at d j (r # rows) \<Longrightarrow> chunk d (row_pos j) 32 = r \<and> rows_at d (Suc j) rows"
  by (force simp: rows_at_def)

lemma rows_at_append: "rows_at d j (rows @ rows') \<Longrightarrow> rows_at d j rows \<and> rows_at d (j + length rows) rows'"
  by (auto simp: rows_at_def nth_append add.assoc dest!: spec [of _ "length rows + _"] split: if_splits)

lemma row_pos_facts:
  assumes "32 * j \<le> 65472"
  shows "row_pos j mod 32 = 0" and "131072 \<le> row_pos j" and "row_pos j + 64 \<le> 262144"
proof -
  show "row_pos j mod 32 = 0" using assms unfolding row_pos_def by presburger
qed (use assms in \<open>simp_all add: row_pos_def\<close>)

lemma data_rows_quiet:
  assumes rows: "rows_at d (Suc j) (x85_data s)" and len: "length d = 262144"
    and quiet: "\<forall>k < x85_rows (length s). quiet (readUInt32LE (x85_row s k) 0)"
  shows "entriesX85 d type 0 [Suc (Suc j)..<Suc (Suc j) + x85_rows (length s)] blocks = Inr blocks"
proof (rule entriesX85_skip, rule ballI)
  fix i assume "i \<in> set [Suc (Suc j)..<Suc (Suc j) + x85_rows (length s)]"
  then obtain m where i: "i = Suc (Suc j + m)" "m < x85_rows (length s)"
    by (metis add_Suc atLeastLessThan_iff nat_add_left_cancel_less nat_le_iff_add set_upt)
  define k where "k = x85_rows (length s) - Suc m"
  have k: "k < x85_rows (length s)" "m = x85_rows (length s) - Suc k" using i(2) by (auto simp: k_def)
  have "chunk d (row_pos (Suc j + m)) 32 = x85_row s k"
    using rows i(2) x85_data_nth [OF k(1)] by (simp add: rows_at_def k(2) [symmetric])
  moreover have pos: "row_pos (Suc j + m) + 64 \<le> 262144"
    using rows i(2) by (intro row_pos_facts) (simp add: rows_at_def)
  then have "readUInt32LE d (row_pos (Suc j + m)) = readUInt32LE (chunk d (row_pos (Suc j + m)) 32) 0"
    using len by (intro u32le.rd_cong) simp
  ultimately have "quiet (readUInt32LE d (row_pos (Suc j + m)))" using quiet k(1) by simp
  then show "entryX85 d type 0 i = Inr Skip"
    unfolding i(1) using pos len by (intro entryX85_quiet) simp_all
qed

lemma stored_inline:
  assumes rows: "rows_at d (Suc j) (x85_data s)" and len: "length d = 262144"
  shows "stored_at d s (x85_inline_block (row_pos j) (length s))"
proof -
  let ?q = "x85_rows (length s)"
  have room: "32 * (Suc j + ?q) \<le> 65472" using rows by (simp add: rows_at_def)
  then have pos: "row_pos j mod 32 = 0" "131072 \<le> row_pos j" "row_pos j + 64 \<le> 262144"
    by (intro row_pos_facts; simp)+
  have row: "chunk d (row_pos j - 32 * ?q + 32 * k) 32 = x85_row s k" if k: "k < ?q" for k
  proof -
    have "row_pos (Suc j + (?q - Suc k)) = row_pos j - 32 * ?q + 32 * k"
      using room k by (simp add: row_pos_def)
    moreover have "chunk d (row_pos (Suc j + (?q - Suc k))) 32 = x85_data s ! (?q - Suc k)"
    proof -
      have "?q - Suc k < ?q" using k by simp
      then show ?thesis using rows unfolding rows_at_def length_x85_data by blast
    qed
    ultimately show ?thesis by (simp only: x85_data_nth [OF k])
  qed
  have "32 * ?q \<le> row_pos j" "row_pos j \<le> length d" using room pos len by simp_all
  from inline_bytes [OF row pos(1) this] show ?thesis
    by (simp add: stored_at_def) (simp add: x85_inline_block_def)
qed

lemma stored_linear:
  assumes "chunk d off (length s) = s" and "off + length s \<le> length d"
  shows "stored_at d s \<lparr>m_offset = off, m_size = length s, m_layout = LINEAR\<rparr>"
proof -
  have "d ! (off + i) = s ! i" if "i < length s" for i
    using nth_chunk [of i "length s" off d] that assms by simp
  then show ?thesis using assms(2) by (simp add: stored_at_def byte_offset_linear)
qed

text \<open>What the scan of a table has to find: an entry per item, in this order, with its data.\<close>

definition x85_values :: "PartitionType \<Rightarrow> (u32 \<times> u8 list) list \<Rightarrow> (u32 \<times> u8 list) list" where
  "x85_values type items = map (\<lambda>(i, v). (x65_id type i, v)) items"

definition x85_item_ok :: "PartitionType \<Rightarrow> u32 \<Rightarrow> u8 list \<Rightarrow> bool" where
  "x85_item_ok type bid v \<longleftrightarrow> bid \<le> maxId type \<and> x85_stored type v \<noteq> [] \<and>
     (let s = x85_stored type v in x85_inline type (length s) \<longrightarrow>
        (\<forall>k < x85_rows (length s). quiet (readUInt32LE (x85_row s k) 0)))"

lemma chunk_prefix: "chunk d off (length (xs @ ys)) = xs @ ys \<Longrightarrow>
    chunk d off (length xs) = xs \<and> chunk d (off + length xs) (length ys) = ys"
proof -
  assume whole: "chunk d off (length (xs @ ys)) = xs @ ys"
  have "chunk d off (length xs) = take (length xs) (chunk d off (length (xs @ ys)))"
    and "chunk d (off + length xs) (length ys) = drop (length xs) (chunk d off (length (xs @ ys)))"
    by (simp_all add: chunk_def drop_take add.commute)
  then show ?thesis unfolding whole by simp
qed

lemma entriesX85_items:
  assumes "length d = 262144" and "type \<noteq> UNKNOWN_PARTITION"
    and "rows_at d j (x85_table type off items)" and "\<forall>(bid, v) \<in> set items. x85_item_ok type bid v"
    and "chunk d off (length (x85_linear type items)) = x85_linear type items"
    and "off + length (x85_linear type items) < PARTITION_STEP"
  shows "\<exists>blocks'. entriesX85 d type 0 [Suc j..<Suc j + length (x85_table type off items)] blocks = Inr blocks'
    \<and> readable d blocks' = readable d blocks ++ map_of (rev (x85_values type items))"
  using assms
proof (induction items arbitrary: j off blocks)
  case Nil
  then show ?case by (simp add: x85_values_def)
next
  case (Cons item items)
  obtain bid v where item: "item = (bid, v)" by (cases item)
  define s where "s = x85_stored type v"
  note len = Cons.prems(1) and t = Cons.prems(2)
  have ok: "bid \<le> maxId type" "s \<noteq> []" "x85_inline type (length s) \<Longrightarrow>
      \<forall>k < x85_rows (length s). quiet (readUInt32LE (x85_row s k) 0)"
    and rest_ok: "\<forall>(bid, v) \<in> set items. x85_item_ok type bid v"
    using Cons.prems(4) by (auto simp: item x85_item_ok_def s_def Let_def)
  have step_values: "readable d (blocks(x65_id type bid \<mapsto> blk)) ++ map_of (rev (x85_values type items))
      = readable d blocks ++ map_of (rev (x85_values type (item # items)))" if "block_bytes d blk = v" for blk
    by (simp add: readable_store that x85_values_def item map_add_assoc [symmetric])
  show ?case
  proof (cases "x85_inline type (length s)")
    case True
    let ?rest = "x85_table type off items"
    have table: "x85_table type off (item # items)
        = x85_entry type bid (length s) 0xFFFFFFFF # x85_data s @ ?rest"
      and linear: "x85_linear type (item # items) = x85_linear type items"
      using True by (simp_all add: item Let_def s_def)
    note rows = rows_at_Cons [OF Cons.prems(3) [unfolded table]]
    have data: "rows_at d (Suc j) (x85_data s)" and rest: "rows_at d (Suc j + x85_rows (length s)) ?rest"
      using rows_at_append [OF conjunct2 [OF rows]] by simp_all
    have room: "32 * (Suc j + x85_rows (length s)) \<le> 65472" using data by (simp add: rows_at_def)
    then have pos: "row_pos j mod 32 = 0" "131072 \<le> row_pos j" "row_pos j + 64 \<le> 262144"
      by (intro row_pos_facts; simp)+
    have n: "0 < length s" using ok(2) by simp
    have small: "length s < 2 ^ 16" using x85_rows_room(1) [of "length s"] room by simp
    have loc: "locateX85 d type 0 (row_pos j) (word_of_nat (length s)) = Inr (x85_inline_block (row_pos j) (length s))"
    proof (rule locateX85_inline [OF n True pos(1)])
      show "32 * x85_rows (length s) + 16 \<le> row_pos j" using room pos(2) by simp
    qed
    obtain blk where step: "entryX85 d type 0 (Suc j) = Inr (Store (x65_id type bid) blk)" and v: "block_bytes d blk = v"
      using entryX85_store [OF s_def conjunct1 [OF rows] _ ok(2) small ok(1) t loc stored_inline [OF data len]] pos len
      by auto
    let ?blocks = "blocks(x65_id type bid \<mapsto> blk)"
    obtain blocks' where run: "entriesX85 d type 0
          [Suc (Suc j + x85_rows (length s))..<Suc (Suc j + x85_rows (length s)) + length ?rest] ?blocks = Inr blocks'"
      and res: "readable d blocks' = readable d ?blocks ++ map_of (rev (x85_values type items))"
      using Cons.IH [OF len t rest rest_ok] Cons.prems(5,6) unfolding linear by blast
    have "entriesX85 d type 0 [Suc j..<Suc j + length (x85_table type off (item # items))] blocks
        = entriesX85 d type 0 [Suc (Suc j)..<Suc (Suc j) + (x85_rows (length s) + length ?rest)] ?blocks"
      unfolding table using entriesX85_first [OF step] by simp
    also have "[Suc (Suc j)..<Suc (Suc j) + (x85_rows (length s) + length ?rest)]
        = [Suc (Suc j)..<Suc (Suc j) + x85_rows (length s)]
          @ [Suc (Suc j + x85_rows (length s))..<Suc (Suc j + x85_rows (length s)) + length ?rest]"
      using upt_add_eq_append [of "Suc (Suc j)" "Suc (Suc j) + x85_rows (length s)" "length ?rest"]
      by (simp only: add.assoc add_Suc le_add1 simp_thms)
    also have "entriesX85 d type 0 \<dots> ?blocks = Inr blocks'"
      unfolding entriesX85_append data_rows_quiet [OF data len ok(3) [OF True]] ebind.simps by (rule run)
    finally show ?thesis using res step_values [OF v] by auto
  next
    case False
    let ?rest = "x85_table type (off + length s) items"
    have table: "x85_table type off (item # items)
        = x85_entry type bid (length s) (word_of_nat off) # ?rest"
      and linear: "x85_linear type (item # items) = s @ x85_linear type items"
      using False by (simp_all add: item Let_def s_def)
    note rows = rows_at_Cons [OF Cons.prems(3) [unfolded table]]
    note lin = chunk_prefix [OF Cons.prems(5) [unfolded linear]]
    have off: "off + length s + length (x85_linear type items) < PARTITION_STEP"
      using Cons.prems(6) by (simp add: linear add.assoc)
    have pos: "131072 \<le> row_pos j" "row_pos j + 64 \<le> 262144"
      using Cons.prems(3) by (intro row_pos_facts; simp add: rows_at_def table)+
    have small: "length s < 2 ^ 16" using off by (simp add: PARTITION_STEP_def)
    have fetch: "fetch32 d (row_pos j + 12) = Inr (word_of_nat off)"
      using small ok(1) maxId_eelite pos len by (intro x85_entry_fields(4) [OF conjunct1 [OF rows] _ _ t]) auto
    have loc: "locateX85 d type 0 (row_pos j) (word_of_nat (length s))
        = Inr \<lparr>m_offset = off, m_size = length s, m_layout = LINEAR\<rparr>"
      using off by (intro locateX85_linear [OF False _ fetch]) (simp add: x85_consts)
    have at: "stored_at d s \<lparr>m_offset = off, m_size = length s, m_layout = LINEAR\<rparr>"
      using lin off len by (intro stored_linear) (simp_all add: PARTITION_STEP_def)
    obtain blk where step: "entryX85 d type 0 (Suc j) = Inr (Store (x65_id type bid) blk)" and v: "block_bytes d blk = v"
      using entryX85_store [OF s_def conjunct1 [OF rows] _ ok(2) small ok(1) t loc at] pos len by auto
    obtain blocks' where run: "entriesX85 d type 0 [Suc (Suc j)..<Suc (Suc j) + length ?rest]
          (blocks(x65_id type bid \<mapsto> blk)) = Inr blocks'"
      and res: "readable d blocks' = readable d (blocks(x65_id type bid \<mapsto> blk)) ++ map_of (rev (x85_values type items))"
      using Cons.IH [OF len t conjunct2 [OF rows] rest_ok conjunct2 [OF lin] off] by blast
    have "entriesX85 d type 0 [Suc j..<Suc j + length (x85_table type off (item # items))] blocks = Inr blocks'"
      unfolding table using entriesX85_first [OF step] run by simp
    then show ?thesis using res step_values [OF v] by auto
  qed
qed

section \<open>The image\<close>

lemma length_x85_header [simp]: "length (x85_header type) = 32"
  by (simp add: x85_header_def)

lemma length_x85_table: "length (concat (rev (x85_table type off items))) = 32 * length (x85_table type off items)"
  using length_concat_uniform [of "rev (x85_table type off items)" 32] x85_table_32 by auto

lemma x85_image_parts:
  assumes "x85_fits type items"
  obtains gap where
    "x85_image type items = replicate 32 0xFF @ x85_linear type items @ replicate gap 0xFF
       @ concat (rev (x85_table type 32 items)) @ x85_header type"
    and "32 + length (x85_linear type items) + gap + 32 * length (x85_table type 32 items) = 262112"
    and "196608 \<le> 32 + length (x85_linear type items) + gap" and "length (x85_linear type items) + 64 \<le> 65536"
    and "32 * length (x85_table type 32 items) + 64 \<le> 65536"
proof
  let ?gap = "262112 - (32 + length (x85_linear type items)) - 32 * length (x85_table type 32 items)"
  show "x85_image type items = replicate 32 0xFF @ x85_linear type items @ replicate ?gap 0xFF
       @ concat (rev (x85_table type 32 items)) @ x85_header type"
    unfolding x85_image_def Let_def length_x85_table by (simp add: X85_PARTITION_SIZE_def)
  have "length (x85_linear type items) + 64 \<le> 65536" "32 * length (x85_table type 32 items) + 64 \<le> 65536"
    using assms unfolding x85_fits_def PARTITION_STEP_def by simp_all
  then show "32 + length (x85_linear type items) + ?gap + 32 * length (x85_table type 32 items) = 262112"
    and "196608 \<le> 32 + length (x85_linear type items) + ?gap" and "length (x85_linear type items) + 64 \<le> 65536"
    and "32 * length (x85_table type 32 items) + 64 \<le> 65536"
    by linarith+
qed

lemma length_x85_image [simp]: "x85_fits type items \<Longrightarrow> length (x85_image type items) = 262144"
  by (erule x85_image_parts) (simp only: length_append length_replicate length_x85_header length_x85_table)

lemma x85_image_rows:
  assumes fits: "x85_fits type items"
  shows "rows_at (x85_image type items) 0 (x85_table type 32 items)"
proof (rule x85_image_parts [OF fits])
  fix gap
  let ?T = "x85_table type 32 items" and ?low = "replicate 32 0xFF @ x85_linear type items"
  assume im: "x85_image type items = replicate 32 0xFF @ x85_linear type items @ replicate gap 0xFF
      @ concat (rev ?T) @ x85_header type"
    and sum: "32 + length (x85_linear type items) + gap + 32 * length ?T = 262112"
    and room: "32 * length ?T + 64 \<le> 65536"
  have "chunk (x85_image type items) (row_pos i) 32 = ?T ! i" if i: "i < length ?T" for i
  proof -
    have pos: "row_pos i = length (?low @ replicate gap 0xFF) + (length ?T - Suc i) * 32"
      using sum room i by (simp add: row_pos_def)
    have "chunk (x85_image type items) (row_pos i) 32 = chunk (concat (rev ?T)) ((length ?T - Suc i) * 32) 32"
    proof -
      have "(length ?T - Suc i) * 32 + 32 \<le> length (concat (rev ?T))"
        unfolding length_x85_table using i by (simp add: diff_mult_distrib)
      then have "chunk (concat (rev ?T) @ x85_header type) ((length ?T - Suc i) * 32) 32
          = chunk (concat (rev ?T)) ((length ?T - Suc i) * 32) 32"
        by (rule chunk_append_left)
      moreover have "x85_image type items = (?low @ replicate gap 0xFF) @ concat (rev ?T) @ x85_header type"
        using im by simp
      ultimately show ?thesis by (simp only: pos chunk_append_right le_add1 diff_add_inverse)
    qed
    also have "\<dots> = rev ?T ! (length ?T - Suc i)"
      using i x85_table_32 by (intro chunk_concat_uniform) auto
    finally show ?thesis using i by (simp add: rev_nth)
  qed
  then show ?thesis using room by (simp add: rows_at_def)
qed

lemma x85_image_linear:
  assumes "x85_fits type items"
  shows "chunk (x85_image type items) 32 (length (x85_linear type items)) = x85_linear type items"
  by (rule x85_image_parts [OF assms]) (simp add: chunk_def)

lemma x85_image_head:
  assumes "x85_fits type items"
  shows "chunk (x85_image type items) 262112 32 = x85_header type"
proof (rule x85_image_parts [OF assms])
  fix gap
  let ?body = "replicate 32 0xFF @ x85_linear type items @ replicate gap 0xFF @ concat (rev (x85_table type 32 items))"
  assume im: "x85_image type items = replicate 32 0xFF @ x85_linear type items @ replicate gap 0xFF
      @ concat (rev (x85_table type 32 items)) @ x85_header type"
    and "32 + length (x85_linear type items) + gap + 32 * length (x85_table type 32 items) = 262112"
  then have "length ?body = 262112" by (simp only: length_append length_replicate length_x85_table)
  moreover have "x85_image type items = ?body @ x85_header type" using im by simp
  ultimately show ?thesis by (simp only: chunk_def append_eq_conv_conj) (metis append_eq_conv_conj length_x85_header take_all_iff order_refl)
qed

lemma x85_image_erased:
  assumes fits: "x85_fits type items"
    and i: "i < 32 \<or> 32 + length (x85_linear type items) \<le> i \<and> i < 262112 - 32 * length (x85_table type 32 items)"
  shows "x85_image type items ! i = 0xFF"
proof (rule x85_image_parts [OF fits])
  fix gap
  assume im: "x85_image type items = replicate 32 0xFF @ x85_linear type items @ replicate gap 0xFF
      @ concat (rev (x85_table type 32 items)) @ x85_header type"
    and gap: "32 + length (x85_linear type items) + gap + 32 * length (x85_table type 32 items) = 262112"
  show ?thesis
  proof (cases "i < 32")
    case True
    then show ?thesis unfolding im by (simp add: nth_append)
  next
    case False
    then have "i - 32 - length (x85_linear type items) < gap" using i gap by linarith
    moreover have "\<not> i - 32 < length (x85_linear type items)" using False i by linarith
    ultimately show ?thesis unfolding im using False by (simp add: nth_append)
  qed
qed

text \<open>Below the table: erased rows and rows of linear data, none of which begins like an entry.\<close>

lemma quiet_erased: "quiet 0xFFFFFFFF"
  by (simp add: quiet_def ENTRY_STATE_MASK_def VALID_def)

lemma x85_image_low:
  assumes fits: "x85_fits type items" and m: "32 * m + 32 \<le> 262112 - 32 * length (x85_table type 32 items)"
  shows "quiet (readUInt32LE (x85_image type items) (32 * m))"
proof -
  let ?im = "x85_image type items" and ?lin = "x85_linear type items" and ?T = "x85_table type 32 items"
  consider "m = 0" | "m \<noteq> 0" "32 * m < 32 + length ?lin" | "32 + length ?lin \<le> 32 * m" by linarith
  then show ?thesis
  proof cases
    case 2
    define k where "k = m - 1"
    let ?body = "replicate 32 0xFF @ ?lin @ replicate 32 0xFF"
    have k: "m = Suc k" "k < (length ?lin + 31) div 32" using 2 by (auto simp: k_def)
    have room: "length ?lin + 64 \<le> 65536" "32 * length ?T + 64 \<le> 65536"
      using fits by (simp_all add: x85_fits_def PARTITION_STEP_def)
    have "?im ! (32 * m + i) = ?body ! (32 * m + i)" if i: "i < 4" for i
    proof (cases "32 * m + i < 32 + length ?lin")
      case True
      have "?im ! (32 * m + i) = chunk ?im 32 (length ?lin) ! (32 * m + i - 32)"
        using True k(1) room fits by (subst nth_chunk) (auto simp: add.assoc)
      then show ?thesis using True k(1) by (simp only: x85_image_linear [OF fits]) (simp add: nth_append)
    next
      case False
      then have "?im ! (32 * m + i) = 0xFF"
        using fits i m by (intro x85_image_erased) linarith+
      moreover have "32 * m + i - 32 - length ?lin < 32" using 2 i by linarith
      ultimately show ?thesis using False k(1) by (simp add: nth_append)
    qed
    then have "readUInt32LE ?im (32 * m) = readUInt32LE ?body (32 * m)" by (intro u32le.rd_cong) simp
    moreover have "quiet (readUInt32LE ?body (32 * Suc k))"
      using fits k(2) unfolding x85_fits_def x85_quiet_def Let_def by blast
    ultimately show ?thesis by (simp only: k(1))
  qed (use fits m in \<open>subst readUInt32LE_erased; simp add: quiet_erased x85_image_erased\<close>)+
qed

lemma x85_item_oks: "x85_fits type items \<Longrightarrow> \<forall>(bid, v) \<in> set items. x85_item_ok type bid v"
  by (fastforce simp: x85_fits_def x85_quiet_def x85_item_ok_def Let_def)

lemma entriesX85_image:
  assumes fits: "x85_fits type items"
  shows "\<exists>blocks. entriesX85 (x85_image type items) type 0 [1..<8191 + 1] Map.empty = Inr blocks
    \<and> readable (x85_image type items) blocks = map_of (rev (x85_values type items))"
proof -
  let ?im = "x85_image type items" and ?n = "length (x85_table type 32 items)"
  have room: "length (x85_linear type items) + 64 \<le> 65536" "32 * ?n + 64 \<le> 65536" "type \<noteq> UNKNOWN_PARTITION"
    using fits by (simp_all add: x85_fits_def PARTITION_STEP_def)
  then obtain blocks where run: "entriesX85 ?im type 0 [Suc 0..<Suc 0 + ?n] Map.empty = Inr blocks"
    and res: "readable ?im blocks = readable ?im Map.empty ++ map_of (rev (x85_values type items))"
    using entriesX85_items [OF length_x85_image [OF fits] room(3) x85_image_rows [OF fits] x85_item_oks [OF fits]
        x85_image_linear [OF fits], of Map.empty]
    by (auto simp: PARTITION_STEP_def)
  have "entriesX85 ?im type 0 [Suc ?n..<8191 + 1] blocks = Inr blocks"
  proof (rule entriesX85_skip, rule ballI)
    fix i assume "i \<in> set [Suc ?n..<8191 + 1]"
    then have "Suc ?n \<le> i \<and> i < 8192" by (simp only: set_upt atLeastLessThan_iff) simp
    then obtain j where i: "i = Suc j" "?n \<le> j" "j \<le> 8190" by (cases i) auto
    have pos: "row_pos j = 32 * (8190 - j)" using i(3) by (simp add: row_pos_def)
    have "quiet (readUInt32LE ?im (row_pos j))"
      unfolding pos using i by (intro x85_image_low [OF fits]) linarith
    then show "entryX85 ?im type 0 i = Inr Skip"
      unfolding i(1) using fits by (intro entryX85_quiet) (simp_all add: row_pos_def)
  qed
  moreover have "[1..<8191 + 1] = [Suc 0..<Suc 0 + ?n] @ [Suc ?n..<8191 + 1]"
    using room(2) upt_add_eq_append [of "Suc 0" "Suc ?n" "8191 - ?n"] by (simp del: upt_rec_numeral)
  ultimately show ?thesis
    using run res by (auto simp: entriesX85_append readable_def fun_eq_iff map_add_def simp del: ebind_Inr_iff split: option.split)
qed

text \<open>The scan of the partition boundaries finds the header at the end of the image, and no other.\<close>

lemma readPartitionType_X85_erased:
  assumes at: "off + PARTITION_STEP - 32 = p" and "d ! p = 0xFF" and "p + 32 \<le> length d"
  shows "readPartitionType d X85 off = Inr UNKNOWN_PARTITION"
proof -
  have "chunk d p 8 ! 0 = 0xFF" using assms by simp
  then have "chunk d p 8 \<noteq> EELITE_MAGIC \<and> chunk d p 8 \<noteq> EEFULL_MAGIC"
    by (auto simp: EELITE_MAGIC_def EEFULL_MAGIC_def)
  then show ?thesis
    using assms(3) by (simp add: readPartitionType_def Let_def X85_HEADER_SIZE_def at fetch_bytes_def)
qed

lemma readPartitionType_X85_header:
  assumes at: "off + PARTITION_STEP - 32 = p" and header: "chunk d p 32 = x85_header type"
    and "p + 32 \<le> length d" and "type \<noteq> UNKNOWN_PARTITION"
  shows "readPartitionType d X85 off = Inr type"
proof -
  have magic: "fetch_bytes d p 8 = Inr (if type = EELITE then EELITE_MAGIC else EEFULL_MAGIC)"
  proof -
    have "chunk d p 8 = take 8 (chunk d p 32)" by (simp add: chunk_def)
    then show ?thesis
      using assms by (auto simp: fetch_bytes_def x85_header_def x65_header_def EELITE_MAGIC_def EEFULL_MAGIC_def)
  qed
  have b: "fetch d (p + i) = Inr (x85_header type ! i)" if "i < 32" for i
    using fetch_chunk [OF assms(3) that] by (simp add: header)
  have h: "x85_header type ! 10 = 0" "x85_header type ! 11 = 0" "x85_header type ! 12 = 0xF0"
    by (simp_all add: x85_header_def x65_header_def EELITE_MAGIC_def EEFULL_MAGIC_def)
  have tail: "x85_header type ! i = 0xFF" if "13 \<le> i" "i < 32" for i
  proof (cases "i < 16")
    case True
    then have "i = 13 \<or> i = 14 \<or> i = 15" using that by linarith
    then show ?thesis by (auto simp: x85_header_def x65_header_def EELITE_MAGIC_def EEFULL_MAGIC_def)
  qed (use that in \<open>simp add: x85_header_def nth_append\<close>)
  have check: "check_header_tail d p is = Inr ()" if "\<forall>i \<in> set is. 13 \<le> i \<and> i < 32" for "is"
    using that by (induction "is") (simp_all add: b tail del: ebind_Inr_iff)
  have "check_header_tail d p [13..<32] = Inr ()" by (rule check) simp
  moreover have "EELITE_MAGIC \<noteq> EEFULL_MAGIC" by (simp add: EELITE_MAGIC_def EEFULL_MAGIC_def)
  ultimately show ?thesis
    unfolding readPartitionType_def
    using assms(3,4) magic b [of 10] b [of 11] b [of 12] h
    by (cases type) (simp_all add: Let_def X85_HEADER_SIZE_def at del: ebind_Inr_iff upt_rec_numeral)
qed

lemma parse_x85_image:
  assumes fits: "x85_fits type items"
  obtains e where "parsePartitions (x85_image type items) = Inr e" and "m_data e = x85_image type items"
    and "eeprom_layout e = X85" and "readable (x85_image type items) (m_blocks e) = map_of (rev (x85_values type items))"
proof -
  let ?d = "x85_image type items"
  obtain blocks where run: "entriesX85 ?d type 0 [1..<8191 + 1] Map.empty = Inr blocks"
    and res: "readable ?d blocks = map_of (rev (x85_values type items))"
    using entriesX85_image [OF fits] by blast
  have len: "length ?d = 262144" using fits by simp
  have offs: "map (\<lambda>k. k * PARTITION_STEP) [0..<(length ?d + PARTITION_STEP - 1) div PARTITION_STEP]
      = [0, 65536, 131072, 196608]"
    by (simp add: len PARTITION_STEP_def upt_rec)
  have room: "length (x85_linear type items) + 64 \<le> 65536" "32 * length (x85_table type 32 items) + 64 \<le> 65536"
    and t: "type \<noteq> UNKNOWN_PARTITION"
    using fits by (simp_all add: x85_fits_def PARTITION_STEP_def)
  have erased: "?d ! i = 0xFF" if "i = 0 \<or> 65504 \<le> i \<and> i \<le> 196608" for i
    using that room by (intro x85_image_erased [OF fits]) auto
  have x65: "readPartitionType ?d X65 off = Inr UNKNOWN_PARTITION" if "off \<in> {0, 65536, 131072, 196608}" for off
    using that len by (intro readPartitionType_erased erased) auto
  have x85: "readPartitionType ?d X85 off = Inr UNKNOWN_PARTITION" if "off \<in> {0, 65536, 131072}" for off
    using that len erased [of "off + 65504"]
    by (intro readPartitionType_X85_erased [of _ "off + 65504"]) (auto simp: PARTITION_STEP_def)
  have header: "readPartitionType ?d X85 196608 = Inr type"
    using t len x85_image_head [OF fits]
    by (intro readPartitionType_X85_header [of _ 262112]) (simp_all add: PARTITION_STEP_def)
  have part: "parsePartitionX85 type 196608 \<lparr>m_data = ?d, eeprom_layout = UNKNOWN_LAYOUT, m_blocks = Map.empty\<rparr>
      = Inr \<lparr>m_data = ?d, eeprom_layout = UNKNOWN_LAYOUT, m_blocks = blocks\<rparr>"
    unfolding parsePartitionX85_def Let_def partition_count
    using run by (simp add: X85_PARTITION_SIZE_def PARTITION_STEP_def del: ebind_Inr_iff upt_Suc upt_rec_numeral)
  have "parsePartitions ?d = Inr \<lparr>m_data = ?d, eeprom_layout = X85, m_blocks = blocks\<rparr>"
    unfolding parsePartitions_def offs
    by (simp add: scanX65_def scanX85_def x65 x85 header part t del: ebind_Inr_iff)
  then show ?thesis using that res by simp
qed

lemma x85_values_lookup:
  assumes "parsePartitions (x85_image type items) = Inr e" and "m_data e = x85_image type items"
    and "readable (x85_image type items) (m_blocks e) = map_of (rev (x85_values type items))"
  shows "readBlock e bid = (case map_of (rev (x85_values type items)) bid of
    None \<Rightarrow> Inl (BlockNotFound bid) | Some v \<Rightarrow> Inr v)"
proof -
  have wf: "eeprom_wf e" using parsePartitions_wf [OF assms(1)] by simp
  have res: "map_of (rev (x85_values type items)) bid = map_option (block_bytes (x85_image type items)) (m_blocks e bid)"
    using fun_cong [OF assms(3), of bid] by (simp add: readable_def)
  show ?thesis
    unfolding res using readBlock_bytes [OF wf, of bid] assms(2)
    by (cases "m_blocks e bid") (auto simp: readBlock_def getBlockMetadata_def)
qed

text \<open>The data of a block may have the bytes of an entry, and its row then is that entry.\<close>

lemma x85_row_like_entry: "x85_row (take 16 (x85_entry type bid n off)) 0 = x85_entry type bid n off"
  by (simp add: x85_row_def x85_rows_def x85_entry_def chunk_def)

section \<open>Properties\<close>

text \<open>C15. Every image that holds one X85 partition with any items that fit is parsed, and each id
  reads back the value of the last entry that was written for it (the opposite of X65), for both
  partition types, for inline data in the lower halves of the rows as for linear data at the start of
  the partition, provided that no row of data begins like a valid entry.\<close>

theorem x85_image_roundtrip:
  assumes "x85_fits type items"
  shows "\<exists>e. parsePartitions (x85_image type items) = Inr e \<and> eeprom_layout e = X85 \<and>
    readBlock e bid = (case map_of (rev (map (\<lambda>(i, v). (x65_id type i, v)) items)) bid of
      None \<Rightarrow> Inl (BlockNotFound bid) | Some v \<Rightarrow> Inr v)"
  using parse_x85_image [OF assms] x85_values_lookup unfolding x85_values_def by metis

section \<open>Witnesses\<close>

definition x85_sample :: "(u32 \<times> u8 list) list" where
  "x85_sample = [(76, [0, 1, 2, 3, 4, 5, 6, 7, 8, 9]), (79, replicate 40 7), (77, [0x42]), (76, [0x22, 0xFF])]"

lemma x85_short_row_quiet:
  assumes "v \<noteq> []" and "length v \<le> 12"
  shows "x85_rows (length v) = 1" and "quiet (readUInt32LE (x85_row v 0) 0)"
proof -
  have "1 \<le> length v" using assms(1) by (simp add: Suc_le_eq)
  then show one: "x85_rows (length v) = 1" using assms(2) by (simp add: x85_rows_def div_nat_eqI)
  have "x85_row v 0 ! i = 0xFF" if "i < 4" for i
  proof -
    have "i < 16 - length v" using that assms(2) by linarith
    then show ?thesis using that by (simp add: x85_row_def one chunk_def nth_append)
  qed
  then have "readUInt32LE (x85_row v 0) 0 = 0xFFFFFFFF" by (intro readUInt32LE_erased) simp
  then show "quiet (readUInt32LE (x85_row v 0) 0)" by (simp add: quiet_erased)
qed

lemma x85_short_rows_quiet:
  "v \<noteq> [] \<Longrightarrow> length v \<le> 12 \<Longrightarrow> \<forall>k < x85_rows (length v). quiet (readUInt32LE (x85_row v k) 0)"
  by (simp add: x85_short_row_quiet)

lemma x85_sample_fits: "x85_fits EELITE x85_sample"
proof -
  have inline: "x85_inline EELITE n \<longleftrightarrow> n \<le> 16" for n
    by (simp add: x85_inline_def x85_consts)
  have linear: "x85_linear EELITE x85_sample = replicate 40 7" and table: "length (x85_table EELITE 32 x85_sample) = 7"
    by (simp_all add: x85_sample_def x85_stored_def inline x85_rows_def)
  have "\<forall>v \<in> set [[0, 1, 2, 3, 4, 5, 6, 7, 8, 9], [0x42], [0x22, 0xFF]].
      \<forall>k < x85_rows (length v). quiet (readUInt32LE (x85_row v k) 0)"
    by (intro ballI x85_short_rows_quiet) auto
  moreover have "\<forall>k < (length (replicate 40 (7 :: u8)) + 31) div 32.
      quiet (readUInt32LE (replicate 32 0xFF @ replicate 40 7 @ replicate 32 0xFF) (32 * Suc k))" by code_simp
  ultimately have "x85_quiet EELITE x85_sample"
    unfolding x85_quiet_def linear Let_def by (simp add: x85_sample_def x85_stored_def inline)
  then show ?thesis
    unfolding x85_fits_def linear table
    by (simp add: x85_sample_def x85_stored_def PARTITION_STEP_def maxId_def EEFULL_ID_OFFSET_def)
qed

theorem x85_image_roundtrip_witness:
  "(\<exists>e. parsePartitions (x85_image EELITE x85_sample) = Inr e \<and> readBlock e 76 = Inr [0x22, 0xFF])
   \<and> (\<exists>e. parsePartitions (x85_image EELITE x85_sample) = Inr e \<and> readBlock e 79 = Inr (replicate 40 7))"
  using x85_image_roundtrip [OF x85_sample_fits, of 76] x85_image_roundtrip [OF x85_sample_fits, of 79]
  by (auto simp: x85_sample_def x65_id_def)

end
