(* ===== verification/Vectors.thy ===== *)
theory Vectors
  imports Bruteforce Otp Qemu
begin

text \<open>
  The known answers of the repository's own tests, on the model: src/tests/binary.cpp,
  src/tests/qemu_args.cpp and src/siemens/tests/crypto.cpp, where the kernel can evaluate them.  The
  model is translated from the code and not fitted to the tests, so each lemma here compares the two.
  What the other tests check is proved in general: the way back of the ciphers in SiemensCrypto, the
  reading of images with tables of either layout in Eeprom and EepromX85.
\<close>

section \<open>Binary integers use the requested byte order\<close>

lemma vectors_u8:
  "readUInt8 (writeUInt8 (replicate 8 0) 0 0x81) 0 = 0x81" "readInt8 (writeUInt8 (replicate 8 0) 0 0x81) 0 = - 127"
  "writeInt8 (replicate 8 0) 0 (- 2) ! 0 = 0xFE"
  by code_simp+

lemma vectors_u16:
  "take 2 (writeUInt16LE (replicate 8 0) 0 0x1234) = [0x34, 0x12]" "take 2 (writeUInt16BE (replicate 8 0) 0 0x1234) = [0x12, 0x34]"
  "readInt16LE (writeInt16LE (replicate 8 0) 0 (- 2)) 0 = - 2" "readInt16BE (writeInt16BE (replicate 8 0) 0 (- 2)) 0 = - 2"
  "readInt16LE (writeUInt16LE (replicate 8 0) 0 0x1234) 0 = 0x1234"
  by code_simp+

lemma vectors_u32:
  "readUInt32LE (writeUInt32LE (replicate 8 0) 0 0x12345678) 0 = 0x12345678"
  "readInt32LE (writeUInt32LE (replicate 8 0) 0 0x12345678) 0 = 0x12345678"
  "readInt32LE (writeInt32LE (replicate 8 0) 0 (- 2)) 0 = - 2" "readInt32BE (writeInt32BE (replicate 8 0) 0 (- 2)) 0 = - 2"
  by code_simp+

lemma vectors_u64:
  "readUInt64LE (writeUInt64LE (replicate 8 0) 0 0x123456789ABCDEF0) 0 = 0x123456789ABCDEF0"
  "readInt64LE (writeUInt64LE (replicate 8 0) 0 0x123456789ABCDEF0) 0 = 0x123456789ABCDEF0"
  "readInt64LE (writeInt64LE (replicate 8 0) 0 (- 2)) 0 = - 2" "readInt64BE (writeInt64BE (replicate 8 0) 0 (- 2)) 0 = - 2"
  by code_simp+

section \<open>QEMU clock arguments\<close>

lemma vectors_clock:
  "getQemuClockArguments None None = [''-accel'', ''tcg,vcpu-timers=on,cross-page-links=on'']"
  "getQemuClockArguments (Some ''tcg,thread=single'') None = [''-accel'', ''tcg,thread=single'']"
  "getQemuClockArguments None (Some ''shift=3,sleep=off'') = [''-accel'', ''tcg'', ''-icount'', ''shift=3,sleep=off'']"
  by (simp_all add: getQemuClockArguments_def)

section \<open>Hashes\<close>

lemma vectors_md5_empty:
  "md5 [] = [0xD4, 0x1D, 0x8C, 0xD9, 0x8F, 0x00, 0xB2, 0x04, 0xE9, 0x80, 0x09, 0x98, 0xEC, 0xF8, 0x42, 0x7E]"
  by code_simp

lemma vectors_md5_abc:
  "md5 (map of_char ''abc'') = [0x90, 0x01, 0x50, 0x98, 0x3C, 0xD2, 0x4F, 0xB0, 0xD6, 0x96, 0x3F, 0x7D, 0x28, 0xE1, 0x7F, 0x72]"
  by code_simp

lemma vectors_md4_zero_block:
  "md4 (replicate 64 0) = [0x2F, 0x6F, 0x7B, 0x10, 0xC5, 0xCA, 0xDC, 0xA6, 0xD5, 0x77, 0x0F, 0x42, 0x8C, 0x89, 0x9B, 0xA7]"
  by code_simp

section \<open>Keys, the IMEI cipher and the OTP images\<close>

lemma vectors_keys:
  "calculateBkeyAndHash 0x12345678 12345678 =
    ([0x20, 0x62, 0x67, 0x0E, 0x09, 0x53, 0x7A, 0x7F, 0xE0, 0x79, 0x46, 0x2A, 0x0E, 0xC9, 0x81, 0x68],
     [0x54, 0xF8, 0x0A, 0xC1, 0x2A, 0xCD, 0x94, 0xB2, 0xF5, 0xCF, 0xFB, 0x9B, 0xF7, 0xE4, 0xD4, 0x93])"
proof -
  let ?bkey = "[0x20, 0x62, 0x67, 0x0E, 0x09, 0x53, 0x7A, 0x7F, 0xE0, 0x79, 0x46, 0x2A, 0x0E, 0xC9, 0x81, 0x68] :: u8 list"
  have esn: "0x12345678 = RECALCULATED_ESN" and hash: "[0x54, 0xF8, 0x0A, 0xC1, 0x2A, 0xCD, 0x94, 0xB2, 0xF5, 0xCF,
      0xFB, 0x9B, 0xF7, 0xE4, 0xD4, 0x93] = RECALCULATED_HASH"
    by (simp_all add: RECALCULATED_ESN_def RECALCULATED_HASH_def)
  have "rfc_digest [0xE676220, 0x7F7A5309, 0x2A4679E0, 0x6881C90E] = ?bkey" by code_simp
  then have "fst (calculateBkeyAndHash RECALCULATED_ESN 12345678) = ?bkey"
    by (simp only: calculateBkeyAndHash_message fst_conv bkey_message_words md5_four_words default_bkey_words
        md5_result_words)
  then show ?thesis unfolding esn hash using known_hash by (simp only: prod_eq_iff fst_conv snd_conv)
qed

lemma vectors_imei_cipher:
  "imeiCipherEncrypt [0, 1, 2, 3, 4, 5, 6, 7, 8, 9] False = [0xDF, 0x70, 0xD8, 0x7E, 0xDF, 0xB1, 0xC2, 0xB1, 0xC2, 0xBE]"
  "imeiCipherDecrypt [0xDF, 0x70, 0xD8, 0x7E, 0xDF, 0xB1, 0xC2, 0xB1, 0xC2, 0xBE] False = [0, 1, 2, 3, 4, 5, 6, 7, 8, 9]"
  "imeiCipherEncrypt [0, 1, 2, 3, 4, 5, 6, 7, 8, 9] True = [0xFC, 0x5C, 0xF8, 0x56, 0xFD, 0xBF, 0x65, 0xBE, 0x6A, 0xB8]"
  "imeiCipherDecrypt [0xFC, 0x5C, 0xF8, 0x56, 0xFD, 0xBF, 0x65, 0xBE, 0x6A, 0xB8] True = [0, 1, 2, 3, 4, 5, 6, 7, 8, 9]"
  by code_simp+

lemma vectors_otp:
  "esnToOtp ''12345678'' = Inr ''02004AB3C31100000000''" "imeiToOtp ''490154203237518'' = Inr ''000094104502237315FF''"
  "imeiToOtp ''12345678901234X'' = Inl (InvalidImei ''12345678901234X'')" "esnToOtp ''1234567Z'' = Inl (InvalidEsn ''1234567Z'')"
  by code_simp+

end
