(* ===== verification/Spec2Isabelle.thy ===== *)
theory Spec2Isabelle
  imports LauncherProperties Relaunch EepromX85 Vectors
begin

text \<open>
  A verification development for pmb887x-emu, the launcher that prepares the flash image of a
  Siemens phone and runs QEMU on it.  All paths below are under src/ of the repository, in its
  directory src/.

  \<^bold>\<open>The program.\<close>  \<open>main\<close> (main.cpp) reads its options, finds the board file and the QEMU binary, and
  recognises the image (siemens/fullflash.cpp).  For a Siemens phone without OTP options it either
  rewrites the security keys of the image (siemens/recalc.cpp, in place with \<open>--rw\<close> through
  utils/file.cpp, otherwise in a copy of utils/temp_file.cpp) or recovers the ESN that the image
  belongs to: from the cache (siemens/esn.cpp) or by a threaded search over all 32-bit values
  (siemens/bruteforce.cpp) that checks candidates against the EEPROM blocks (siemens/eeprom.cpp)
  with the phone's ciphers and hashes (siemens/crypto.cpp, crypto/md4.cpp, crypto/md5.cpp).  The OTP
  images (siemens/otp.cpp) go to QEMU by environment variables.

  \<^bold>\<open>Theories and what they model.\<close>

  \<^item> Prelude: machine integers, exceptions as the left side of a sum (\<open>ebind\<close>), byte buffers
    (\<open>chunk\<close>, \<open>blit\<close>), the collections of facts.
  \<^item> Binary (utils/binary.h): the readers and writers of every width in both byte orders; the locale
    \<open>byte_codec\<close> is what their clients rely on, with an interpretation per codec.
  \<^item> Strings (utils/string.cpp), Otp (siemens/otp.cpp), Esn (siemens/esn.cpp): texts, the OTP images,
    the ESN cache; the locale \<open>printer\<close> is the contract of a printer with a reader.
  \<^item> Md4, Md5 (crypto/): the hashes as the code unrolls them, proved equal to the RFC texts; the
    eight-lane batch is the scalar hash in every lane.
  \<^item> SiemensCrypto (siemens/crypto.cpp): key blocks, the IMEI cipher, the feedback stream cipher with
    its interleaved batch, BKEY and HASH, the Luhn digit; the locale \<open>byte_cipher\<close>.
  \<^item> Eeprom (siemens/eeprom.cpp): both partition layouts, the parser with all its exceptions (an
    access outside the vector is an error of its own, proved unreachable), block reads and writes; the
    locale \<open>block_store\<close> is the interface the recalculation uses.  EepromX85: a writer of X85 images,
    inline and linear data, that the parser reads back.
  \<^item> Fullflash (siemens/fullflash.cpp, first part): boot-core layout and identity of an image.
  \<^item> EepromReads: the bytes of an image that the parser looks at, computed along its run; images that
    agree on them are parsed alike.
  \<^item> Recalc (siemens/recalc.cpp): the generated blocks and the in-place patching; RecalcAgain: the
    recalculation of the image it left.
  \<^item> Search (siemens/bruteforce.cpp, \<open>bruteForceEsn\<close>): the threads as a step relation \<open>search_step\<close>.
    A turn is one access to a shared atomic with the local work around it; every interleaving is a
    run, and a relaxed read of the stop flag may be outdated.  The locale \<open>esn_sweep\<close> is the contract
    of a search, proved for the step relation.
  \<^item> Bruteforce (siemens/bruteforce.cpp, the rest): the batch matchers and the order of the methods.
    The result of each run of the search is the argument \<open>sweep\<close>; \<open>sweeps\<close> says that each result is
    one the step relation can give.
  \<^item> Process (utils/process.cpp and the path searches of main.cpp), Files (utils/file.cpp and
    utils/temp_file.cpp): the platform the code was compiled for is an argument, so that the branches
    for Windows, macOS, Linux and FreeBSD are all modelled; the disk is a map from paths to files, and
    the answers of the operating system are arguments; the locale \<open>one_path\<close> is the contract of an
    operation on one path.
  \<^item> Recovery (siemens/fullflash.cpp, second part): \<open>recoverOtp\<close> on the disk with the cache.
  \<^item> Qemu (qemu_args.cpp and main.cpp): the option table, the command line, the environment.
  \<^item> Launcher (\<open>main\<close>) and LauncherProperties: the whole program; a run gives the disks it went
    through, what was spawned in which environment, and the exit status.  Relaunch: a launch on the
    image that an earlier launch recalculated.
  \<^item> Vectors: the known answers of the repository's tests, evaluated on the model.

  \<^bold>\<open>Correspondence.\<close>  A definition has the name of the C++ function or is a named part of it, its
  branches and early returns in the order of the code.  A \<open>uint8_t *\<close> is a buffer with an offset; an
  object passed by reference is returned updated, also when the function throws; a
  \<open>std::unordered_map\<close> is a map where only lookups matter.  An exception is \<open>Inl\<close>, \<open>std::nullopt\<close> is
  None.  Integers that wrap are words of their width; \<open>size_t\<close> offsets that stay far below 2^64 are
  natural numbers.

  \<^bold>\<open>What the lemmas show.\<close>
  Parsing any bytes never leaves the vector, and every block found lies inside it and apart from its
  entry; an image that holds a table of either layout reads back, the first entry of an id in X65 and
  the last in X85; writes are frames with exact change flags; the recalculation keeps the size, is complete
  exactly when the eight required blocks fit, and repeating it on the image it left changes nothing,
  where the rewritten blocks share no byte with the tables the parser reads or with the boot core; a
  later launch on that image gives QEMU the same OTP values.
  The ciphers are undone by their inverses; generated blocks are accepted by every check of the recovery.
  The search is sound and complete under every schedule and ends; the recovery decides between its
  methods as specified; the OTP of a run is explained by the image or by the cache, and stays the
  same afterwards.  The launcher leaves the files of the user alone unless \<open>--rw\<close> is given, and then
  replaces the fullflash atomically; QEMU gets the image, the arguments and the environment that the
  options say; a rejected configuration has no effect.

  \<^bold>\<open>Bounds.\<close>  Loops whose end depends on the operating system (\<open>writeDescriptor\<close>, \<open>waitpid\<close>) run on the
  list of answers and give None when it is used up before the loop ends; they are proved to return
  as soon as one answer is not an interruption, or, for the write, as there are as many productive
  answers as bytes.  The search relation counts its turns: \<open>T\<close> threads take at most
  \<open>T * (2^32 + 2)\<close>, with no bound assumed.  Every other recursion is structural or has a measure.

  \<^bold>\<open>Parameters.\<close>  The TOML library (parser and formatter, assumed to be inverse where a property needs
  it), the argument parser (no assumption), \<open>std::random_device\<close> and the operating system (assumed to
  hand out new descriptors and new temporary names, and not to stop half-way in \<open>ReplaceFileW\<close>, where a
  property needs it, collected in \<open>fresh_names\<close>).  Every property with a hypothesis has a witness with concrete parameters.

  \<^bold>\<open>Not modelled.\<close>  Log messages, help texts and the clock; the
  arithmetic of floating-point values (only their bits are moved, and nothing computes with them);
  crashes of the machine in the middle of a system call; the memory-order details beyond outdated
  reads of the stop flag; the tests, the Python and shell tools, and QEMU itself.
\<close>

end
